(* ===== verification/Flex_Prelude.thy ===== *)
theory Flex_Prelude
  imports Main "HOL-Library.Word"
begin

text \<open>
  Shared vocabulary of the development.

  \<^item> A byte on the wire is an \<open>8 word\<close> where the code treats it as binary data
    (PID 0xCF frames, AX.25 addresses) and a \<open>char\<close> where it treats it as text (PID 0xCE
    frames, configuration lines); both are 8-bit values.
  \<^item> A C string is the list of its characters up to, and without, the terminating NUL.
  \<^item> \<open>int\<close> and \<open>time_t\<close> values are \<open>int\<close>; the places where a width matters use words.
  \<^item> A C array that is scanned with \<open>for (i = 0; ...)\<close> is a list, a pointer into it an
    index, the scan \<open>first_idx\<close>.
  \<^item> A memory access outside its buffer is \<open>None\<close> of \<open>write_at\<close> and \<open>read_at\<close>.
\<close>

type_synonym byte = "8 word"

named_theorems text_simps \<open>facts about C string helpers\<close>

section \<open>Linear scans\<close>

text \<open>
  \<open>for (i = 0; i < n; i++) if (P(a[i])) return i; return -1;\<close>
\<close>

fun first_idx :: "('a \<Rightarrow> bool) \<Rightarrow> 'a list \<Rightarrow> nat option" where
  "first_idx P [] = None"
| "first_idx P (x # xs) = (if P x then Some 0 else map_option Suc (first_idx P xs))"

lemma first_idx_None_iff: "first_idx P xs = None \<longleftrightarrow> (\<forall>x \<in> set xs. \<not> P x)"
  by (induction xs) auto

lemma first_idx_SomeD:
  "first_idx P xs = Some i \<Longrightarrow> i < length xs \<and> P (xs ! i) \<and> (\<forall>j < i. \<not> P (xs ! j))"
proof (induction xs arbitrary: i)
  case Nil
  then show ?case by simp
next
  case (Cons x xs)
  show ?case
  proof (cases "P x")
    case True
    with Cons.prems show ?thesis by auto
  next
    case False
    with Cons.prems obtain k where k: "first_idx P xs = Some k" "i = Suc k" by auto
    from Cons.IH [OF k(1)] False k(2) show ?thesis
      by (auto simp: less_Suc_eq_0_disj)
  qed
qed

lemma first_idx_less: "first_idx P xs = Some i \<Longrightarrow> i < length xs"
  by (simp add: first_idx_SomeD)

lemma first_idx_sat: "first_idx P xs = Some i \<Longrightarrow> P (xs ! i)"
  by (simp add: first_idx_SomeD)

lemma first_idx_before: "first_idx P xs = Some i \<Longrightarrow> j < i \<Longrightarrow> \<not> P (xs ! j)"
  by (simp add: first_idx_SomeD)

lemma first_idx_eqI:
  "i < length xs \<Longrightarrow> P (xs ! i) \<Longrightarrow> (\<And>j. j < i \<Longrightarrow> \<not> P (xs ! j)) \<Longrightarrow> first_idx P xs = Some i"
proof (induction xs arbitrary: i)
  case Nil
  then show ?case by simp
next
  case (Cons x xs)
  show ?case
  proof (cases i)
    case 0
    with Cons.prems show ?thesis by simp
  next
    case (Suc k)
    have "\<not> P x" using Cons.prems(3) [of 0] Suc by simp
    moreover have "first_idx P xs = Some k"
    proof (rule Cons.IH)
      show "k < length xs" "P (xs ! k)" using Cons.prems(1,2) Suc by auto
      show "\<not> P (xs ! j)" if "j < k" for j using Cons.prems(3) [of "Suc j"] that Suc by simp
    qed
    ultimately show ?thesis using Suc by simp
  qed
qed

lemma first_idx_append:
  "first_idx P (xs @ ys) =
     (case first_idx P xs of Some i \<Rightarrow> Some i
      | None \<Rightarrow> map_option (\<lambda>i. length xs + i) (first_idx P ys))"
  by (induction xs; cases "first_idx P ys") (auto split: option.splits)

lemma first_idx_cong [fundef_cong]:
  "xs = ys \<Longrightarrow> (\<And>x. x \<in> set ys \<Longrightarrow> P x = Q x) \<Longrightarrow> first_idx P xs = first_idx Q ys"
  by (induction xs arbitrary: ys) auto

lemmas first_idx_facts = first_idx_less first_idx_sat first_idx_before

section \<open>Buffers\<close>

text \<open>\<open>memcpy(&buf[off], src, length src)\<close> into a buffer of \<open>length buf\<close> bytes.\<close>

definition write_at :: "nat \<Rightarrow> 'a list \<Rightarrow> 'a list \<Rightarrow> 'a list option" where
  "write_at off src buf =
     (if off + length src \<le> length buf
      then Some (take off buf @ src @ drop (off + length src) buf) else None)"

text \<open>\<open>memcpy(dst, &buf[off], n)\<close>: the \<open>n\<close> bytes at offset \<open>off\<close>.\<close>

definition read_at :: "nat \<Rightarrow> nat \<Rightarrow> 'a list \<Rightarrow> 'a list option" where
  "read_at off n buf = (if off + n \<le> length buf then Some (take n (drop off buf)) else None)"

lemma write_at_Some_length: "write_at off src buf = Some buf' \<Longrightarrow> length buf' = length buf"
  by (auto simp: write_at_def split: if_splits)

lemma read_at_Some_length: "read_at off n buf = Some xs \<Longrightarrow> length xs = n"
  by (auto simp: read_at_def split: if_splits)

lemma write_at_full: "off + length src \<le> length buf \<Longrightarrow> write_at off src buf \<noteq> None"
  by (simp add: write_at_def)

section \<open>C strings\<close>

definition is_digit :: "char \<Rightarrow> bool" where
  "is_digit c \<longleftrightarrow> 48 \<le> (of_char c :: nat) \<and> (of_char c :: nat) \<le> 57"

definition is_upper :: "char \<Rightarrow> bool" where
  "is_upper c \<longleftrightarrow> 65 \<le> (of_char c :: nat) \<and> (of_char c :: nat) \<le> 90"

definition is_lower :: "char \<Rightarrow> bool" where
  "is_lower c \<longleftrightarrow> 97 \<le> (of_char c :: nat) \<and> (of_char c :: nat) \<le> 122"

text \<open>\<open>isalnum\<close> in the C locale.\<close>

definition is_alnum :: "char \<Rightarrow> bool" where
  "is_alnum c \<longleftrightarrow> is_digit c \<or> is_upper c \<or> is_lower c"

text \<open>\<open>toupper\<close> in the C locale.\<close>

definition to_upper :: "char \<Rightarrow> char" where
  "to_upper c = (if is_lower c then char_of ((of_char c :: nat) - 32) else c)"

text \<open>\<open>strcasecmp(a, b) == 0\<close>.\<close>

definition case_eq :: "string \<Rightarrow> string \<Rightarrow> bool" where
  "case_eq a b \<longleftrightarrow> map to_upper a = map to_upper b"

lemma case_eq_refl [simp]: "case_eq a a"
  by (simp add: case_eq_def)

lemma case_eq_sym: "case_eq a b \<Longrightarrow> case_eq b a"
  by (simp add: case_eq_def)

lemma case_eq_trans: "case_eq a b \<Longrightarrow> case_eq b c \<Longrightarrow> case_eq a c"
  by (simp add: case_eq_def)

text \<open>The loops \<open>while (n > 0 && s[n-1] == ' ') s[--n] = 0\<close> that trim a callsign.\<close>

definition rtrim :: "(char \<Rightarrow> bool) \<Rightarrow> string \<Rightarrow> string" where
  "rtrim P s = rev (dropWhile P (rev s))"

lemma rtrim_Nil [simp]: "rtrim P [] = []"
  by (simp add: rtrim_def)

lemma rtrim_snoc [simp]: "rtrim P (s @ [c]) = (if P c then rtrim P s else s @ [c])"
  by (simp add: rtrim_def)

lemma rtrim_last_id: "s = [] \<or> \<not> P (last s) \<Longrightarrow> rtrim P s = s"
  by (cases s rule: rev_cases) auto

lemma rtrim_append_all: "\<forall>c \<in> set t. P c \<Longrightarrow> rtrim P (s @ t) = rtrim P s"
  by (induction t rule: rev_induct) (auto simp flip: append_assoc)

text \<open>\<open>strncpy(dst, src, n)\<close> into a zeroed \<open>dst[n+1]\<close>: at most \<open>n\<close> characters are kept.\<close>

definition str_trunc :: "nat \<Rightarrow> string \<Rightarrow> string" where
  "str_trunc n s = take n s"

section \<open>Decimal numbers\<close>

definition digit_char :: "nat \<Rightarrow> char" where
  "digit_char d = char_of (48 + d)"

definition digit_val :: "char \<Rightarrow> nat" where
  "digit_val c = of_char c - 48"

lemma digit_char_simps [simp]:
  "d < 10 \<Longrightarrow> is_digit (digit_char d)"
  "d < 10 \<Longrightarrow> digit_val (digit_char d) = d"
  by (simp_all add: digit_char_def is_digit_def digit_val_def of_char_of)

fun dec_of_nat :: "nat \<Rightarrow> string" where
  "dec_of_nat n = (if n < 10 then [digit_char n] else dec_of_nat (n div 10) @ [digit_char (n mod 10)])"

declare dec_of_nat.simps [simp del]

text \<open>\<open>printf("%d", v)\<close>.\<close>

definition dec_of_int :: "int \<Rightarrow> string" where
  "dec_of_int v = (if v < 0 then CHR ''-'' # dec_of_nat (nat (- v)) else dec_of_nat (nat v))"

text \<open>The accumulation loop \<open>v = v * 10 + (*p - '0')\<close> over a run of digits.\<close>

definition digits_val :: "string \<Rightarrow> nat" where
  "digits_val ds = foldl (\<lambda>v c. v * 10 + digit_val c) 0 ds"

lemma digits_val_snoc: "digits_val (ds @ [c]) = digits_val ds * 10 + digit_val c"
  by (simp add: digits_val_def)

lemma digits_val_dec_of_nat: "digits_val (dec_of_nat n) = n"
proof (induction n rule: dec_of_nat.induct)
  case (1 n)
  show ?case
  proof (cases "n < 10")
    case True
    then show ?thesis by (subst dec_of_nat.simps) (simp add: digits_val_def)
  next
    case False
    with "1.IH" show ?thesis
      by (subst dec_of_nat.simps) (simp add: digits_val_snoc)
  qed
qed

lemma dec_of_nat_digits: "c \<in> set (dec_of_nat n) \<Longrightarrow> is_digit c"
proof (induction n rule: dec_of_nat.induct)
  case (1 n)
  show ?case
  proof (cases "n < 10")
    case True
    with "1.prems" show ?thesis by (subst (asm) dec_of_nat.simps) simp
  next
    case False
    with "1" show ?thesis by (subst (asm) dec_of_nat.simps) auto
  qed
qed

lemma dec_of_nat_nonempty: "dec_of_nat n \<noteq> []"
  by (subst dec_of_nat.simps) simp

lemma length_dec_of_nat_le: "n < 10 ^ k \<Longrightarrow> 0 < k \<Longrightarrow> length (dec_of_nat n) \<le> k"
proof (induction k arbitrary: n)
  case 0
  then show ?case by simp
next
  case (Suc k)
  show ?case
  proof (cases "n < 10")
    case True
    then show ?thesis by (subst dec_of_nat.simps) simp
  next
    case False
    have "0 < k" using False Suc.prems(1) by (cases k) auto
    moreover have "n div 10 < 10 ^ k" using Suc.prems(1) by (simp add: less_mult_imp_div_less)
    ultimately have "length (dec_of_nat (n div 10)) \<le> k" by (rule Suc.IH [rotated])
    with False show ?thesis by (subst dec_of_nat.simps) simp
  qed
qed

text \<open>\<open>"%-6.6s"\<close>: the first six characters, padded with spaces to six.\<close>

definition pad6 :: "string \<Rightarrow> string" where
  "pad6 s = take 6 s @ replicate (6 - length s) CHR '' ''"

lemma length_pad6 [simp]: "length (pad6 s) = 6"
  by (simp add: pad6_def)

end
