(* ===== verification/Flex_Interfaces.thy ===== *)
theory Flex_Interfaces
  imports Flex_Prelude
begin

text \<open>
  The contracts the components share, as locales. Each is interpreted on the model's own
  definitions in the theory of the component that provides it.

  \<^item> \<open>slot_table\<close>: a fixed array whose entries are busy or free, with a search for a free one
    (connections, circuits, probes, sessions).
  \<^item> \<open>keyed_table\<close>: an array filled from the front, searched by key before each insertion
    (destinations, learned routes, advertised routes, local calls).
  \<^item> \<open>frame_codec\<close>: a builder and a parser of one frame family.
  \<^item> \<open>inv_machine\<close>: a step function that keeps an invariant.
\<close>

section \<open>Slot tables\<close>

definition busy_count :: "('s \<Rightarrow> bool) \<Rightarrow> 's list \<Rightarrow> nat" where
  "busy_count busy t = length (filter busy t)"

lemma busy_count_le: "busy_count busy t \<le> length t"
  by (simp add: busy_count_def)

lemma busy_count_eq_length: "busy_count busy t = length t \<longleftrightarrow> (\<forall>s \<in> set t. busy s)"
proof (induction t)
  case Nil
  then show ?case by (simp add: busy_count_def)
next
  case (Cons s t)
  have "length (filter busy t) \<le> length t" by simp
  then have "length (filter busy t) \<noteq> Suc (length t)" by linarith
  with Cons.IH show ?case by (auto simp: busy_count_def)
qed

lemma busy_count_update:
  assumes "i < length t"
  shows "busy_count busy (t[i := x]) + (if busy (t ! i) then 1 else 0) =
         busy_count busy t + (if busy x then 1 else 0)"
proof -
  have t: "t = take i t @ t ! i # drop (Suc i) t" using assms by (rule id_take_nth_drop)
  have u: "t[i := x] = take i t @ x # drop (Suc i) t" using assms by (rule upd_conv_take_nth_drop)
  have "busy_count busy t =
      busy_count busy (take i t) + (if busy (t ! i) then 1 else 0) + busy_count busy (drop (Suc i) t)"
    by (subst t) (simp add: busy_count_def del: append_take_drop_id)
  moreover have "busy_count busy (t[i := x]) =
      busy_count busy (take i t) + (if busy x then 1 else 0) + busy_count busy (drop (Suc i) t)"
    by (subst u) (simp add: busy_count_def)
  ultimately show ?thesis by simp
qed

locale slot_table =
  fixes busy :: "'s \<Rightarrow> bool"
    and alloc :: "'s list \<Rightarrow> nat option"
  assumes alloc_Some: "alloc t = Some i \<Longrightarrow> i < length t \<and> \<not> busy (t ! i)"
    and alloc_None: "alloc t = None \<Longrightarrow> \<forall>s \<in> set t. busy s"
begin

lemma alloc_fails_iff: "alloc t = None \<longleftrightarrow> busy_count busy t = length t"
proof
  assume "alloc t = None"
  then show "busy_count busy t = length t" by (simp add: busy_count_eq_length alloc_None)
next
  assume full: "busy_count busy t = length t"
  show "alloc t = None"
  proof (cases "alloc t")
    case (Some i)
    from alloc_Some [OF Some] full show ?thesis
      by (metis busy_count_eq_length nth_mem)
  qed
qed

lemma claim_counts:
  assumes "alloc t = Some i" "busy x"
  shows "busy_count busy (t[i := x]) = Suc (busy_count busy t)"
  using alloc_Some [OF assms(1)] busy_count_update [of i t busy x] assms(2) by simp

lemma release_counts:
  assumes "i < length t" "busy (t ! i)" "\<not> busy x"
  shows "Suc (busy_count busy (t[i := x])) = busy_count busy t"
  using busy_count_update [OF assms(1), of busy x] assms(2,3) by simp

lemma release_allows_alloc:
  assumes "i < length t" "\<not> busy x"
  shows "alloc (t[i := x]) \<noteq> None"
proof
  assume "alloc (t[i := x]) = None"
  then have "\<forall>s \<in> set (t[i := x]). busy s" by (rule alloc_None)
  moreover have "x \<in> set (t[i := x])" using assms(1) by (rule set_update_memI)
  ultimately show False using assms(2) by blast
qed

end

section \<open>Keyed tables\<close>

definition keys_ok :: "('e \<Rightarrow> 'k) \<Rightarrow> nat \<Rightarrow> 'e list \<Rightarrow> bool" where
  "keys_ok key cap t \<longleftrightarrow> distinct (map key t) \<and> length t \<le> cap"

lemma keys_ok_Nil [simp]: "keys_ok key cap []"
  by (simp add: keys_ok_def)

locale keyed_table =
  fixes key :: "'e \<Rightarrow> 'k"
    and find :: "'k \<Rightarrow> 'e list \<Rightarrow> nat option"
    and cap :: nat
  assumes find_is_scan: "find k t = first_idx (\<lambda>e. key e = k) t"
begin

lemma find_key: "find k t = Some i \<Longrightarrow> i < length t \<and> key (t ! i) = k"
  by (auto simp: find_is_scan dest: first_idx_SomeD)

lemma find_None: "find k t = None \<longleftrightarrow> k \<notin> set (map key t)"
  by (auto simp: find_is_scan first_idx_None_iff)

lemma append_ok:
  "keys_ok key cap t \<Longrightarrow> find (key e) t = None \<Longrightarrow> length t < cap \<Longrightarrow> keys_ok key cap (t @ [e])"
  unfolding find_None by (simp add: keys_ok_def)

lemma update_ok:
  assumes "keys_ok key cap t" "key e = key (t ! i)"
  shows "keys_ok key cap (t[i := e])"
proof (cases "i < length t")
  case True
  then have "map key (t[i := e]) = map key t"
    by (simp add: map_update assms(2) list_update_same_conv)
  with assms(1) show ?thesis by (simp add: keys_ok_def)
next
  case False
  then have "t[i := e] = t" by (simp add: list_update_beyond)
  with assms(1) show ?thesis by simp
qed

lemma find_append_new:
  assumes "find (key e) t = None"
  shows "find (key e) (t @ [e]) = Some (length t)"
  using assms by (simp add: find_is_scan first_idx_append)

lemma find_append_other:
  assumes "key e \<noteq> k"
  shows "find k (t @ [e]) = find k t"
  using assms by (auto simp: find_is_scan first_idx_append split: option.splits)

lemma find_unique:
  assumes "keys_ok key cap t" "i < length t" "key (t ! i) = k"
  shows "find k t = Some i"
  unfolding find_is_scan
proof (rule first_idx_eqI)
  show "key (t ! j) \<noteq> k" if "j < i" for j
    using assms that nth_eq_iff_index_eq [of "map key t" j i]
    by (auto simp: keys_ok_def)
qed (use assms in auto)

lemma find_update:
  assumes "keys_ok key cap t" "key e = key (t ! i)"
  shows "find k (t[i := e]) = find k t"
proof (cases "i < length t")
  case True
  then have m: "map key (t[i := e]) = map key t"
    by (simp add: map_update assms(2) list_update_same_conv)
  have scan: "first_idx (\<lambda>e. key e = k) xs = first_idx (\<lambda>x. x = k) (map key xs)" for xs
    by (induction xs) auto
  show ?thesis by (simp add: find_is_scan scan m)
next
  case False
  then have "t[i := e] = t" by (simp add: list_update_beyond)
  then show ?thesis by simp
qed

end

section \<open>Codecs\<close>

locale frame_codec =
  fixes good :: "'a \<Rightarrow> bool"
    and enc :: "'a \<Rightarrow> 'b list option"
    and dec :: "'b list \<Rightarrow> 'a option"
  assumes encodes: "good a \<Longrightarrow> enc a \<noteq> None"
    and decodes: "good a \<Longrightarrow> enc a = Some bs \<Longrightarrow> dec bs = Some a"
begin

lemma enc_inj:
  assumes "good a" "good b" "enc a = enc b"
  shows "a = b"
  using assms encodes decodes by (metis not_Some_eq option.sel)

end

section \<open>Machines that keep an invariant\<close>

locale inv_machine =
  fixes step :: "'s \<Rightarrow> 'e \<Rightarrow> 's"
    and inv :: "'s \<Rightarrow> bool"
  assumes step_inv: "inv s \<Longrightarrow> inv (step s e)"
begin

lemma run_inv: "inv s \<Longrightarrow> inv (foldl step s es)"
  by (induction es arbitrary: s) (simp_all add: step_inv)

end

end
