(* ===== verification/Flex_L3.thy ===== *)
theory Flex_L3
  imports Flex_Interfaces "HOL-Library.Monad_Syntax"
begin

unbundle bit_operations_syntax

text \<open>
  The FlexNet L3 module (flexnet_l3.c, flexnet_l3.h): frame parser, frame builders and the
  connection table. A buffer is the list of its bytes; a store or load outside it is \<open>None\<close>
  (undefined behaviour in C). A pointer to a connection is its index, a pointer into the
  frame an offset.
\<close>

section \<open>Constants and data\<close>

definition FLEXL3_CREQ :: int where "FLEXL3_CREQ = 1"
definition FLEXL3_CACK :: int where "FLEXL3_CACK = 2"
definition FLEXL3_DREQ :: int where "FLEXL3_DREQ = 3"
definition FLEXL3_DACK :: int where "FLEXL3_DACK = 4"
definition FLEXL3_INFO :: int where "FLEXL3_INFO = 5"
definition FLEXL3_IACK :: int where "FLEXL3_IACK = 6"

lemmas l3_opcode_defs = FLEXL3_CREQ_def FLEXL3_CACK_def FLEXL3_DREQ_def FLEXL3_DACK_def
  FLEXL3_INFO_def FLEXL3_IACK_def

definition FLEXL3_HEADER_LEN :: int where "FLEXL3_HEADER_LEN = 20"
definition FLEXL3_CREQ_LEN :: int where "FLEXL3_CREQ_LEN = 35"
definition FLEXL3_CACK_LEN :: int where "FLEXL3_CACK_LEN = 21"
definition FLEXL3_MIN_LEN :: int where "FLEXL3_MIN_LEN = 20"
definition FLEXL3_MAX_DATA :: int where "FLEXL3_MAX_DATA = 236"
definition FLEXL3_MAX_CONNECTIONS :: nat where "FLEXL3_MAX_CONNECTIONS = 16"

lemmas l3_len_defs = FLEXL3_HEADER_LEN_def FLEXL3_CREQ_LEN_def FLEXL3_CACK_LEN_def
  FLEXL3_MIN_LEN_def FLEXL3_MAX_DATA_def

record l3_header =
  h_dest :: "byte list"
  h_source :: "byte list"
  h_ttl :: int
  h_circuit_index :: int
  h_circuit_id :: int
  h_tx_seq :: int
  h_rx_seq :: int
  h_opcode :: int
  h_window :: int
  h_origin_user :: "byte list"
  h_origin_node :: "byte list"
  h_payload :: "nat option"
  h_payload_len :: int

text \<open>\<open>memset(hdr, 0, sizeof *hdr)\<close>.\<close>

definition l3_header0 :: l3_header where
  "l3_header0 = \<lparr>h_dest = replicate 7 0, h_source = replicate 7 0, h_ttl = 0,
     h_circuit_index = 0, h_circuit_id = 0, h_tx_seq = 0, h_rx_seq = 0, h_opcode = 0,
     h_window = 0, h_origin_user = replicate 7 0, h_origin_node = replicate 7 0,
     h_payload = None, h_payload_len = 0\<rparr>"

datatype l3_state = L3_IDLE | L3_CONNECTING | L3_CONNECTED | L3_DISCONNECTING

record l3_conn =
  c_state :: l3_state
  c_local_index :: int
  c_local_id :: int
  c_remote_index :: int
  c_remote_id :: int
  c_local_call :: "byte list"
  c_remote_call :: "byte list"
  c_remote_user :: "byte list"
  c_remote_node :: "byte list"
  c_window :: int
  c_tx_seq :: int
  c_rx_seq :: int
  c_acked_seq :: int
  c_created :: int
  c_last_activity :: int
  c_app_context :: "nat option"

definition l3_conn0 :: l3_conn where
  "l3_conn0 = \<lparr>c_state = L3_IDLE, c_local_index = 0, c_local_id = 0, c_remote_index = 0,
     c_remote_id = 0, c_local_call = replicate 7 0, c_remote_call = replicate 7 0,
     c_remote_user = replicate 7 0, c_remote_node = replicate 7 0, c_window = 0, c_tx_seq = 0,
     c_rx_seq = 0, c_acked_seq = 0, c_created = 0, c_last_activity = 0, c_app_context = None\<rparr>"

record l3_table =
  connections :: "l3_conn list"
  next_circuit_index :: int
  next_circuit_id :: int

definition flexl3_init :: l3_table where
  "flexl3_init = \<lparr>connections = replicate FLEXL3_MAX_CONNECTIONS l3_conn0,
     next_circuit_index = 1, next_circuit_id = 1\<rparr>"

section \<open>Frame parser\<close>

definition flexl3_is_connection_frame :: "byte list \<Rightarrow> bool" where
  "flexl3_is_connection_frame data =
     (if int (length data) < FLEXL3_MIN_LEN then False
      else if data ! 0 < 0x60 then False
      else True)"

text \<open>
  Returns 0 or -1 and the header, which is left as it was when the frame is too short and
  is partly filled when the opcode or the length for a CREQ is wrong.
\<close>

definition flexl3_parse :: "byte list \<Rightarrow> l3_header \<Rightarrow> int \<times> l3_header" where
  "flexl3_parse data hdr =
     (let len = int (length data) in
      if len < FLEXL3_MIN_LEN then (-1, hdr)
      else
        let h = l3_header0\<lparr>h_source := take 7 data, h_dest := take 7 (drop 7 data),
                  h_ttl := uint (data ! 14), h_circuit_index := uint (data ! 15),
                  h_circuit_id := uint (data ! 16), h_tx_seq := uint (data ! 17),
                  h_rx_seq := uint (data ! 18), h_opcode := uint (data ! 19 AND 0x0F)\<rparr>
        in if h_opcode h < FLEXL3_CREQ \<or> h_opcode h > FLEXL3_IACK then (-1, h)
           else if h_opcode h = FLEXL3_CREQ then
             (if len < FLEXL3_CREQ_LEN then (-1, h)
              else (0, h\<lparr>h_window := uint (data ! 20), h_origin_user := take 7 (drop 21 data),
                         h_origin_node := take 7 (drop 28 data)\<rparr>))
           else if h_opcode h = FLEXL3_CACK then
             (0, if len \<ge> FLEXL3_CACK_LEN then h\<lparr>h_window := uint (data ! 20)\<rparr> else h)
           else if h_opcode h = FLEXL3_INFO then
             (0, if len > FLEXL3_HEADER_LEN
                 then h\<lparr>h_payload := Some (nat FLEXL3_HEADER_LEN),
                        h_payload_len := len - FLEXL3_HEADER_LEN\<rparr> else h)
           else (0, h))"

section \<open>Frame builders\<close>

definition put_byte :: "nat \<Rightarrow> int \<Rightarrow> byte list \<Rightarrow> byte list option" where
  "put_byte i v buf = write_at i [word_of_int v] buf"

definition copy7 :: "nat \<Rightarrow> byte list \<Rightarrow> byte list \<Rightarrow> byte list option" where
  "copy7 off src buf = do { s \<leftarrow> read_at 0 7 src; write_at off s buf }"

definition build_header ::
  "byte list \<Rightarrow> byte list \<Rightarrow> byte list \<Rightarrow> int \<Rightarrow> int \<Rightarrow> int \<Rightarrow> int \<Rightarrow> int \<Rightarrow> int \<Rightarrow> byte list option" where
  "build_header buf dst src ttl ix cid tx_seq rx_seq opcode =
     do { buf \<leftarrow> copy7 0 src buf;
          buf \<leftarrow> copy7 7 dst buf;
          buf \<leftarrow> put_byte 14 ttl buf;
          buf \<leftarrow> put_byte 15 ix buf;
          buf \<leftarrow> put_byte 16 cid buf;
          buf \<leftarrow> put_byte 17 tx_seq buf;
          buf \<leftarrow> put_byte 18 rx_seq buf;
          write_at 19 [word_of_int opcode AND 0x0F] buf }"

text \<open>Every builder returns the frame length, or -1, and the buffer.\<close>

definition flexl3_build_creq ::
  "byte list \<Rightarrow> int \<Rightarrow> byte list \<Rightarrow> byte list \<Rightarrow> int \<Rightarrow> int \<Rightarrow> int \<Rightarrow> int \<Rightarrow> byte list \<Rightarrow> byte list
   \<Rightarrow> (int \<times> byte list) option" where
  "flexl3_build_creq buf buflen dst src ttl ix cid window origin_user origin_node =
     (if buflen < FLEXL3_CREQ_LEN then Some (-1, buf)
      else do { buf \<leftarrow> build_header buf dst src ttl ix cid 0 0 FLEXL3_CREQ;
                buf \<leftarrow> put_byte 20 window buf;
                buf \<leftarrow> copy7 21 origin_user buf;
                buf \<leftarrow> copy7 28 origin_node buf;
                Some (FLEXL3_CREQ_LEN, buf) })"

definition flexl3_build_cack ::
  "byte list \<Rightarrow> int \<Rightarrow> byte list \<Rightarrow> byte list \<Rightarrow> int \<Rightarrow> int \<Rightarrow> int \<Rightarrow> int \<Rightarrow> (int \<times> byte list) option" where
  "flexl3_build_cack buf buflen dst src ttl ix cid window =
     (if buflen < FLEXL3_CACK_LEN then Some (-1, buf)
      else do { buf \<leftarrow> build_header buf dst src ttl ix cid 0 0 FLEXL3_CACK;
                buf \<leftarrow> put_byte 20 window buf;
                Some (FLEXL3_CACK_LEN, buf) })"

definition flexl3_build_info ::
  "byte list \<Rightarrow> int \<Rightarrow> byte list \<Rightarrow> byte list \<Rightarrow> int \<Rightarrow> int \<Rightarrow> int \<Rightarrow> int \<Rightarrow> int \<Rightarrow> byte list \<Rightarrow> int
   \<Rightarrow> (int \<times> byte list) option" where
  "flexl3_build_info buf buflen dst src ttl ix cid tx_seq rx_seq payload payload_len =
     (let total = FLEXL3_HEADER_LEN + payload_len in
      if buflen < total \<or> payload_len > FLEXL3_MAX_DATA then Some (-1, buf)
      else do { buf \<leftarrow> build_header buf dst src ttl ix cid tx_seq rx_seq FLEXL3_INFO;
                buf \<leftarrow> (if payload_len > 0
                        then do { p \<leftarrow> read_at 0 (nat payload_len) payload;
                                  write_at (nat FLEXL3_HEADER_LEN) p buf }
                        else Some buf);
                Some (total, buf) })"

definition flexl3_build_iack ::
  "byte list \<Rightarrow> int \<Rightarrow> byte list \<Rightarrow> byte list \<Rightarrow> int \<Rightarrow> int \<Rightarrow> int \<Rightarrow> int \<Rightarrow> int \<Rightarrow> (int \<times> byte list) option" where
  "flexl3_build_iack buf buflen dst src ttl ix cid tx_seq rx_seq =
     (if buflen < FLEXL3_HEADER_LEN then Some (-1, buf)
      else do { buf \<leftarrow> build_header buf dst src ttl ix cid tx_seq rx_seq FLEXL3_IACK;
                Some (FLEXL3_HEADER_LEN, buf) })"

definition flexl3_build_dreq ::
  "byte list \<Rightarrow> int \<Rightarrow> byte list \<Rightarrow> byte list \<Rightarrow> int \<Rightarrow> int \<Rightarrow> int \<Rightarrow> (int \<times> byte list) option" where
  "flexl3_build_dreq buf buflen dst src ttl ix cid =
     (if buflen < FLEXL3_HEADER_LEN then Some (-1, buf)
      else do { buf \<leftarrow> build_header buf dst src ttl ix cid 0 0 FLEXL3_DREQ;
                Some (FLEXL3_HEADER_LEN, buf) })"

definition flexl3_build_dack ::
  "byte list \<Rightarrow> int \<Rightarrow> byte list \<Rightarrow> byte list \<Rightarrow> int \<Rightarrow> int \<Rightarrow> int \<Rightarrow> (int \<times> byte list) option" where
  "flexl3_build_dack buf buflen dst src ttl ix cid =
     (if buflen < FLEXL3_HEADER_LEN then Some (-1, buf)
      else do { buf \<leftarrow> build_header buf dst src ttl ix cid 0 0 FLEXL3_DACK;
                Some (FLEXL3_HEADER_LEN, buf) })"

section \<open>Connection table\<close>

definition conn_busy :: "l3_conn \<Rightarrow> bool" where
  "conn_busy c \<longleftrightarrow> c_state c \<noteq> L3_IDLE"

definition flexl3_find_by_remote :: "int \<Rightarrow> int \<Rightarrow> l3_table \<Rightarrow> nat option" where
  "flexl3_find_by_remote ix cid t =
     first_idx (\<lambda>c. c_state c \<noteq> L3_IDLE \<and> c_remote_index c = ix \<and> c_remote_id c = cid) (connections t)"

definition flexl3_find_by_local :: "int \<Rightarrow> int \<Rightarrow> l3_table \<Rightarrow> nat option" where
  "flexl3_find_by_local ix cid t =
     first_idx (\<lambda>c. c_state c \<noteq> L3_IDLE \<and> c_local_index c = ix \<and> c_local_id c = cid) (connections t)"

definition l3_free_slot :: "l3_conn list \<Rightarrow> nat option" where
  "l3_free_slot cs = first_idx (\<lambda>c. c_state c = L3_IDLE) cs"

text \<open>\<open>t1\<close> and \<open>t2\<close> are the results of the two calls of \<open>time(NULL)\<close>.\<close>

definition flexl3_alloc :: "int \<Rightarrow> int \<Rightarrow> l3_table \<Rightarrow> nat option \<times> l3_table" where
  "flexl3_alloc t1 t2 t =
     (case l3_free_slot (connections t) of
        None \<Rightarrow> (None, t)
      | Some i \<Rightarrow> (Some i, t\<lparr>connections := (connections t)
                    [i := l3_conn0\<lparr>c_created := t1, c_last_activity := t2\<rparr>]\<rparr>))"

definition flexl3_free :: "nat option \<Rightarrow> l3_table \<Rightarrow> l3_table" where
  "flexl3_free conn t =
     (case conn of
        None \<Rightarrow> t
      | Some i \<Rightarrow> t\<lparr>connections := (connections t)
                    [i := (connections t ! i)\<lparr>c_state := L3_IDLE, c_app_context := None\<rparr>]\<rparr>)"

text \<open>C's \<open>%\<close> truncates towards zero; the counters are positive, where it is \<open>mod\<close>.\<close>

definition flexl3_next_index :: "l3_table \<Rightarrow> int \<times> l3_table" where
  "flexl3_next_index t =
     (next_circuit_index t, t\<lparr>next_circuit_index := (next_circuit_index t mod 255) + 1\<rparr>)"

definition flexl3_next_id :: "l3_table \<Rightarrow> int \<times> l3_table" where
  "flexl3_next_id t =
     (next_circuit_id t, t\<lparr>next_circuit_id := (next_circuit_id t mod 255) + 1\<rparr>)"

definition flexl3_count_active :: "l3_table \<Rightarrow> nat" where
  "flexl3_count_active t = busy_count conn_busy (connections t)"

definition flexl3_get_slot :: "int \<Rightarrow> nat option" where
  "flexl3_get_slot i = (if i < 0 \<or> i \<ge> int FLEXL3_MAX_CONNECTIONS then None else Some (nat i))"

definition flexl3_opcode_name :: "int \<Rightarrow> string" where
  "flexl3_opcode_name opcode =
     (if opcode = FLEXL3_CREQ then ''CREQ''
      else if opcode = FLEXL3_CACK then ''CACK''
      else if opcode = FLEXL3_DREQ then ''DREQ''
      else if opcode = FLEXL3_DACK then ''DACK''
      else if opcode = FLEXL3_INFO then ''INFO''
      else if opcode = FLEXL3_IACK then ''IACK''
      else ''???'')"


section \<open>What the builders write\<close>

definition l3_header_bytes ::
  "byte list \<Rightarrow> byte list \<Rightarrow> int \<Rightarrow> int \<Rightarrow> int \<Rightarrow> int \<Rightarrow> int \<Rightarrow> int \<Rightarrow> byte list" where
  "l3_header_bytes dst src ttl ix cid tx rx opcode =
     src @ dst @ [word_of_int ttl, word_of_int ix, word_of_int cid, word_of_int tx,
                  word_of_int rx, word_of_int opcode AND 0x0F]"

lemma length_l3_header_bytes:
  "length src = 7 \<Longrightarrow> length dst = 7 \<Longrightarrow> length (l3_header_bytes dst src ttl ix cid tx rx opcode) = 20"
  by (simp add: l3_header_bytes_def)

lemma list7E:
  assumes "length xs = 7"
  obtains a b c d e f g where "xs = [a, b, c, d, e, f, g]"
  using assms by (auto simp: length_Suc_conv eval_nat_numeral)

lemma write_at_app:
  "length pre = off \<Longrightarrow> length xs \<le> length rest \<Longrightarrow>
     write_at off xs (pre @ rest) = Some ((pre @ xs) @ drop (length xs) rest)"
  by (auto simp: write_at_def)

lemma copy7_app:
  "length pre = off \<Longrightarrow> length src = 7 \<Longrightarrow> 7 \<le> length rest \<Longrightarrow>
     copy7 off src (pre @ rest) = Some ((pre @ src) @ drop 7 rest)"
  by (simp add: copy7_def read_at_def write_at_app)

lemma put_byte_app:
  "length pre = off \<Longrightarrow> 1 \<le> length rest \<Longrightarrow>
     put_byte off v (pre @ rest) = Some ((pre @ [word_of_int v]) @ drop 1 rest)"
  by (simp add: put_byte_def write_at_app)

lemma build_header_spec:
  assumes "length src = 7" "length dst = 7" "20 \<le> length buf"
  shows "build_header buf dst src ttl ix cid tx rx opcode =
           Some (l3_header_bytes dst src ttl ix cid tx rx opcode @ drop 20 buf)"
proof -
  let ?b = "\<lambda>k. drop k buf"
  have 1: "copy7 0 src buf = Some (src @ ?b 7)"
    using copy7_app [of "[]" 0 src buf] assms by simp
  have 2: "copy7 7 dst (src @ ?b 7) = Some ((src @ dst) @ ?b 14)"
    using copy7_app [of src 7 dst "?b 7"] assms by simp
  have put: "put_byte k v (pre @ ?b k) = Some ((pre @ [word_of_int v]) @ ?b (Suc k))"
    if "length pre = k" "k < 20" for pre k v
    using put_byte_app [of pre k "?b k" v] that assms(3) by simp
  have last: "write_at 19 [x] (pre @ ?b 19) = Some ((pre @ [x]) @ ?b 20)"
    if "length pre = 19" for pre x
    using write_at_app [of pre 19 "[x]" "?b 19"] that assms(3) by simp
  have num: "Suc 14 = 15" "Suc 15 = 16" "Suc 16 = 17" "Suc 17 = 18" "Suc 18 = 19" by simp_all
  show ?thesis
    unfolding build_header_def 1 2 bind.bind_lunit
    by (simp only: put last num length_append list.size assms bind.bind_lunit
          l3_header_bytes_def) (simp add: assms)
qed

definition addr_ok :: "byte list \<Rightarrow> bool" where
  "addr_ok a \<longleftrightarrow> length a = 7"

lemma build_creq_spec:
  assumes "addr_ok src" "addr_ok dst" "addr_ok usr" "addr_ok node"
    and "35 \<le> buflen" "buflen \<le> int (length buf)"
  shows "flexl3_build_creq buf buflen dst src ttl ix cid w usr node =
    Some (35, l3_header_bytes dst src ttl ix cid 0 0 FLEXL3_CREQ @ word_of_int w # usr @ node @ drop 35 buf)"
proof -
  let ?H = "l3_header_bytes dst src ttl ix cid 0 0 FLEXL3_CREQ"
  have H: "length ?H = 20" using assms by (simp add: length_l3_header_bytes addr_ok_def)
  have b: "35 \<le> length buf" using assms by simp
  have w: "put_byte 20 w (?H @ drop 20 buf) = Some ((?H @ [word_of_int w]) @ drop 21 buf)"
    using put_byte_app [OF H, of "drop 20 buf" w] b by simp
  have u: "copy7 21 usr ((?H @ [word_of_int w]) @ drop 21 buf) =
      Some (((?H @ [word_of_int w]) @ usr) @ drop 28 buf)"
    using copy7_app [of "?H @ [word_of_int w]" 21 usr "drop 21 buf"] H b assms
    by (simp add: addr_ok_def)
  have n: "copy7 28 node (((?H @ [word_of_int w]) @ usr) @ drop 28 buf) =
      Some ((((?H @ [word_of_int w]) @ usr) @ node) @ drop 35 buf)"
    using copy7_app [of "(?H @ [word_of_int w]) @ usr" 28 node "drop 28 buf"] H b assms
    by (simp add: addr_ok_def)
  show ?thesis
    using assms b by (simp add: flexl3_build_creq_def l3_len_defs build_header_spec addr_ok_def w u n
        del: append_assoc)
qed

lemma build_cack_spec:
  assumes "addr_ok src" "addr_ok dst" "21 \<le> buflen" "buflen \<le> int (length buf)"
  shows "flexl3_build_cack buf buflen dst src ttl ix cid w =
    Some (21, l3_header_bytes dst src ttl ix cid 0 0 FLEXL3_CACK @ word_of_int w # drop 21 buf)"
proof -
  let ?H = "l3_header_bytes dst src ttl ix cid 0 0 FLEXL3_CACK"
  have H: "length ?H = 20" using assms by (simp add: length_l3_header_bytes addr_ok_def)
  have w: "put_byte 20 w (?H @ drop 20 buf) = Some ((?H @ [word_of_int w]) @ drop 21 buf)"
    using put_byte_app [OF H, of "drop 20 buf" w] assms by simp
  show ?thesis
    using assms by (simp add: flexl3_build_cack_def l3_len_defs build_header_spec addr_ok_def w)
qed

lemma build_info_spec:
  assumes "addr_ok src" "addr_ok dst" "length payload \<le> 236"
    and "20 + int (length payload) \<le> buflen" "buflen \<le> int (length buf)"
  shows "flexl3_build_info buf buflen dst src ttl ix cid tx rx payload (int (length payload)) =
    Some (20 + int (length payload),
      l3_header_bytes dst src ttl ix cid tx rx FLEXL3_INFO @ payload @ drop (20 + length payload) buf)"
proof -
  let ?H = "l3_header_bytes dst src ttl ix cid tx rx FLEXL3_INFO"
  have H: "length ?H = 20" using assms by (simp add: length_l3_header_bytes addr_ok_def)
  have w: "write_at 20 payload (?H @ drop 20 buf) =
      Some (?H @ payload @ drop (20 + length payload) buf)"
    using write_at_app [OF H, of payload "drop 20 buf"] assms by (simp add: add.commute)
  have r: "read_at 0 (length payload) payload = Some payload"
    by (simp add: read_at_def)
  have h: "build_header buf dst src ttl ix cid tx rx FLEXL3_INFO = Some (?H @ drop 20 buf)"
    by (rule build_header_spec) (use assms in \<open>simp_all add: addr_ok_def\<close>)
  show ?thesis
    using assms by (simp add: flexl3_build_info_def l3_len_defs h w r)
qed

lemma build_short_specs:
  assumes "addr_ok src" "addr_ok dst" "20 \<le> buflen" "buflen \<le> int (length buf)"
  shows "flexl3_build_iack buf buflen dst src ttl ix cid tx rx =
      Some (20, l3_header_bytes dst src ttl ix cid tx rx FLEXL3_IACK @ drop 20 buf)"
    and "flexl3_build_dreq buf buflen dst src ttl ix cid =
      Some (20, l3_header_bytes dst src ttl ix cid 0 0 FLEXL3_DREQ @ drop 20 buf)"
    and "flexl3_build_dack buf buflen dst src ttl ix cid =
      Some (20, l3_header_bytes dst src ttl ix cid 0 0 FLEXL3_DACK @ drop 20 buf)"
  using assms
  by (simp_all add: flexl3_build_iack_def flexl3_build_dreq_def flexl3_build_dack_def l3_len_defs
      build_header_spec addr_ok_def)

lemmas build_specs = build_creq_spec build_cack_spec build_info_spec build_short_specs

section \<open>What the parser reads\<close>

lemma l3_header_bytes_fields:
  assumes "addr_ok src" "addr_ok dst"
  shows "take 7 (l3_header_bytes dst src ttl ix cid tx rx op @ rest) = src"
    and "take 7 (drop 7 (l3_header_bytes dst src ttl ix cid tx rx op @ rest)) = dst"
    and "(l3_header_bytes dst src ttl ix cid tx rx op @ rest) ! 14 = word_of_int ttl"
    and "(l3_header_bytes dst src ttl ix cid tx rx op @ rest) ! 15 = word_of_int ix"
    and "(l3_header_bytes dst src ttl ix cid tx rx op @ rest) ! 16 = word_of_int cid"
    and "(l3_header_bytes dst src ttl ix cid tx rx op @ rest) ! 17 = word_of_int tx"
    and "(l3_header_bytes dst src ttl ix cid tx rx op @ rest) ! 18 = word_of_int rx"
    and "(l3_header_bytes dst src ttl ix cid tx rx op @ rest) ! 19 = word_of_int op AND 0x0F"
    and "drop 20 (l3_header_bytes dst src ttl ix cid tx rx op @ rest) = rest"
proof -
  obtain a b c d e f g where s: "src = [a, b, c, d, e, f, g]"
    using list7E assms(1) unfolding addr_ok_def by blast
  obtain a' b' c' d' e' f' g' where d: "dst = [a', b', c', d', e', f', g']"
    using list7E assms(2) unfolding addr_ok_def by blast
  show "take 7 (l3_header_bytes dst src ttl ix cid tx rx op @ rest) = src"
    and "take 7 (drop 7 (l3_header_bytes dst src ttl ix cid tx rx op @ rest)) = dst"
    and "(l3_header_bytes dst src ttl ix cid tx rx op @ rest) ! 14 = word_of_int ttl"
    and "(l3_header_bytes dst src ttl ix cid tx rx op @ rest) ! 15 = word_of_int ix"
    and "(l3_header_bytes dst src ttl ix cid tx rx op @ rest) ! 16 = word_of_int cid"
    and "(l3_header_bytes dst src ttl ix cid tx rx op @ rest) ! 17 = word_of_int tx"
    and "(l3_header_bytes dst src ttl ix cid tx rx op @ rest) ! 18 = word_of_int rx"
    and "(l3_header_bytes dst src ttl ix cid tx rx op @ rest) ! 19 = word_of_int op AND 0x0F"
    and "drop 20 (l3_header_bytes dst src ttl ix cid tx rx op @ rest) = rest"
    by (simp_all add: l3_header_bytes_def s d)
qed

definition l3_parsed_header ::
  "byte list \<Rightarrow> byte list \<Rightarrow> int \<Rightarrow> int \<Rightarrow> int \<Rightarrow> int \<Rightarrow> int \<Rightarrow> int \<Rightarrow> l3_header" where
  "l3_parsed_header dst src ttl ix cid tx rx op =
     l3_header0\<lparr>h_source := src, h_dest := dst, h_ttl := ttl mod 256, h_circuit_index := ix mod 256,
       h_circuit_id := cid mod 256, h_tx_seq := tx mod 256, h_rx_seq := rx mod 256,
       h_opcode := op\<rparr>"

lemma parse_header_bytes:
  assumes "addr_ok src" "addr_ok dst" "op \<in> {1, 2, 3, 4, 5, 6}"
  shows "flexl3_parse (l3_header_bytes dst src ttl ix cid tx rx op @ rest) hdr =
    (let len = 20 + int (length rest); h = l3_parsed_header dst src ttl ix cid tx rx op in
     if op = FLEXL3_CREQ then
       (if len < 35 then (-1, h)
        else (0, h\<lparr>h_window := uint (rest ! 0), h_origin_user := take 7 (drop 1 rest),
                  h_origin_node := take 7 (drop 8 rest)\<rparr>))
     else if op = FLEXL3_CACK then (0, if len \<ge> 21 then h\<lparr>h_window := uint (rest ! 0)\<rparr> else h)
     else if op = FLEXL3_INFO then
       (0, if len > 20 then h\<lparr>h_payload := Some 20, h_payload_len := len - 20\<rparr> else h)
     else (0, h))"
proof -
  let ?H = "l3_header_bytes dst src ttl ix cid tx rx op"
  have len: "length ?H = 20" using assms by (simp add: addr_ok_def length_l3_header_bytes)
  have op: "uint ((word_of_int op AND 0x0F) AND 0x0F :: byte) = op" using assms(3) by auto
  have rest: "(?H @ rest) ! 20 = rest ! 0" "drop 21 (?H @ rest) = drop 1 rest"
    "drop 28 (?H @ rest) = drop 8 rest"
    by (simp_all add: nth_append len)
  have u: "uint (word_of_int v :: byte) = v mod 256" for v
    by (simp add: uint_word_of_int)
  have h: "l3_header0\<lparr>h_source := take 7 (?H @ rest), h_dest := take 7 (drop 7 (?H @ rest)),
      h_ttl := uint ((?H @ rest) ! 14), h_circuit_index := uint ((?H @ rest) ! 15),
      h_circuit_id := uint ((?H @ rest) ! 16), h_tx_seq := uint ((?H @ rest) ! 17),
      h_rx_seq := uint ((?H @ rest) ! 18), h_opcode := uint ((?H @ rest) ! 19 AND 0x0F)\<rparr> =
      l3_parsed_header dst src ttl ix cid tx rx op"
    by (simp only: l3_header_bytes_fields [OF assms(1,2)] op u l3_parsed_header_def)
  have L: "int (length (?H @ rest)) = 20 + int (length rest)" by (simp add: len)
  have oph: "h_opcode (l3_parsed_header dst src ttl ix cid tx rx op) = op"
    by (simp add: l3_parsed_header_def)
  have r: "\<not> (op < FLEXL3_CREQ \<or> op > FLEXL3_IACK)" using assms(3) by (auto simp: l3_opcode_defs)
  show ?thesis
    unfolding flexl3_parse_def Let_def h L oph rest
    using r by (simp add: l3_len_defs)
qed

section \<open>Builders and parser agree\<close>

text \<open>The abstract frame: what a caller passes to a builder, and what a reader takes from the header.\<close>

datatype l3_body =
    Creq int "byte list" "byte list"
  | Cack int
  | Dreq
  | Dack
  | Info int int "byte list"
  | Iack int int

datatype l3_frame = L3Frame (f_dst: "byte list") (f_src: "byte list")
  (f_ttl: int) (f_index: int) (f_id: int) (f_body: l3_body)

definition byte_range :: "int \<Rightarrow> bool" where
  "byte_range v \<longleftrightarrow> 0 \<le> v \<and> v < 256"

fun body_good :: "l3_body \<Rightarrow> bool" where
  "body_good (Creq w u n) = (byte_range w \<and> addr_ok u \<and> addr_ok n)"
| "body_good (Cack w) = byte_range w"
| "body_good Dreq = True"
| "body_good Dack = True"
| "body_good (Info s r p) = (byte_range s \<and> byte_range r \<and> length p \<le> 236)"
| "body_good (Iack s r) = (byte_range s \<and> byte_range r)"

fun l3_good :: "l3_frame \<Rightarrow> bool" where
  "l3_good (L3Frame dst src ttl ix cid b) =
     (addr_ok dst \<and> addr_ok src \<and> byte_range ttl \<and> byte_range ix \<and> byte_range cid \<and> body_good b)"

fun l3_build :: "l3_frame \<Rightarrow> byte list \<Rightarrow> int \<Rightarrow> (int \<times> byte list) option" where
  "l3_build (L3Frame dst src ttl ix cid (Creq w u n)) buf bl =
     flexl3_build_creq buf bl dst src ttl ix cid w u n"
| "l3_build (L3Frame dst src ttl ix cid (Cack w)) buf bl =
     flexl3_build_cack buf bl dst src ttl ix cid w"
| "l3_build (L3Frame dst src ttl ix cid Dreq) buf bl = flexl3_build_dreq buf bl dst src ttl ix cid"
| "l3_build (L3Frame dst src ttl ix cid Dack) buf bl = flexl3_build_dack buf bl dst src ttl ix cid"
| "l3_build (L3Frame dst src ttl ix cid (Info s r p)) buf bl =
     flexl3_build_info buf bl dst src ttl ix cid s r p (int (length p))"
| "l3_build (L3Frame dst src ttl ix cid (Iack s r)) buf bl =
     flexl3_build_iack buf bl dst src ttl ix cid s r"

fun l3_frame_len :: "l3_body \<Rightarrow> nat" where
  "l3_frame_len (Creq w u n) = 35"
| "l3_frame_len (Cack w) = 21"
| "l3_frame_len (Info s r p) = 20 + length p"
| "l3_frame_len _ = 20"

text \<open>A frame as the callers send it: built into a buffer of \<open>FLEXL3_MAX_FRAME\<close> bytes.\<close>

definition l3_encode :: "l3_frame \<Rightarrow> byte list option" where
  "l3_encode f =
     (case l3_build f (replicate 256 0) 256 of
        None \<Rightarrow> None
      | Some (n, buf) \<Rightarrow> if n < 0 then None else Some (take (nat n) buf))"

definition l3_payload :: "byte list \<Rightarrow> l3_header \<Rightarrow> byte list" where
  "l3_payload data h =
     (case h_payload h of None \<Rightarrow> [] | Some off \<Rightarrow> take (nat (h_payload_len h)) (drop off data))"

definition l3_decode :: "byte list \<Rightarrow> l3_frame option" where
  "l3_decode data =
     (case flexl3_parse data l3_header0 of (r, h) \<Rightarrow>
        if r \<noteq> 0 then None
        else Some (L3Frame (h_dest h) (h_source h) (h_ttl h) (h_circuit_index h) (h_circuit_id h)
          (if h_opcode h = FLEXL3_CREQ then Creq (h_window h) (h_origin_user h) (h_origin_node h)
           else if h_opcode h = FLEXL3_CACK then Cack (h_window h)
           else if h_opcode h = FLEXL3_DREQ then Dreq
           else if h_opcode h = FLEXL3_DACK then Dack
           else if h_opcode h = FLEXL3_INFO then Info (h_tx_seq h) (h_rx_seq h) (l3_payload data h)
           else Iack (h_tx_seq h) (h_rx_seq h))))"

lemma l3_build_good:
  assumes "l3_good f" "length buf = nat bl" "int (l3_frame_len (f_body f)) \<le> bl"
  shows "\<exists>bs. l3_build f buf bl = Some (int (l3_frame_len (f_body f)),
                bs @ drop (l3_frame_len (f_body f)) buf) \<and> length bs = l3_frame_len (f_body f)"
proof -
  obtain dst src ttl ix cid b where f: "f = L3Frame dst src ttl ix cid b" by (cases f)
  have a: "addr_ok src" "addr_ok dst" using assms(1) f by auto
  note L = length_l3_header_bytes [OF a(1) [unfolded addr_ok_def] a(2) [unfolded addr_ok_def]]
  show ?thesis
    using assms a unfolding f
    by (cases b) (auto simp: build_specs L addr_ok_def)
qed

lemma l3_decode_header:
  assumes "addr_ok src" "addr_ok dst" "op \<in> {1, 2, 3, 4, 5, 6}"
    and "byte_range ttl" "byte_range ix" "byte_range cid" "byte_range tx" "byte_range rx"
  shows "l3_decode (l3_header_bytes dst src ttl ix cid tx rx op @ rest) =
    (if op = FLEXL3_CREQ \<and> length rest < 15 then None
     else Some (L3Frame dst src ttl ix cid
       (if op = FLEXL3_CREQ then Creq (uint (rest ! 0)) (take 7 (drop 1 rest)) (take 7 (drop 8 rest))
        else if op = FLEXL3_CACK then Cack (if rest = [] then 0 else uint (rest ! 0))
        else if op = FLEXL3_DREQ then Dreq
        else if op = FLEXL3_DACK then Dack
        else if op = FLEXL3_INFO then Info tx rx rest
        else Iack tx rx)))"
proof -
  have r: "length (l3_header_bytes dst src ttl ix cid tx rx op') = 20" for op'
    using assms by (simp add: addr_ok_def length_l3_header_bytes)
  have m: "ttl mod 256 = ttl" "ix mod 256 = ix" "cid mod 256 = cid" "tx mod 256 = tx" "rx mod 256 = rx"
    using assms by (auto simp: byte_range_def)
  have n: "(20 + int (length rest) < 35) = (length rest < 15)"
    "(21 \<le> 20 + int (length rest)) = (rest \<noteq> [])" "(20 < 20 + int (length rest)) = (rest \<noteq> [])"
    by (auto simp: Suc_le_eq length_greater_0_conv)
  show ?thesis
    using assms(3)
    by (simp add: l3_decode_def parse_header_bytes [OF assms(1-3)] Let_def n m l3_parsed_header_def
        l3_header0_def l3_opcode_defs l3_payload_def r)
qed

lemma l3_encode_bytes:
  assumes "l3_good (L3Frame dst src ttl ix cid b)"
  shows "l3_encode (L3Frame dst src ttl ix cid b) = Some
    (case b of
       Creq w u n \<Rightarrow> l3_header_bytes dst src ttl ix cid 0 0 1 @ word_of_int w # u @ n
     | Cack w \<Rightarrow> l3_header_bytes dst src ttl ix cid 0 0 2 @ [word_of_int w]
     | Dreq \<Rightarrow> l3_header_bytes dst src ttl ix cid 0 0 3 @ []
     | Dack \<Rightarrow> l3_header_bytes dst src ttl ix cid 0 0 4 @ []
     | Info s r p \<Rightarrow> l3_header_bytes dst src ttl ix cid s r 5 @ p
     | Iack s r \<Rightarrow> l3_header_bytes dst src ttl ix cid s r 6 @ [])"
proof -
  have a: "addr_ok src" "addr_ok dst" using assms by auto
  note L = length_l3_header_bytes [OF a(1) [unfolded addr_ok_def] a(2) [unfolded addr_ok_def]]
  show ?thesis
    using assms a
    by (cases b) (simp_all add: l3_encode_def build_specs L addr_ok_def l3_opcode_defs nat_add_distrib)
qed

lemma l3_roundtrip_aux:
  assumes "l3_good f" "l3_encode f = Some bs"
  shows "l3_decode bs = Some f"
proof -
  obtain dst src ttl ix cid b where f: "f = L3Frame dst src ttl ix cid b" by (cases f)
  have g: "addr_ok src" "addr_ok dst" "byte_range ttl" "byte_range ix" "byte_range cid" "body_good b"
    using assms(1) f by auto
  have z: "byte_range 0" by (simp add: byte_range_def)
  have u: "uint (word_of_int w :: byte) = w" if "byte_range w" for w
    using that by (simp add: byte_range_def uint_word_of_int)
  note e = l3_encode_bytes [OF assms(1) [unfolded f]]
  have len: "length x = 7" if "addr_ok x" for x using that by (simp add: addr_ok_def)
  show ?thesis
    using assms(2) g z unfolding f e
    by (cases b) (auto simp: l3_decode_header l3_decode_header [where rest = "[]", simplified] u len l3_opcode_defs)
qed

interpretation l3_codec: frame_codec l3_good l3_encode l3_decode
proof
  fix f bs
  assume g: "l3_good f"
  show "l3_encode f \<noteq> None"
    using g by (cases f) (simp add: l3_encode_bytes)
  show "l3_decode bs = Some f" if "l3_encode f = Some bs"
    using g that by (rule l3_roundtrip_aux)
qed

text \<open>C9: parsing undoes building. For every frame the module can describe (7-byte addresses,
  one-byte fields, payload at most 236 bytes), the builder of its type succeeds on a 256-byte
  buffer and flexl3_parse returns exactly the fields that were put in, payload included.\<close>

theorem l3_build_parse_roundtrip:
  assumes "l3_good f"
  shows "\<exists>bs. l3_encode f = Some bs \<and> l3_decode bs = Some f \<and> length bs = l3_frame_len (f_body f)"
proof -
  obtain bs where e: "l3_encode f = Some bs" using l3_codec.encodes [OF assms] by blast
  have "length bs = l3_frame_len (f_body f)"
    using assms e by (cases f; cases "f_body f")
      (auto simp: l3_encode_bytes length_l3_header_bytes addr_ok_def)
  with e l3_codec.decodes [OF assms e] show ?thesis by blast
qed

theorem l3_build_parse_roundtrip_witness:
  "\<exists>bs. l3_encode (L3Frame (replicate 7 0x92) (replicate 7 0xAE) 20 3 7 (Info 1 2 [0x48, 0x69])) = Some bs \<and>
     l3_decode bs = Some (L3Frame (replicate 7 0x92) (replicate 7 0xAE) 20 3 7 (Info 1 2 [0x48, 0x69])) \<and>
     length bs = 22"
  using l3_build_parse_roundtrip
    [of "L3Frame (replicate 7 0x92) (replicate 7 0xAE) 20 3 7 (Info 1 2 [0x48, 0x69])"]
  by (simp add: addr_ok_def byte_range_def)

text \<open>the builders never write outside the caller's buffer. For 7-byte addresses and any
  field values, a builder either returns -1 with the buffer untouched, or returns the length of the
  frame, which fits the buffer, and leaves every byte after the frame as it was.\<close>

theorem l3_builders_stay_in_buffer:
  assumes "addr_ok dst" "addr_ok src" "bl = int (length buf)"
    and "\<And>w u n. b = Creq w u n \<Longrightarrow> addr_ok u \<and> addr_ok n"
  shows "\<exists>n buf'. l3_build (L3Frame dst src ttl ix cid b) buf bl = Some (n, buf') \<and>
           length buf' = length buf \<and>
           (n = -1 \<and> buf' = buf \<or>
            n = int (l3_frame_len b) \<and> n \<le> bl \<and> drop (nat n) buf' = drop (nat n) buf)"
proof -
  note L = length_l3_header_bytes [OF assms(2,1) [unfolded addr_ok_def]]
  show ?thesis
  proof (cases "bl < int (l3_frame_len b)")
    case True
    then show ?thesis
      by (cases b) (simp_all add: l3_len_defs flexl3_build_creq_def flexl3_build_cack_def
          flexl3_build_dreq_def flexl3_build_dack_def flexl3_build_info_def flexl3_build_iack_def)
  next
    case False
    show ?thesis
    proof (cases "\<exists>s r p. b = Info s r p \<and> length p > 236")
      case True
      then show ?thesis by (auto simp: flexl3_build_info_def l3_len_defs)
    next
      case small: False
      have p: "length p \<le> 236" if "b = Info s r p" for s r p
        using small that by (metis not_le_imp_less)
      with False show ?thesis
        using assms L by (cases b) (auto simp: build_specs addr_ok_def nat_add_distrib)
    qed
  qed
qed

theorem l3_builders_stay_in_buffer_witness:
  "\<exists>n buf'. l3_build (L3Frame (replicate 7 1) (replicate 7 2) 20 3 7 Dreq) (replicate 10 9) 10 = Some (n, buf') \<and>
     length buf' = length (replicate 10 (9::byte)) \<and>
     (n = -1 \<and> buf' = replicate 10 9 \<or>
      n = int (l3_frame_len Dreq) \<and> n \<le> 10 \<and> drop (nat n) buf' = drop (nat n) (replicate 10 9))"
  using l3_builders_stay_in_buffer [of "replicate 7 1" "replicate 7 2" 10 "replicate 10 9" Dreq 20 3 7]
  by (simp add: addr_ok_def)

text \<open>The check of flexl3_build_info is on \<open>20 + payload_len\<close> alone, so a negative
  \<open>payload_len\<close> lets the 20 header bytes run past a shorter buffer.\<close>

lemma build_info_negative_length_overflows:
  "flexl3_build_info (replicate 15 0) 15 (replicate 7 1) (replicate 7 2) 20 0 0 0 0 [] (-5) = None"
  by code_simp

section \<open>The connection table\<close>

interpretation conn_slots: slot_table conn_busy l3_free_slot
proof
  show "i < length t \<and> \<not> conn_busy (t ! i)" if "l3_free_slot t = Some i" for t i
    using that by (auto simp: l3_free_slot_def conn_busy_def dest: first_idx_SomeD)
  show "\<forall>s \<in> set t. conn_busy s" if "l3_free_slot t = None" for t
    using that by (simp add: l3_free_slot_def conn_busy_def first_idx_None_iff)
qed

definition l3_table_ok :: "l3_table \<Rightarrow> bool" where
  "l3_table_ok t \<longleftrightarrow> length (connections t) = FLEXL3_MAX_CONNECTIONS \<and>
     next_circuit_index t \<in> {1..255} \<and> next_circuit_id t \<in> {1..255}"

lemma l3_table_ok_init: "l3_table_ok flexl3_init"
  by (simp add: l3_table_ok_def flexl3_init_def)

lemma l3_table_ok_ops:
  assumes "l3_table_ok t"
  shows "l3_table_ok (snd (flexl3_alloc t1 t2 t))" "l3_table_ok (flexl3_free c t)"
    "l3_table_ok (snd (flexl3_next_index t))" "l3_table_ok (snd (flexl3_next_id t))"
  using assms
  by (auto simp: l3_table_ok_def flexl3_alloc_def flexl3_free_def flexl3_next_index_def
      flexl3_next_id_def split: option.splits)

text \<open>allocation finds a free connection exactly when fewer than 16 are in use, the entry is
  returned zeroed and idle, and it is only taken once its state is set: marking it busy raises
  flexl3_count_active by one, and until then the next call returns the same entry.\<close>

theorem l3_alloc_correct:
  assumes "l3_table_ok t"
  shows "case flexl3_alloc t1 t2 t of
      (None, t') \<Rightarrow> t' = t \<and> flexl3_count_active t = 16
    | (Some i, t') \<Rightarrow> flexl3_count_active t < 16 \<and> i < 16 \<and>
        connections t' ! i = l3_conn0\<lparr>c_created := t1, c_last_activity := t2\<rparr> \<and>
        fst (flexl3_alloc t3 t4 t') = Some i \<and>
        (\<forall>c. conn_busy c \<longrightarrow> flexl3_count_active (t'\<lparr>connections := (connections t')[i := c]\<rparr>) =
               flexl3_count_active t + 1)"
proof (cases "l3_free_slot (connections t)")
  case None
  then show ?thesis
    using assms conn_slots.alloc_fails_iff [of "connections t"]
    by (simp add: flexl3_alloc_def flexl3_count_active_def l3_table_ok_def FLEXL3_MAX_CONNECTIONS_def)
next
  case (Some i)
  let ?c0 = "l3_conn0\<lparr>c_created := t1, c_last_activity := t2\<rparr>"
  have i: "i < 16" "length (connections t) = 16"
    using conn_slots.alloc_Some [OF Some] assms
    by (auto simp: l3_table_ok_def FLEXL3_MAX_CONNECTIONS_def)
  have "busy_count conn_busy (connections t) \<noteq> length (connections t)"
    using Some conn_slots.alloc_fails_iff [of "connections t"] by auto
  then have lt: "flexl3_count_active t < 16"
    using busy_count_le [of conn_busy "connections t"] i by (simp add: flexl3_count_active_def)
  have again: "l3_free_slot ((connections t)[i := ?c0]) = Some i"
    using Some i unfolding l3_free_slot_def
    by (intro first_idx_eqI) (auto simp: l3_conn0_def dest: first_idx_SomeD)
  show ?thesis
    using i lt again conn_slots.claim_counts [OF Some]
    by (simp add: flexl3_alloc_def Some flexl3_count_active_def)
qed

theorem l3_alloc_correct_witness:
  "case flexl3_alloc 5 5 flexl3_init of
      (None, t') \<Rightarrow> t' = flexl3_init \<and> flexl3_count_active flexl3_init = 16
    | (Some i, t') \<Rightarrow> flexl3_count_active flexl3_init < 16 \<and> i < 16 \<and>
        connections t' ! i = l3_conn0\<lparr>c_created := 5, c_last_activity := 5\<rparr> \<and>
        fst (flexl3_alloc 6 6 t') = Some i \<and>
        (\<forall>c. conn_busy c \<longrightarrow> flexl3_count_active (t'\<lparr>connections := (connections t')[i := c]\<rparr>) =
               flexl3_count_active flexl3_init + 1)"
  by (rule l3_alloc_correct) (simp add: l3_table_ok_init)

section \<open>Circuit numbers\<close>

fun circuit_seq :: "nat \<Rightarrow> l3_table \<Rightarrow> int list" where
  "circuit_seq 0 t = []"
| "circuit_seq (Suc n) t = (case flexl3_next_index t of (i, t') \<Rightarrow> i # circuit_seq n t')"

lemma circuit_seq_nth:
  "next_circuit_index t \<in> {1..255} \<Longrightarrow> k < n \<Longrightarrow>
     circuit_seq n t ! k = (next_circuit_index t - 1 + int k) mod 255 + 1"
proof (induction n arbitrary: t k)
  case 0
  then show ?case by simp
next
  case (Suc n)
  have ix: "(next_circuit_index t mod 255) + 1 \<in> {1..255}"
    using pos_mod_bound [of 255 "next_circuit_index t"] by auto
  show ?case
  proof (cases k)
    case 0
    with Suc.prems show ?thesis by (simp add: flexl3_next_index_def)
  next
    case (Suc m)
    have "circuit_seq n (snd (flexl3_next_index t)) ! m = (next_circuit_index t mod 255 + int m) mod 255 + 1"
      using Suc.IH [of "snd (flexl3_next_index t)" m] Suc.prems Suc ix by (simp add: flexl3_next_index_def)
    then show ?thesis
      using Suc by (simp add: flexl3_next_index_def mod_simps algebra_simps)
  qed
qed

lemma length_circuit_seq [simp]: "length (circuit_seq n t) = n"
  by (induction n arbitrary: t) (auto simp: flexl3_next_index_def)

text \<open>Circuit numbers stay in 1..255 and do not repeat within 255 consecutive calls of
  flexl3_next_index: a number is handed out again only after all the others.\<close>

theorem circuit_numbers_unique:
  assumes "l3_table_ok t" "n \<le> 255"
  shows "distinct (circuit_seq n t) \<and> set (circuit_seq n t) \<subseteq> {1..255}"
proof
  have ok: "next_circuit_index t \<in> {1..255}" using assms(1) by (simp add: l3_table_ok_def)
  let ?a = "next_circuit_index t - 1"
  show "distinct (circuit_seq n t)"
    unfolding distinct_conv_nth
  proof (intro allI impI)
    fix i j assume i: "i < length (circuit_seq n t)" and j: "j < length (circuit_seq n t)" and "i \<noteq> j"
    then have "\<not> 255 dvd int i - int j"
      using assms(2) dvd_imp_le_int [of "int i - int j" 255] by auto
    then have "(?a + int i) mod 255 \<noteq> (?a + int j) mod 255"
      by (simp add: mod_eq_dvd_iff)
    with i j ok show "circuit_seq n t ! i \<noteq> circuit_seq n t ! j" by (simp add: circuit_seq_nth)
  qed
  show "set (circuit_seq n t) \<subseteq> {1..255}"
  proof
    fix x assume "x \<in> set (circuit_seq n t)"
    then obtain k where "k < n" "x = circuit_seq n t ! k" by (auto simp: in_set_conv_nth)
    then show "x \<in> {1..255}"
      using ok circuit_seq_nth [of t k n] pos_mod_bound [of 255 "?a + int k"]
        pos_mod_sign [of 255 "?a + int k"] by auto
  qed
qed

theorem circuit_numbers_unique_witness:
  "distinct (circuit_seq 200 flexl3_init) \<and> set (circuit_seq 200 flexl3_init) \<subseteq> {1..255}"
  by (rule circuit_numbers_unique) (simp_all add: l3_table_ok_init)

end
