(* ===== verification/Flex_LinkOpts.thy ===== *)
theory Flex_LinkOpts
  imports Flex_Interfaces
begin

unbundle bit_operations_syntax

text \<open>
  Per-link decisions of FlexNetCode.c that need no table: the routing options of a link
  (parse, canonical spelling, what they allow and cost), the keepalive echo gap, the session
  reaper, the link-time value put on the wire, and the bookkeeping of session events and of
  frames the parser could not use.
\<close>

section \<open>Constants\<close>

definition FLEXNET_RTT_INFINITY :: int where "FLEXNET_RTT_INFINITY = 60000"
definition FLEXNET_RTT_WIRE_MAX :: int where "FLEXNET_RTT_WIRE_MAX = 4095"
definition FLEXNET_MAX_SESSIONS :: nat where "FLEXNET_MAX_SESSIONS = 8"
definition FLEXNET_LINK_PENALTY :: int where "FLEXNET_LINK_PENALTY = 2000"
definition FLEXNET_KA_ECHO_GAP :: int where "FLEXNET_KA_ECHO_GAP = 60"
definition FLEXNET_REAP_GRACE :: int where "FLEXNET_REAP_GRACE = 5"
definition FLEXNET_WIRE_LT :: int where "FLEXNET_WIRE_LT = 5"
definition FLEX_SESS_EVENTS :: nat where "FLEX_SESS_EVENTS = 4"

definition FLEX_LOPT_NO_NBR :: int where "FLEX_LOPT_NO_NBR = 0x01"
definition FLEX_LOPT_NO_BEHIND :: int where "FLEX_LOPT_NO_BEHIND = 0x02"
definition FLEX_LOPT_OWN_ONLY :: int where "FLEX_LOPT_OWN_ONLY = 0x04"
definition FLEX_LOPT_PENALTY :: int where "FLEX_LOPT_PENALTY = 0x08"
definition FLEX_LOPT_HIDDEN :: int where "FLEX_LOPT_HIDDEN = 0x10"

lemmas lopt_defs = FLEX_LOPT_NO_NBR_def FLEX_LOPT_NO_BEHIND_def FLEX_LOPT_OWN_ONLY_def
  FLEX_LOPT_PENALTY_def FLEX_LOPT_HIDDEN_def
lemmas rtt_defs = FLEXNET_RTT_INFINITY_def FLEXNET_RTT_WIRE_MAX_def FLEXNET_LINK_PENALTY_def

text \<open>\<open>opts & flag\<close> as a condition.\<close>

definition has_opt :: "int \<Rightarrow> int \<Rightarrow> bool" where
  "has_opt opts flag = (opts AND flag \<noteq> 0)"

section \<open>Link options\<close>

fun lopt_char :: "char \<Rightarrow> int option" where
  "lopt_char c =
     (if c = CHR ''-'' then Some FLEX_LOPT_NO_NBR
      else if c = CHR ''!'' then Some FLEX_LOPT_NO_BEHIND
      else if c = CHR ''>'' then Some (FLEX_LOPT_NO_NBR OR FLEX_LOPT_NO_BEHIND)
      else if c = CHR ''='' then Some (FLEX_LOPT_NO_BEHIND OR FLEX_LOPT_OWN_ONLY)
      else if c = CHR ''+'' then Some FLEX_LOPT_PENALTY
      else if c = CHR '')'' then Some FLEX_LOPT_HIDDEN
      else None)"

fun lopt_scan :: "string \<Rightarrow> int \<Rightarrow> int option" where
  "lopt_scan [] opts = Some opts"
| "lopt_scan (c # cs) opts =
     (case lopt_char c of None \<Rightarrow> None | Some b \<Rightarrow> lopt_scan cs (opts OR b))"

text \<open>The suffix may be a NULL pointer. The result is the return value and \<open>*opts_out\<close>.\<close>

definition FlexNet_ParseLinkOpts :: "string option \<Rightarrow> int \<times> int" where
  "FlexNet_ParseLinkOpts suffix =
     (case suffix of
        None \<Rightarrow> (-1, 0)
      | Some s \<Rightarrow> (case lopt_scan s 0 of None \<Rightarrow> (-1, 0) | Some opts \<Rightarrow> (0, opts)))"

definition flex_link_opts_format :: "int \<Rightarrow> nat \<Rightarrow> string option" where
  "flex_link_opts_format opts outlen =
     (let tmp = ''F''
        @ (if has_opt opts FLEX_LOPT_OWN_ONLY
           then (if has_opt opts FLEX_LOPT_NO_NBR then ''-'' else '''') @ ''=''
           else if has_opt opts FLEX_LOPT_NO_NBR \<and> has_opt opts FLEX_LOPT_NO_BEHIND then ''>''
           else if has_opt opts FLEX_LOPT_NO_NBR then ''-''
           else if has_opt opts FLEX_LOPT_NO_BEHIND then ''!''
           else '''')
        @ (if has_opt opts FLEX_LOPT_PENALTY then ''+'' else '''')
        @ (if has_opt opts FLEX_LOPT_HIDDEN then '')'' else '''')
      in if outlen = 0 then None else Some (take (outlen - 1) tmp))"

definition flex_link_opts_source_allows :: "int \<Rightarrow> bool \<Rightarrow> bool" where
  "flex_link_opts_source_allows opts is_neighbour =
     (if is_neighbour then \<not> has_opt opts FLEX_LOPT_NO_NBR
      else \<not> has_opt opts FLEX_LOPT_NO_BEHIND)"

definition flex_link_opts_cost :: "int \<Rightarrow> int \<Rightarrow> int" where
  "flex_link_opts_cost opts rtt =
     (if \<not> has_opt opts FLEX_LOPT_PENALTY then rtt
      else if rtt \<le> 0 \<or> rtt \<ge> FLEXNET_RTT_INFINITY then rtt
      else if rtt \<ge> FLEXNET_RTT_INFINITY - FLEXNET_LINK_PENALTY then FLEXNET_RTT_INFINITY - 1
      else rtt + FLEXNET_LINK_PENALTY)"

section \<open>Keepalive echo\<close>

definition flex_ka_should_echo :: "int \<Rightarrow> bool \<Rightarrow> int \<Rightarrow> int list \<Rightarrow> bool \<times> int list" where
  "flex_ka_should_echo sidx peer_is_pcf now echo_at =
     (if sidx < 0 \<or> sidx \<ge> int FLEXNET_MAX_SESSIONS then (False, echo_at)
      else if \<not> peer_is_pcf \<and> now - echo_at ! nat sidx < FLEXNET_KA_ECHO_GAP then (False, echo_at)
      else (True, echo_at[nat sidx := now]))"

section \<open>Reaper\<close>

text \<open>What FlexNet reads of a BPQ link table entry (\<open>struct _LINKTABLE\<close>).\<close>

record link_view =
  LINKCALL :: "byte list"
  L2STATE :: int

definition flex_l2_connected :: "link_view option \<Rightarrow> bool" where
  "flex_l2_connected L = (case L of None \<Rightarrow> False | Some l \<Rightarrow> L2STATE l \<ge> 5)"

datatype reap = REAP_KEEP | REAP_WAIT | REAP_NOW

definition flex_reap_decide :: "link_view option \<Rightarrow> int \<Rightarrow> int \<Rightarrow> reap \<times> int" where
  "flex_reap_decide L bad_since now =
     (case L of
        None \<Rightarrow> (REAP_NOW, bad_since)
      | Some l \<Rightarrow>
          if flex_l2_connected (Some l) \<and> LINKCALL l ! 0 \<noteq> 0 then (REAP_KEEP, 0)
          else let bs = (if bad_since = 0 then now else bad_since)
               in (if now - bs \<ge> FLEXNET_REAP_GRACE then REAP_NOW else REAP_WAIT, bs))"

section \<open>Link time on the wire\<close>

definition flex_wire_lt_value :: "bool \<Rightarrow> nat \<Rightarrow> int \<Rightarrow> int" where
  "flex_wire_lt_value pcf samples our_lt =
     (if pcf \<or> samples = 0 then FLEXNET_WIRE_LT
      else if our_lt < 1 then 1
      else if our_lt > 4095 then 4095
      else our_lt)"

section \<open>Event ring and parser statistics\<close>

record sess_event =
  ev_t :: int
  ev_peer :: string
  ev_what :: string

text \<open>\<open>snprintf\<close> into \<open>peer[12]\<close> and \<open>what[28]\<close>; a NULL argument is printed as "?" or "".\<close>

definition flex_sess_event ::
  "string option \<Rightarrow> string option \<Rightarrow> int \<Rightarrow> sess_event list \<times> nat \<Rightarrow> sess_event list \<times> nat" where
  "flex_sess_event peer what now ring =
     (case ring of (evs, k) \<Rightarrow>
        (evs[k := \<lparr>ev_t = now,
                   ev_peer = take 11 (case peer of None \<Rightarrow> ''?'' | Some p \<Rightarrow> p),
                   ev_what = take 27 (case what of None \<Rightarrow> '''' | Some w \<Rightarrow> w)\<rparr>],
         (k + 1) mod FLEX_SESS_EVENTS))"

datatype parse_kind = PARSE_UNKNOWN | PARSE_MALFORMED

record parse_stats =
  ps_unknown :: nat
  ps_malformed :: nat
  ps_last_t :: int
  ps_last_kind :: parse_kind
  ps_last_peer :: string
  ps_last_what :: string
  ps_last_byte0 :: int
  ps_last_len :: int

definition flex_parse_note ::
  "parse_kind \<Rightarrow> string option \<Rightarrow> string option \<Rightarrow> string \<Rightarrow> int \<Rightarrow> parse_stats \<Rightarrow> parse_stats" where
  "flex_parse_note kind peer what data now st =
     (let st1 = (if kind = PARSE_UNKNOWN then st\<lparr>ps_unknown := ps_unknown st + 1\<rparr>
                 else st\<lparr>ps_malformed := ps_malformed st + 1\<rparr>)
      in st1\<lparr>ps_last_t := now, ps_last_kind := kind,
             ps_last_byte0 := (case data of [] \<Rightarrow> -1 | c # _ \<Rightarrow> int (of_char c)),
             ps_last_len := int (length data),
             ps_last_peer := take 11 (case peer of None \<Rightarrow> ''?'' | Some p \<Rightarrow> p),
             ps_last_what := take 11 (case what of None \<Rightarrow> ''?'' | Some w \<Rightarrow> w)\<rparr>)"

section \<open>Properties of link options\<close>

lemma link_opts_cost_finite:
  "rtt < FLEXNET_RTT_INFINITY \<Longrightarrow> flex_link_opts_cost opts rtt < FLEXNET_RTT_INFINITY"
  by (auto simp: flex_link_opts_cost_def rtt_defs)

lemma link_opts_cost_ge: "rtt \<le> flex_link_opts_cost opts rtt"
  by (auto simp: flex_link_opts_cost_def rtt_defs)

lemma link_opts_cost_infinite:
  "flex_link_opts_cost opts rtt \<ge> FLEXNET_RTT_INFINITY \<longleftrightarrow> rtt \<ge> FLEXNET_RTT_INFINITY"
  by (auto simp: flex_link_opts_cost_def rtt_defs)

lemma link_opts_cost_mono:
  "rtt \<le> rtt' \<Longrightarrow> flex_link_opts_cost opts rtt \<le> flex_link_opts_cost opts rtt'"
  by (auto simp: flex_link_opts_cost_def rtt_defs)

lemma link_opts_cost_no_penalty:
  "\<not> has_opt opts FLEX_LOPT_PENALTY \<Longrightarrow> flex_link_opts_cost opts rtt = rtt"
  by (simp add: flex_link_opts_cost_def)

text \<open>The values the parser can produce, by their five bits: '=' always brings '!' with it.\<close>

definition lopt_val :: "bool \<Rightarrow> bool \<Rightarrow> bool \<Rightarrow> bool \<Rightarrow> bool \<Rightarrow> int" where
  "lopt_val a b c d e = of_bool a + 2 * of_bool b + 4 * of_bool c + 8 * of_bool d + 16 * of_bool e"

lemma lopt_val_OR:
  "lopt_val a b c d e OR 1 = lopt_val True b c d e"
  "lopt_val a b c d e OR 2 = lopt_val a True c d e"
  "lopt_val a b c d e OR 3 = lopt_val True True c d e"
  "lopt_val a b c d e OR 6 = lopt_val a True True d e"
  "lopt_val a b c d e OR 8 = lopt_val a b c True e"
  "lopt_val a b c d e OR 16 = lopt_val a b c d True"
  by (cases a; cases b; cases c; cases d; cases e; simp add: lopt_val_def)+

definition lopt_canonical :: "int \<Rightarrow> bool" where
  "lopt_canonical v \<longleftrightarrow> (\<exists>a b c d e. (c \<longrightarrow> b) \<and> v = lopt_val a b c d e)"

lemma lopt_canonicalI: "c \<longrightarrow> b \<Longrightarrow> lopt_canonical (lopt_val a b c d e)"
  unfolding lopt_canonical_def by blast

lemma lopt_canonical_OR:
  assumes "lopt_canonical v" "w \<in> {1, 2, 3, 6, 8, 16}"
  shows "lopt_canonical (v OR w)"
proof -
  obtain a b c d e where "c \<longrightarrow> b" "v = lopt_val a b c d e"
    using assms(1) unfolding lopt_canonical_def by blast
  with assms(2) show ?thesis
    by (elim insertE) (simp_all add: lopt_val_OR lopt_canonicalI)
qed

lemma lopt_scan_canonical: "lopt_canonical v \<Longrightarrow> lopt_scan s v = Some o' \<Longrightarrow> lopt_canonical o'"
proof (induction s arbitrary: v)
  case Nil
  then show ?case by simp
next
  case (Cons x s)
  from Cons.prems(2) obtain w where w: "lopt_char x = Some w" "lopt_scan s (v OR w) = Some o'"
    by (auto simp del: lopt_char.simps split: option.splits)
  have "w \<in> {1, 2, 3, 6, 8, 16}" using w(1) by (auto simp: lopt_defs split: if_splits)
  with Cons.prems(1) have "lopt_canonical (v OR w)" by (rule lopt_canonical_OR)
  then show ?case using w(2) by (rule Cons.IH)
qed

lemma lopt_format_scan:
  assumes "c \<longrightarrow> b"
  shows "\<exists>s. flex_link_opts_format (lopt_val a b c d e) 8 = Some (CHR ''F'' # s) \<and>
           lopt_scan s 0 = Some (lopt_val a b c d e)"
  using assms
  by (cases a; cases b; cases c; cases d; cases e)
    (simp_all add: lopt_val_def flex_link_opts_format_def has_opt_def lopt_defs)

text \<open>the canonical spelling of link options is faithful: the options parsed from any accepted
  suffix, printed by flex_link_opts_format and parsed again, are the same options.\<close>

theorem link_opts_format_parse:
  assumes "FlexNet_ParseLinkOpts (Some s) = (0, opts)"
  shows "\<exists>s'. flex_link_opts_format opts 8 = Some (CHR ''F'' # s') \<and>
           FlexNet_ParseLinkOpts (Some s') = (0, opts)"
proof -
  have scan: "lopt_scan s 0 = Some opts"
    using assms by (auto simp: FlexNet_ParseLinkOpts_def split: option.splits)
  have "lopt_canonical 0"
    using lopt_canonicalI [of False False False False False] by (simp add: lopt_val_def)
  from lopt_scan_canonical [OF this scan] obtain a b c d e
    where "c \<longrightarrow> b" "opts = lopt_val a b c d e"
    unfolding lopt_canonical_def by blast
  then obtain s' where "flex_link_opts_format opts 8 = Some (CHR ''F'' # s')" "lopt_scan s' 0 = Some opts"
    using lopt_format_scan by blast
  then show ?thesis by (auto simp: FlexNet_ParseLinkOpts_def)
qed

theorem link_opts_format_parse_witness:
  "\<exists>s'. flex_link_opts_format 27 8 = Some (CHR ''F'' # s') \<and> FlexNet_ParseLinkOpts (Some s') = (0, 27)"
proof (rule link_opts_format_parse)
  show "FlexNet_ParseLinkOpts (Some '')!+-'') = (0, 27)" by code_simp
qed

text \<open>the '+' penalty never turns a usable route into a withdrawal or a withdrawal into a
  route, never lowers a cost, and keeps the order of two costs.\<close>

theorem link_penalty_sound:
  "(flex_link_opts_cost opts r \<ge> FLEXNET_RTT_INFINITY) = (r \<ge> FLEXNET_RTT_INFINITY) \<and>
   r \<le> flex_link_opts_cost opts r \<and> flex_link_opts_cost opts r \<le> r + FLEXNET_LINK_PENALTY \<and>
   flex_link_opts_cost opts (min r r') = min (flex_link_opts_cost opts r) (flex_link_opts_cost opts r')"
  by (auto simp: flex_link_opts_cost_def rtt_defs min_def)

section \<open>Properties of the reaper\<close>

text \<open>The reaper's calls for one session: the link as each timer pass finds it, and the time.\<close>

fun reap_run :: "(link_view option \<times> int) list \<Rightarrow> int \<Rightarrow> reap list" where
  "reap_run [] bad_since = []"
| "reap_run ((L, now) # cs) bad_since =
     (case flex_reap_decide L bad_since now of (v, bs) \<Rightarrow> v # reap_run cs bs)"

definition link_healthy :: "link_view option \<Rightarrow> bool" where
  "link_healthy L = (case L of None \<Rightarrow> False | Some l \<Rightarrow> L2STATE l \<ge> 5 \<and> LINKCALL l ! 0 \<noteq> 0)"

lemma reap_decide_healthy: "link_healthy L \<Longrightarrow> flex_reap_decide L bs now = (REAP_KEEP, 0)"
  by (auto simp: link_healthy_def flex_reap_decide_def flex_l2_connected_def split: option.splits)

lemma reap_decide_bad:
  "\<not> link_healthy (Some l) \<Longrightarrow> flex_reap_decide (Some l) bs now =
     (let b = (if bs = 0 then now else bs)
      in (if now - b \<ge> FLEXNET_REAP_GRACE then REAP_NOW else REAP_WAIT, b))"
  by (auto simp: link_healthy_def flex_reap_decide_def flex_l2_connected_def Let_def)

lemma reap_run_bad_since:
  assumes "b \<noteq> 0" "\<forall>(L, t) \<in> set cs. \<exists>l. L = Some l \<and> \<not> link_healthy L"
  shows "reap_run cs b = map (\<lambda>(L, t). if t - b \<ge> FLEXNET_REAP_GRACE then REAP_NOW else REAP_WAIT) cs"
  using assms(2) by (induction cs) (auto simp: reap_decide_bad assms(1) Let_def)

text \<open>a session whose link is present but not connected is reaped exactly at the first timer
  pass at least FLEXNET_REAP_GRACE seconds after the pass that first saw it bad, however many passes
  lie in between; one healthy pass restarts the grace period.\<close>

theorem reaper_grace:
  assumes "0 < t0" "\<not> link_healthy (Some l0)" "link_healthy h"
    and "\<forall>(L, t) \<in> set cs. \<exists>l. L = Some l \<and> \<not> link_healthy L"
  shows "reap_run ((h, th) # (Some l0, t0) # cs) b =
    REAP_KEEP # REAP_WAIT # map (\<lambda>(L, t). if t - t0 \<ge> FLEXNET_REAP_GRACE then REAP_NOW else REAP_WAIT) cs"
  using assms reap_run_bad_since [of t0 cs]
  by (simp add: reap_decide_healthy reap_decide_bad Let_def FLEXNET_REAP_GRACE_def)

theorem reaper_grace_witness:
  "reap_run [(Some \<lparr>LINKCALL = [0x92], L2STATE = 6\<rparr>, 90), (Some \<lparr>LINKCALL = [0x92], L2STATE = 2\<rparr>, 100),
     (Some \<lparr>LINKCALL = [0x92], L2STATE = 2\<rparr>, 104), (Some \<lparr>LINKCALL = [0x92], L2STATE = 0\<rparr>, 105)] 80 =
   REAP_KEEP # REAP_WAIT # map (\<lambda>(L, t). if t - 100 \<ge> FLEXNET_REAP_GRACE then REAP_NOW else REAP_WAIT)
     [(Some \<lparr>LINKCALL = [0x92], L2STATE = 2\<rparr>, 104), (Some \<lparr>LINKCALL = [0x92], L2STATE = 0\<rparr>, 105)]"
  by (rule reaper_grace) (simp_all add: link_healthy_def)

section \<open>Echo gap\<close>

fun echo_run :: "int \<Rightarrow> bool \<Rightarrow> int list \<Rightarrow> int list \<Rightarrow> int list" where
  "echo_run sidx pcf [] echo_at = []"
| "echo_run sidx pcf (t # ts) echo_at =
     (case flex_ka_should_echo sidx pcf t echo_at of
        (e, ea) \<Rightarrow> (if e then [t] else []) @ echo_run sidx pcf ts ea)"

text \<open>towards a peer that is not PC/Flexnet, two keepalive echoes on one session are at least
  FLEXNET_KA_ECHO_GAP seconds apart, so two nodes that both echo cannot feed each other.\<close>

theorem ka_echo_gap:
  assumes "length echo_at = FLEXNET_MAX_SESSIONS" "0 \<le> sidx" "sidx < 8"
  shows "sorted_wrt (\<lambda>a b. b - a \<ge> FLEXNET_KA_ECHO_GAP) (echo_at ! nat sidx # echo_run sidx False ts echo_at)"
  using assms(1)
proof (induction ts arbitrary: echo_at)
  case Nil
  then show ?case by simp
next
  case (Cons t ts)
  have i: "nat sidx < length echo_at" using assms Cons.prems by (simp add: FLEXNET_MAX_SESSIONS_def)
  show ?case
  proof (cases "t - echo_at ! nat sidx < FLEXNET_KA_ECHO_GAP")
    case True
    with Cons assms show ?thesis by (simp add: flex_ka_should_echo_def FLEXNET_MAX_SESSIONS_def)
  next
    case False
    have IH: "sorted_wrt (\<lambda>a b. b - a \<ge> FLEXNET_KA_ECHO_GAP)
        (t # echo_run sidx False ts (echo_at[nat sidx := t]))"
      using Cons.IH [of "echo_at[nat sidx := t]"] Cons.prems i by simp
    then have "\<forall>b \<in> set (echo_run sidx False ts (echo_at[nat sidx := t])). b - t \<ge> FLEXNET_KA_ECHO_GAP"
      by simp
    then have "\<forall>b \<in> set (echo_run sidx False ts (echo_at[nat sidx := t])).
        b - echo_at ! nat sidx \<ge> FLEXNET_KA_ECHO_GAP"
      using False by (auto simp: FLEXNET_KA_ECHO_GAP_def)
    with IH False assms show ?thesis
      by (simp add: flex_ka_should_echo_def FLEXNET_MAX_SESSIONS_def)
  qed
qed

theorem ka_echo_gap_witness:
  "sorted_wrt (\<lambda>a b. b - a \<ge> FLEXNET_KA_ECHO_GAP)
     (replicate 8 0 ! nat 2 # echo_run 2 False [100, 130, 170, 180] (replicate 8 0))"
  by (rule ka_echo_gap) (simp_all add: FLEXNET_MAX_SESSIONS_def)

lemma wire_lt_bounds: "1 \<le> flex_wire_lt_value pcf n lt \<and> flex_wire_lt_value pcf n lt \<le> 4095"
  by (auto simp: flex_wire_lt_value_def FLEXNET_WIRE_LT_def)

end
