(* ===== verification/Flex_CE.thy ===== *)
theory Flex_CE
  imports Flex_LinkOpts
begin

text \<open>
  The text frames of PID 0xCE and the L3RTT probe (FlexNetCode.c): classifier, compact record
  parser, builders of keepalive, link time, init, route records and the node's own frame, the
  path request and reply frames, the L3RTT counters. A frame is the list of its bytes as
  characters, without the PID byte. A builder takes the size of the caller's buffer and returns
  the bytes it wrote, or \<open>None\<close> for its error return -1.
\<close>

section \<open>Classifier\<close>

datatype ce_frame = CE_KEEPALIVE | CE_STATUS_POS | CE_STATUS_NEG | CE_STATUS_10 | CE_COMPACT
  | CE_LINK_TIME | CE_TOKEN | CE_PATH_REQ | CE_INIT | CE_PATH_REP | CE_STATUS_1N

abbreviation CR :: char where "CR \<equiv> CHR 0x0D"
abbreviation LF :: char where "LF \<equiv> CHR 0x0A"
abbreviation SP :: char where "SP \<equiv> CHR '' ''"

definition flex_parse_ce_frame :: "bool \<Rightarrow> string \<Rightarrow> ce_frame option" where
  "flex_parse_ce_frame lt3byte data =
     (let len = length data in
      if len = 0 then None
      else if len \<ge> 2 \<and> data ! 0 = CHR ''2'' \<and> data ! 1 = SP then Some CE_KEEPALIVE
      else if lt3byte \<and> len = 3 \<and> data ! 0 = CHR ''1'' \<and> is_digit (data ! 1) \<and> data ! 2 = CR
        then Some CE_LINK_TIME
      else if len = 3 \<and> data ! 0 = CHR ''3'' \<and> data ! 1 = CHR ''+'' \<and> data ! 2 = CR
        then Some CE_STATUS_POS
      else if len = 3 \<and> data ! 0 = CHR ''3'' \<and> data ! 1 = CHR ''-'' \<and> data ! 2 = CR
        then Some CE_STATUS_NEG
      else if len = 3 \<and> data ! 0 = CHR ''1'' \<and> data ! 1 = CHR ''0'' \<and> data ! 2 = CR
        then Some CE_STATUS_10
      else if len = 3 \<and> data ! 0 = CHR ''1'' \<and> is_digit (data ! 1) \<and> data ! 1 \<noteq> CHR ''0'' \<and>
              data ! 2 = CR
        then Some CE_STATUS_1N
      else if data ! 0 = CHR ''0'' \<and> len \<ge> 2 then Some CE_INIT
      else if data ! 0 = CHR ''1'' \<and> len > 3 then Some CE_LINK_TIME
      else if data ! 0 = CHR ''4'' \<and> len \<ge> 3 then Some CE_TOKEN
      else if data ! 0 = CHR ''6'' then Some CE_PATH_REQ
      else if data ! 0 = CHR ''7'' then Some CE_PATH_REP
      else if data ! 0 = CHR ''3'' then Some CE_COMPACT
      else None)"

text \<open>The public wrapper used for frames that arrive with PID 0xF0.\<close>

definition FlexNet_ClassifyCEShape :: "bool \<Rightarrow> string \<Rightarrow> ce_frame option" where
  "FlexNet_ClassifyCEShape lt3byte data = flex_parse_ce_frame lt3byte data"

section \<open>Destination entries and compact records\<close>

record dest_entry =
  d_callsign :: string
  d_ssid_lo :: int
  d_ssid_hi :: int
  d_rtt :: int
  d_is_infinity :: bool
  d_via_callsign :: string
  d_port :: int
  d_via_session_idx :: int
  d_last_updated :: int
  d_path_hops :: "string list"
  d_path_len :: int
  d_path_updated :: int

definition dest_entry0 :: dest_entry where
  "dest_entry0 = \<lparr>d_callsign = '''', d_ssid_lo = 0, d_ssid_hi = 0, d_rtt = 0, d_is_infinity = False,
     d_via_callsign = '''', d_port = 0, d_via_session_idx = 0, d_last_updated = 0,
     d_path_hops = [], d_path_len = 0, d_path_updated = 0\<rparr>"

definition FLEXNET_SSID_BASE :: int where "FLEXNET_SSID_BASE = 0x30"

text \<open>
  \<open>(int)(*p)\<close> for a plain \<open>char\<close>: signed on x86, unsigned on ARM. The platform is the
  parameter \<open>schar\<close>.
\<close>

definition char_int :: "bool \<Rightarrow> char \<Rightarrow> int" where
  "char_int schar c = (let v = int (of_char c) in if schar \<and> v \<ge> 128 then v - 256 else v)"

definition clamp_ssid :: "int \<Rightarrow> int" where
  "clamp_ssid v = (if v < 0 then 0 else if v > 15 then 15 else v)"

text \<open>One record at \<open>q\<close>: six callsign characters, two SSID characters, up to six digits.\<close>

definition compact_digits :: "string \<Rightarrow> string" where
  "compact_digits q = takeWhile is_digit (take 6 (drop 8 q))"

definition compact_entry :: "bool \<Rightarrow> bool \<Rightarrow> string \<Rightarrow> dest_entry" where
  "compact_entry schar withdrawal q =
     (let call = filter (\<lambda>c. c \<noteq> SP) (take 6 q);
          rtt = (if withdrawal then FLEXNET_RTT_INFINITY else int (digits_val (compact_digits q)))
      in dest_entry0\<lparr>d_callsign := take 9 call,
           d_ssid_lo := clamp_ssid (char_int schar (q ! 6) - FLEXNET_SSID_BASE),
           d_ssid_hi := clamp_ssid (char_int schar (q ! 7) - FLEXNET_SSID_BASE),
           d_rtt := rtt, d_is_infinity := (rtt \<ge> FLEXNET_RTT_INFINITY)\<rparr>)"

fun compact_loop :: "bool \<Rightarrow> bool \<Rightarrow> nat \<Rightarrow> string \<Rightarrow> dest_entry list" where
  "compact_loop schar withdrawal 0 p = []"
| "compact_loop schar withdrawal (Suc n) p =
     (let q = dropWhile (\<lambda>c. c = SP) p in
      if q = [] \<or> hd q = CR \<or> hd q = LF then []
      else if length q < 8 then []
      else if filter (\<lambda>c. c \<noteq> SP) (take 6 q) = [] then []
      else compact_entry schar withdrawal q
           # compact_loop schar withdrawal n
               (dropWhile (\<lambda>c. c = SP) (drop (length (compact_digits q)) (drop 8 q))))"

text \<open>
  The payload is copied to a 2048-byte text buffer, so it ends at the first NUL. Trailing
  CR/LF are removed, a final '-' makes the whole frame a withdrawal, trailing spaces go.
\<close>

definition flex_parse_compact_records :: "bool \<Rightarrow> string \<Rightarrow> nat \<Rightarrow> dest_entry list" where
  "flex_parse_compact_records schar data max_entries =
     (if length data < 4 \<or> data ! 0 \<noteq> CHR ''3'' then []
      else
        let payload = takeWhile (\<lambda>c. c \<noteq> CHR 0x00) (take 2047 (tl data));
            s1 = rtrim (\<lambda>c. c = CR \<or> c = LF) payload;
            withdrawal = (s1 \<noteq> [] \<and> last s1 = CHR ''-'');
            s2 = (if withdrawal then butlast s1 else s1);
            s3 = rtrim (\<lambda>c. c = SP) s2
        in compact_loop schar withdrawal max_entries s3)"

section \<open>Builders\<close>

definition FLEXNET_KEEPALIVE_LEN :: nat where "FLEXNET_KEEPALIVE_LEN = 241"

definition flex_build_keepalive :: "int \<Rightarrow> string option" where
  "flex_build_keepalive buflen =
     (if buflen < int FLEXNET_KEEPALIVE_LEN then None
      else Some (CHR ''2'' # replicate (FLEXNET_KEEPALIVE_LEN - 1) SP))"

definition flex_build_link_time :: "int \<Rightarrow> int \<Rightarrow> string option" where
  "flex_build_link_time buflen v =
     (let tmp = CHR ''1'' # dec_of_int v @ [CR]
      in if int (length tmp) \<ge> buflen then None else Some tmp)"

definition flex_build_init :: "int \<Rightarrow> int \<Rightarrow> string option" where
  "flex_build_init buflen max_ssid =
     (if buflen < 5 then None
      else Some [CHR 0x30, char_of (nat ((0x30 + max_ssid) mod 256)), CHR 0x25, CHR 0x21, CHR 0x0D])"

definition ssid_char :: "int \<Rightarrow> char" where
  "ssid_char ssid = char_of (nat ((FLEXNET_SSID_BASE + ssid) mod 256))"

definition wire_rtt :: "int \<Rightarrow> int" where
  "wire_rtt rtt = (if rtt > FLEXNET_RTT_WIRE_MAX \<and> rtt < FLEXNET_RTT_INFINITY
                   then FLEXNET_RTT_WIRE_MAX else rtt)"

definition flex_build_route_rec :: "int \<Rightarrow> string \<Rightarrow> int \<Rightarrow> int \<Rightarrow> int \<Rightarrow> string option" where
  "flex_build_route_rec buflen callsign ssid_lo ssid_hi rtt =
     (let tmp = pad6 callsign @ [ssid_char ssid_lo, ssid_char ssid_hi] @ dec_of_int (wire_rtt rtt) @ [SP]
      in if int (length tmp) \<ge> buflen then None else Some tmp)"

datatype local_state = LOCAL_UNCHECKED | LOCAL_BOUND | LOCAL_UNBOUND | LOCAL_NODECALL | LOCAL_NOPORT
  | LOCAL_NOFWD | LOCAL_OWNRANGE

record local_call =
  lc_base :: string
  lc_ssid :: int
  lc_from_apps :: bool
  lc_state :: local_state
  lc_ext_port :: int

fun own_frame_locals :: "int \<Rightarrow> string \<Rightarrow> local_call list \<Rightarrow> string option" where
  "own_frame_locals buflen buf [] = Some buf"
| "own_frame_locals buflen buf (l # ls) =
     (if lc_state l \<noteq> LOCAL_BOUND then own_frame_locals buflen buf ls
      else case flex_build_route_rec (buflen - int (length buf) - 1) (lc_base l) (lc_ssid l) (lc_ssid l) 1 of
             None \<Rightarrow> None
           | Some r \<Rightarrow> own_frame_locals buflen (buf @ r) ls)"

definition flex_build_own_frame :: "int \<Rightarrow> string \<Rightarrow> int \<Rightarrow> int \<Rightarrow> local_call list \<Rightarrow> string option" where
  "flex_build_own_frame buflen mybase ssid_lo ssid_hi locals =
     (if buflen < 3 then None
      else case flex_build_route_rec (buflen - 1 - 1) mybase ssid_lo ssid_hi 1 of
             None \<Rightarrow> None
           | Some r \<Rightarrow>
               (case own_frame_locals buflen (CHR ''3'' # r) locals of
                  None \<Rightarrow> None
                | Some b \<Rightarrow> Some (b @ [CR])))"

section \<open>Path request and reply frames\<close>

definition FLEXNET_MAX_PATH_HOPS :: nat where "FLEXNET_MAX_PATH_HOPS = 16"

text \<open>The QSO field: \<open>"%5u"\<close> of \<open>qso % 100000\<close>, the trace bit 0x40 set in its first byte.\<close>

definition lpad :: "nat \<Rightarrow> string \<Rightarrow> string" where
  "lpad n s = replicate (n - length s) SP @ s"

definition set_trace_bit :: "char \<Rightarrow> char" where
  "set_trace_bit c = (let v = (of_char c :: nat) in if v div 64 mod 2 = 1 then c else char_of (v + 64))"

definition clear_trace_bit :: "char \<Rightarrow> char" where
  "clear_trace_bit c = (let v = (of_char c :: nat) in if v div 64 mod 2 = 1 then char_of (v - 64) else c)"

definition has_trace_bit :: "char \<Rightarrow> bool" where
  "has_trace_bit c \<longleftrightarrow> (of_char c :: nat) div 64 mod 2 = 1"

definition qso_field :: "int \<Rightarrow> bool \<Rightarrow> string" where
  "qso_field qso trace =
     (let f = lpad 5 (dec_of_nat (nat ((if qso < 0 then 0 else qso) mod 100000)))
      in if trace then set_trace_bit (hd f) # tl f else f)"

definition flex_build_path_req :: "int \<Rightarrow> int \<Rightarrow> bool \<Rightarrow> string \<Rightarrow> string \<Rightarrow> string \<Rightarrow> string option" where
  "flex_build_path_req buflen qso trace origin next_hop target =
     (let needed = 1 + 1 + 5 + int (length origin) + 1 + int (length next_hop) + 1 + int (length target)
      in if needed > buflen then None
         else Some (CHR ''6'' # CHR 0x21 # qso_field qso trace @ origin @ SP # next_hop @ SP # target))"

fun path_rep_hops :: "int \<Rightarrow> string \<Rightarrow> nat \<Rightarrow> string list \<Rightarrow> string option" where
  "path_rep_hops buflen buf i [] = Some buf"
| "path_rep_hops buflen buf i (h # hs) =
     (if h = [] then path_rep_hops buflen buf (Suc i) hs
      else if int (length buf) + (if i = 0 then 0 else 1) + int (length h) \<ge> buflen then None
      else path_rep_hops buflen (buf @ (if i > 0 then [SP] else []) @ h) (Suc i) hs)"

definition flex_build_path_rep :: "int \<Rightarrow> int \<Rightarrow> bool \<Rightarrow> string list \<Rightarrow> string option" where
  "flex_build_path_rep buflen qso trace hops =
     (if length hops < 1 \<or> length hops > FLEXNET_MAX_PATH_HOPS then None
      else if buflen < 7 then None
      else path_rep_hops buflen
             (CHR ''7'' # char_of (0x20 + length hops) # qso_field qso trace) 0 hops)"

record path_frame =
  pf_is_reply :: bool
  pf_qso :: int
  pf_trace :: bool
  pf_hop_count :: int
  pf_origin :: string
  pf_hops :: "string list"

text \<open>A call ends at a space, CR or NUL, or after 9 characters.\<close>

fun path_calls :: "nat \<Rightarrow> string \<Rightarrow> string list" where
  "path_calls 0 s = []"
| "path_calls (Suc n) s =
     (let s' = dropWhile (\<lambda>c. c = SP) s;
          c = take 9 (takeWhile (\<lambda>c. c \<noteq> SP \<and> c \<noteq> CR \<and> c \<noteq> CHR 0x00) s')
      in if c = [] then [] else c # path_calls n (drop (length c) s'))"

definition parse_qso :: "string \<Rightarrow> nat" where
  "parse_qso f = digits_val (takeWhile is_digit (dropWhile (\<lambda>c. c = SP)
                   (map (\<lambda>c. if is_digit c then c else SP) f)))"

definition flex_parse_path_frame :: "string \<Rightarrow> path_frame option" where
  "flex_parse_path_frame data =
     (if length data < 7 then None
      else if data ! 0 \<noteq> CHR ''6'' \<and> data ! 0 \<noteq> CHR ''7'' then None
      else
        let f = take 5 (drop 2 data);
            calls = path_calls (FLEXNET_MAX_PATH_HOPS + 1) (drop 7 data)
        in Some \<lparr>pf_is_reply = (data ! 0 = CHR ''7''),
                 pf_qso = int (parse_qso (clear_trace_bit (hd f) # tl f)),
                 pf_trace = has_trace_bit (hd f),
                 pf_hop_count = max 0 (int (of_char (data ! 1)) - 0x20),
                 pf_origin = (case calls of [] \<Rightarrow> '''' | c # _ \<Rightarrow> c),
                 pf_hops = (case calls of [] \<Rightarrow> [] | _ # cs \<Rightarrow> cs)\<rparr>)"

section \<open>L3RTT\<close>

definition l3rtt_tag :: string where "l3rtt_tag = ''L3RTT:''"

text \<open>Offset of the first "L3RTT:" in a binary buffer.\<close>

fun find_sub :: "string \<Rightarrow> string \<Rightarrow> nat option" where
  "find_sub pat [] = (if pat = [] then Some 0 else None)"
| "find_sub pat (c # cs) =
     (if take (length pat) (c # cs) = pat then Some 0 else map_option Suc (find_sub pat cs))"

definition flex_find_l3rtt_tag :: "string \<Rightarrow> nat option" where
  "flex_find_l3rtt_tag data = (if length data < 6 then None else find_sub l3rtt_tag data)"

text \<open>\<open>strtoul\<close> saturates at the 64-bit maximum; the cast keeps the low 32 bits.\<close>

definition strtoul32 :: "string \<Rightarrow> nat" where
  "strtoul32 ds = min (digits_val ds) (2 ^ 64 - 1) mod 2 ^ 32"

fun l3rtt_counters :: "nat \<Rightarrow> string \<Rightarrow> nat list option" where
  "l3rtt_counters 0 p = Some []"
| "l3rtt_counters (Suc n) p =
     (let q = dropWhile (\<lambda>c. c = SP) p; ds = takeWhile is_digit q
      in if ds = [] then None
         else map_option ((#) (strtoul32 ds)) (l3rtt_counters n (drop (length ds) q)))"

definition flex_parse_l3rtt_counters :: "string \<Rightarrow> nat list option" where
  "flex_parse_l3rtt_counters data =
     (if length data < 7 then None
      else
        let text = map (\<lambda>c. if c = LF \<or> c = CR \<or> c = CHR 0x00 then SP else c) (take 1023 data)
        in case find_sub l3rtt_tag text of
             None \<Rightarrow> None
           | Some i \<Rightarrow> l3rtt_counters 4 (drop (i + 6) text))"

definition FLEXNET_VERSION_PROTO :: string where "FLEXNET_VERSION_PROTO = ''linbpq-1.9''"

definition flex_build_l3rtt :: "int \<Rightarrow> nat \<Rightarrow> nat \<Rightarrow> nat \<Rightarrow> nat \<Rightarrow> string option \<Rightarrow> nat \<Rightarrow> string option" where
  "flex_build_l3rtt buflen c1 c2 c3 c4 alias max_dest =
     (let payload = ''L3RTT:'' @ lpad 11 (dec_of_nat c1) @ lpad 11 (dec_of_nat c2) @
            lpad 11 (dec_of_nat c3) @ lpad 11 (dec_of_nat c4) @ [SP] @
            pad6 (case alias of None \<Rightarrow> ''NONE  '' | Some a \<Rightarrow> a) @
            '' LEVEL3_V2.1 '' @ FLEXNET_VERSION_PROTO @ '' $M'' @ dec_of_nat max_dest @ '' $N'' @ [CR]
      in if length payload \<ge> 256 \<or> int (length payload) \<ge> buflen \<or> buflen \<le> 0 then None
         else Some payload)"

section \<open>Compact records: parsing undoes building\<close>

lemma is_alnum_not [simp]:
  "is_alnum c \<Longrightarrow> c \<noteq> SP" "is_alnum c \<Longrightarrow> c \<noteq> CR" "is_alnum c \<Longrightarrow> c \<noteq> LF"
  "is_alnum c \<Longrightarrow> c \<noteq> CHR ''-''" "is_alnum c \<Longrightarrow> c \<noteq> CHR 0x00"
  by (auto simp: is_alnum_def is_digit_def is_upper_def is_lower_def)

lemma is_digit_alnum: "is_digit c \<Longrightarrow> is_alnum c"
  by (simp add: is_alnum_def)

lemma not_digit_SP [simp]: "\<not> is_digit SP" "\<not> is_digit CR"
  by (simp_all add: is_digit_def)

lemma dec_of_nat_all_digits: "takeWhile is_digit (dec_of_nat n) = dec_of_nat n"
  by (simp add: takeWhile_eq_all_conv dec_of_nat_digits)

lemma takeWhile_dec:
  "rest = [] \<or> \<not> is_digit (hd rest) \<Longrightarrow> takeWhile is_digit (dec_of_nat n @ rest) = dec_of_nat n"
  by (cases rest) (auto simp: takeWhile_append dec_of_nat_digits dec_of_nat_all_digits)

text \<open>A record that every peer can carry.\<close>

record route_rec =
  rr_call :: string
  rr_lo :: int
  rr_hi :: int
  rr_rtt :: int

definition rec_good :: "route_rec \<Rightarrow> bool" where
  "rec_good r \<longleftrightarrow> rr_call r \<noteq> [] \<and> length (rr_call r) \<le> 6 \<and> (\<forall>c \<in> set (rr_call r). is_alnum c) \<and>
     0 \<le> rr_lo r \<and> rr_lo r \<le> 15 \<and> 0 \<le> rr_hi r \<and> rr_hi r \<le> 15 \<and>
     0 \<le> rr_rtt r \<and> rr_rtt r \<le> FLEXNET_RTT_INFINITY"

definition rec_core :: "route_rec \<Rightarrow> string" where
  "rec_core r = pad6 (rr_call r) @ [ssid_char (rr_lo r), ssid_char (rr_hi r)] @ dec_of_int (wire_rtt (rr_rtt r))"

definition rec_entry :: "route_rec \<Rightarrow> dest_entry" where
  "rec_entry r = dest_entry0\<lparr>d_callsign := rr_call r, d_ssid_lo := rr_lo r, d_ssid_hi := rr_hi r,
     d_rtt := wire_rtt (rr_rtt r), d_is_infinity := (rr_rtt r \<ge> FLEXNET_RTT_INFINITY)\<rparr>"

lemma build_route_rec_core:
  "flex_build_route_rec buflen (rr_call r) (rr_lo r) (rr_hi r) (rr_rtt r) =
     (if int (length (rec_core r) + 1) \<ge> buflen then None else Some (rec_core r @ [SP]))"
  by (simp add: flex_build_route_rec_def rec_core_def Let_def)

lemma wire_rtt_range: "rec_good r \<Longrightarrow> 0 \<le> wire_rtt (rr_rtt r) \<and> wire_rtt (rr_rtt r) \<le> 60000"
  by (auto simp: rec_good_def wire_rtt_def rtt_defs)

lemma dec_of_wire_rtt:
  assumes "rec_good r"
  shows "dec_of_int (wire_rtt (rr_rtt r)) = dec_of_nat (nat (wire_rtt (rr_rtt r)))"
    and "length (dec_of_int (wire_rtt (rr_rtt r))) \<le> 5"
proof -
  show 1: "dec_of_int (wire_rtt (rr_rtt r)) = dec_of_nat (nat (wire_rtt (rr_rtt r)))"
    using wire_rtt_range [OF assms] by (simp add: dec_of_int_def)
  have "nat (wire_rtt (rr_rtt r)) < 10 ^ 5" using wire_rtt_range [OF assms] by (auto simp: nat_less_iff)
  then show "length (dec_of_int (wire_rtt (rr_rtt r))) \<le> 5"
    unfolding 1 by (rule length_dec_of_nat_le) simp
qed

lemma length_rec_core: "rec_good r \<Longrightarrow> 9 \<le> length (rec_core r) \<and> length (rec_core r) \<le> 13"
  using dec_of_wire_rtt [of r] dec_of_nat_nonempty [of "nat (wire_rtt (rr_rtt r))"]
  by (auto simp: rec_core_def Suc_le_eq)

lemma ssid_char_int:
  assumes "0 \<le> s" "s \<le> 15"
  shows "char_int schar (ssid_char s) = 0x30 + s" and "ssid_char s \<noteq> CHR 0x00"
proof -
  have m: "(48 + s) mod 256 = 48 + s" using assms by simp
  have of: "(of_char (ssid_char s) :: nat) = nat (48 + s)"
    using assms by (simp add: ssid_char_def FLEXNET_SSID_BASE_def of_char_of m nat_less_iff)
  then have "(of_char (ssid_char s) :: int) = 48 + s"
    using assms by (metis int_nat_eq of_nat_of_char add_nonneg_nonneg zero_le_numeral)
  then show "char_int schar (ssid_char s) = 0x30 + s"
    using of assms by (simp add: char_int_def)
  show "ssid_char s \<noteq> CHR 0x00" using of assms by auto
qed

lemma rec_core_shape:
  assumes "rec_good r"
  obtains c cs where "rec_core r = c # cs" "is_alnum c"
  using assms by (cases "rr_call r") (auto simp: rec_core_def pad6_def rec_good_def)

lemma filter_pad6:
  assumes "rec_good r"
  shows "filter (\<lambda>c. c \<noteq> SP) (pad6 (rr_call r)) = rr_call r"
proof -
  have "filter (\<lambda>c. c \<noteq> SP) (rr_call r) = rr_call r"
    using assms by (auto simp: rec_good_def filter_id_conv)
  then show ?thesis using assms by (simp add: pad6_def rec_good_def)
qed

lemma compact_loop_step:
  assumes good: "rec_good r" and rest: "rest = [] \<or> \<not> is_digit (hd rest)"
  shows "compact_loop schar False (Suc n) (rec_core r @ rest) =
           rec_entry r # compact_loop schar False n (dropWhile (\<lambda>c. c = SP) rest)"
proof -
  obtain c cs where c: "rec_core r = c # cs" "is_alnum c" using rec_core_shape [OF good] .
  let ?ds = "dec_of_nat (nat (wire_rtt (rr_rtt r)))"
  let ?q = "rec_core r @ rest"
  have q: "dropWhile (\<lambda>c. c = SP) ?q = ?q" "?q \<noteq> []" "hd ?q \<noteq> CR" "hd ?q \<noteq> LF"
    using c by auto
  have len: "\<not> length ?q < 8" using length_rec_core [OF good] by simp
  have core: "rec_core r = pad6 (rr_call r) @ ssid_char (rr_lo r) # ssid_char (rr_hi r) # ?ds"
    by (simp add: rec_core_def dec_of_wire_rtt(1) [OF good])
  have t6: "take 6 ?q = pad6 (rr_call r)" and n6: "?q ! 6 = ssid_char (rr_lo r)"
    and n7: "?q ! 7 = ssid_char (rr_hi r)" and d8: "drop 8 ?q = ?ds @ rest"
    by (simp_all add: core nth_append)
  have l5: "length ?ds \<le> 5" using dec_of_wire_rtt [OF good] by simp
  have ds: "takeWhile is_digit (take 6 (?ds @ rest)) = ?ds"
    using l5 rest by (cases rest) (auto simp: takeWhile_dec take_Cons' dec_of_nat_digits)
  have val: "int (digits_val ?ds) = wire_rtt (rr_rtt r)"
    using wire_rtt_range [OF good] by (simp add: digits_val_dec_of_nat)
  have ssid: "clamp_ssid (char_int schar (ssid_char (rr_lo r)) - FLEXNET_SSID_BASE) = rr_lo r"
    "clamp_ssid (char_int schar (ssid_char (rr_hi r)) - FLEXNET_SSID_BASE) = rr_hi r"
    using good by (simp_all add: rec_good_def ssid_char_int FLEXNET_SSID_BASE_def clamp_ssid_def)
  have call: "take 9 (rr_call r) = rr_call r" "rr_call r \<noteq> []" using good by (auto simp: rec_good_def)
  have inf: "(FLEXNET_RTT_INFINITY \<le> wire_rtt (rr_rtt r)) = (FLEXNET_RTT_INFINITY \<le> rr_rtt r)"
    by (auto simp: wire_rtt_def rtt_defs)
  show ?thesis
    unfolding compact_loop.simps compact_entry_def compact_digits_def Let_def q(1) t6 n6 n7 d8 ds
      filter_pad6 [OF good] ssid val
    using q len call by (simp add: rec_entry_def inf)
qed

fun rec_text :: "route_rec list \<Rightarrow> string" where
  "rec_text [] = []"
| "rec_text [r] = rec_core r"
| "rec_text (r # rs) = rec_core r @ SP # rec_text rs"

lemma compact_loop_dropWhile:
  "compact_loop schar w n (dropWhile (\<lambda>c. c = SP) p) = compact_loop schar w n p"
  by (cases n) (simp_all add: dropWhile_idem)

lemma compact_loop_rec_text:
  assumes "\<forall>r \<in> set rs. rec_good r" "length rs \<le> n"
  shows "compact_loop schar False n (rec_text rs) = map rec_entry rs"
  using assms
proof (induction rs arbitrary: n rule: rec_text.induct)
  case 1
  then show ?case by (cases n) simp_all
next
  case (2 r)
  then obtain m where "n = Suc m" by (cases n) auto
  with 2 compact_loop_step [of r "[]" schar m] show ?case by (cases m) simp_all
next
  case (3 r r' rs)
  then obtain m where n: "n = Suc m" by (cases n) auto
  have "compact_loop schar False m (dropWhile (\<lambda>c. c = SP) (SP # rec_text (r' # rs))) = map rec_entry (r' # rs)"
    unfolding compact_loop_dropWhile using 3 n
    by (simp add: compact_loop_dropWhile [of schar False m "SP # _", symmetric]
        del: rec_text.simps) (simp add: compact_loop_dropWhile del: rec_text.simps)
  with compact_loop_step [of r "SP # rec_text (r' # rs)" schar m] 3 n show ?case
    by (simp add: compact_loop_dropWhile del: compact_loop.simps)
qed

text \<open>The frame shape of \<open>flex_advertise_drain\<close> and \<open>flex_build_own_frame\<close>: one '3', the records,
  one CR.\<close>

definition rec_frame :: "route_rec list \<Rightarrow> string" where
  "rec_frame rs = CHR ''3'' # concat (map (\<lambda>r. rec_core r @ [SP]) rs) @ [CR]"

lemma concat_rec_text: "rs \<noteq> [] \<Longrightarrow> concat (map (\<lambda>r. rec_core r @ [SP]) rs) = rec_text rs @ [SP]"
  by (induction rs rule: rec_text.induct) auto

lemma not_NUL [simp]: "\<not> is_alnum CHR 0x00" "\<not> is_digit CHR 0x00"
  by (simp_all add: is_alnum_def is_digit_def is_upper_def is_lower_def)

lemma rec_core_chars:
  assumes "rec_good r" "c \<in> set (rec_core r)"
  shows "c \<noteq> CHR 0x00"
proof -
  have "c \<in> set (pad6 (rr_call r)) \<or> c = ssid_char (rr_lo r) \<or> c = ssid_char (rr_hi r) \<or>
      c \<in> set (dec_of_nat (nat (wire_rtt (rr_rtt r))))"
    using assms(2) by (auto simp: rec_core_def dec_of_wire_rtt [OF assms(1)])
  moreover have "c \<in> set (pad6 (rr_call r)) \<Longrightarrow> is_alnum c \<or> c = SP"
    using assms(1) by (auto simp: pad6_def rec_good_def dest: in_set_takeD)
  moreover have "ssid_char (rr_lo r) \<noteq> CHR 0x00" "ssid_char (rr_hi r) \<noteq> CHR 0x00"
    using assms(1) ssid_char_int(2) by (simp_all add: rec_good_def)
  moreover have "is_digit c" if "c \<in> set (dec_of_nat (nat (wire_rtt (rr_rtt r))))"
    using that by (rule dec_of_nat_digits)
  moreover have "SP \<noteq> CHR 0x00" by simp
  ultimately show ?thesis using not_NUL by metis
qed

lemma rec_text_chars: "\<forall>r \<in> set rs. rec_good r \<Longrightarrow> c \<in> set (rec_text rs) \<Longrightarrow> c \<noteq> CHR 0x00"
  by (induction rs rule: rec_text.induct) (auto dest: rec_core_chars)

lemma rec_core_last: "rec_good r \<Longrightarrow> is_digit (last (rec_core r))"
  using dec_of_nat_digits [OF last_in_set [OF dec_of_nat_nonempty]]
  by (simp add: rec_core_def dec_of_wire_rtt dec_of_nat_nonempty)

lemma rec_text_last: "rs \<noteq> [] \<Longrightarrow> \<forall>r \<in> set rs. rec_good r \<Longrightarrow> is_digit (last (rec_text rs)) \<and> rec_text rs \<noteq> []"
proof (induction rs rule: rec_text.induct)
  case 1
  then show ?case by simp
next
  case (2 r)
  then show ?case using rec_core_last [of r] length_rec_core [of r] by auto
next
  case (3 r r' rs)
  then show ?case by auto
qed

lemma length_rec_text: "\<forall>r \<in> set rs. rec_good r \<Longrightarrow> length (rec_text rs) \<le> 14 * length rs"
proof (induction rs rule: rec_text.induct)
  case 1
  then show ?case by simp
next
  case (2 r)
  then show ?case using length_rec_core [of r] by simp
next
  case (3 r r' rs)
  then show ?case using length_rec_core [of r] by auto
qed

lemma records_read_back:
  assumes "rs \<noteq> []" "length rs \<le> 20" "\<forall>r \<in> set rs. rec_good r" "length rs \<le> max_entries"
  shows "flex_parse_compact_records schar (rec_frame rs) max_entries = map rec_entry rs"
proof -
  let ?t = "rec_text rs"
  have t: "?t \<noteq> []" "is_digit (last ?t)" using rec_text_last [OF assms(1,3)] by auto
  have len: "length ?t \<le> 280" using length_rec_text [OF assms(3)] assms(2) by simp
  have four: "\<not> length (rec_frame rs) < 4"
  proof -
    obtain r rs' where "rs = r # rs'" using assms(1) by (cases rs) auto
    then have "length (rec_frame rs) = length (rec_core r) + length (concat (map (\<lambda>r. rec_core r @ [SP]) rs')) + 3"
      by (simp add: rec_frame_def)
    with assms(3) length_rec_core [of r] \<open>rs = r # rs'\<close> show ?thesis by auto
  qed
  have "takeWhile (\<lambda>c. c \<noteq> CHR 0x00) (take 2047 (tl (rec_frame rs))) = ?t @ [SP, CR]"
    using len rec_text_chars [OF assms(3)]
    by (simp add: rec_frame_def concat_rec_text [OF assms(1)] takeWhile_eq_all_conv)
  moreover have "rtrim (\<lambda>c. c = CR \<or> c = LF) (?t @ [SP, CR]) = ?t @ [SP]"
    using rtrim_snoc [of "\<lambda>c. c = CR \<or> c = LF" "?t @ [SP]" CR]
      rtrim_snoc [of "\<lambda>c. c = CR \<or> c = LF" ?t SP] by simp
  moreover have "rtrim (\<lambda>c. c = SP) (?t @ [SP]) = ?t"
    using t by (auto intro: rtrim_last_id)
  ultimately show ?thesis
    using four compact_loop_rec_text [OF assms(3,4)]
    by (simp add: flex_parse_compact_records_def Let_def rec_frame_def)
qed

text \<open>The cost a peer reads: a finite one is carried up to 4095.\<close>

definition carried_rtt :: "int \<Rightarrow> int" where
  "carried_rtt rtt = (if rtt = 60000 then 60000 else min rtt 4095)"

lemma rec_entry_carried:
  "rec_good r \<Longrightarrow> rec_entry r = dest_entry0\<lparr>d_callsign := rr_call r, d_ssid_lo := rr_lo r, d_ssid_hi := rr_hi r,
     d_rtt := carried_rtt (rr_rtt r), d_is_infinity := (rr_rtt r = 60000)\<rparr>"
  by (auto simp: rec_entry_def rec_good_def carried_rtt_def wire_rtt_def rtt_defs)

lemma built_records:
  assumes "\<forall>r \<in> set rs. rec_good r" "\<forall>room \<in> set rooms. 14 < room" "length rooms = length rs"
  shows "map2 (\<lambda>room r. flex_build_route_rec room (rr_call r) (rr_lo r) (rr_hi r) (rr_rtt r)) rooms rs =
    map Some (map (\<lambda>r. rec_core r @ [SP]) rs)"
  using assms(3,1,2)
proof (induction rooms rs rule: list_induct2)
  case (Cons room rooms r rs)
  then show ?case using length_rec_core [of r] by (simp add: build_route_rec_core)
qed simp

text \<open>C8: a record frame is read back by a peer record for record. For one to twenty records with
  callsigns of one to six alphanumerics, SSIDs 0..15 and costs up to infinity, \<open>flex_build_route_rec\<close>
  builds every record that has room for 14 characters and the NUL, and of the frame of these records the
  compact record parser returns the same callsigns, ranges and costs, in order (finite costs above 4095 as
  4095), on platforms with signed and with unsigned characters alike.\<close>

theorem compact_frame_roundtrip:
  assumes "rs \<noteq> []" "length rs \<le> 20" "\<forall>r \<in> set rs. rec_good r" "length rs \<le> max_entries"
    and "length rooms = length rs" "\<forall>room \<in> set rooms. 14 < room"
  shows "\<exists>ts. map2 (\<lambda>room r. flex_build_route_rec room (rr_call r) (rr_lo r) (rr_hi r) (rr_rtt r)) rooms rs = map Some ts \<and>
    flex_parse_compact_records schar (CHR ''3'' # concat ts @ [CR]) max_entries =
      map (\<lambda>r. dest_entry0\<lparr>d_callsign := rr_call r, d_ssid_lo := rr_lo r, d_ssid_hi := rr_hi r,
        d_rtt := carried_rtt (rr_rtt r), d_is_infinity := (rr_rtt r = 60000)\<rparr>) rs"
proof (intro exI conjI)
  show "map2 (\<lambda>room r. flex_build_route_rec room (rr_call r) (rr_lo r) (rr_hi r) (rr_rtt r)) rooms rs =
      map Some (map (\<lambda>r. rec_core r @ [SP]) rs)"
    by (rule built_records [OF assms(3,6,5)])
  show "flex_parse_compact_records schar (CHR ''3'' # concat (map (\<lambda>r. rec_core r @ [SP]) rs) @ [CR]) max_entries =
      map (\<lambda>r. dest_entry0\<lparr>d_callsign := rr_call r, d_ssid_lo := rr_lo r, d_ssid_hi := rr_hi r,
        d_rtt := carried_rtt (rr_rtt r), d_is_infinity := (rr_rtt r = 60000)\<rparr>) rs"
    using records_read_back [OF assms(1-4), of schar] assms(3) by (simp add: rec_frame_def rec_entry_carried)
qed

theorem compact_frame_roundtrip_witness:
  "\<exists>ts. map2 (\<lambda>room r. flex_build_route_rec room (rr_call r) (rr_lo r) (rr_hi r) (rr_rtt r)) [199, 189]
      [\<lparr>rr_call = ''IR2UFV'', rr_lo = 0, rr_hi = 8, rr_rtt = 5000\<rparr>, \<lparr>rr_call = ''DB0FAA'', rr_lo = 0, rr_hi = 15, rr_rtt = 60000\<rparr>] =
      map Some ts \<and>
    flex_parse_compact_records True (CHR ''3'' # concat ts @ [CR]) 2 =
      [dest_entry0\<lparr>d_callsign := ''IR2UFV'', d_ssid_lo := 0, d_ssid_hi := 8, d_rtt := 4095, d_is_infinity := False\<rparr>,
       dest_entry0\<lparr>d_callsign := ''DB0FAA'', d_ssid_lo := 0, d_ssid_hi := 15, d_rtt := 60000, d_is_infinity := True\<rparr>]"
proof -
  let ?rs = "[\<lparr>rr_call = ''IR2UFV'', rr_lo = 0, rr_hi = 8, rr_rtt = 5000\<rparr>, \<lparr>rr_call = ''DB0FAA'', rr_lo = 0, rr_hi = 15, rr_rtt = 60000\<rparr>]"
  have "\<forall>r \<in> set ?rs. rec_good r" by (simp add: rec_good_def is_alnum_def is_digit_def is_upper_def rtt_defs)
  from compact_frame_roundtrip [OF _ _ this, of 2 "[199, 189]" True] show ?thesis by (simp add: carried_rtt_def)
qed

text \<open>What the parser guarantees of any received frame.\<close>

definition entry_sane :: "dest_entry \<Rightarrow> bool" where
  "entry_sane d \<longleftrightarrow> d_callsign d \<noteq> [] \<and> length (d_callsign d) \<le> 6 \<and>
     0 \<le> d_ssid_lo d \<and> d_ssid_lo d \<le> 15 \<and> 0 \<le> d_ssid_hi d \<and> d_ssid_hi d \<le> 15 \<and>
     0 \<le> d_rtt d \<and> d_rtt d < 1000000 \<and>
     (d_is_infinity d \<longleftrightarrow> d_rtt d \<ge> FLEXNET_RTT_INFINITY)"

lemma digit_val_le: "is_digit c \<Longrightarrow> digit_val c \<le> 9"
  unfolding is_digit_def digit_val_def by linarith

lemma digits_val_bound: "\<forall>c \<in> set ds. is_digit c \<Longrightarrow> digits_val ds < 10 ^ length ds"
proof (induction ds rule: rev_induct)
  case Nil
  then show ?case by (simp add: digits_val_def)
next
  case (snoc c ds)
  then have "digits_val ds * 10 + digit_val c < 10 ^ length ds * 10"
    using digit_val_le [of c] by (simp add: algebra_simps)
  then show ?case by (simp add: digits_val_snoc)
qed

lemma digits_val_take6: "digits_val (takeWhile is_digit (take 6 r)) < 1000000"
proof -
  let ?ds = "takeWhile is_digit (take 6 r)"
  have "length ?ds \<le> 6" using length_takeWhile_le [of is_digit "take 6 r"] by simp
  moreover have "digits_val ?ds < 10 ^ length ?ds"
    by (rule digits_val_bound) (auto dest: set_takeWhileD)
  moreover have "(10::nat) ^ length ?ds \<le> 10 ^ 6" using \<open>length ?ds \<le> 6\<close> by (rule power_increasing) simp
  ultimately show ?thesis by simp
qed

lemma compact_entry_sane:
  assumes "filter (\<lambda>c. c \<noteq> SP) (take 6 q) \<noteq> []"
  shows "entry_sane (compact_entry schar w q)"
proof -
  have "length (filter (\<lambda>c. c \<noteq> SP) (take 6 q)) \<le> 6"
    using length_filter_le [of "\<lambda>c. c \<noteq> SP" "take 6 q"] by simp
  moreover have "int (digits_val (compact_digits q)) < 1000000"
    using digits_val_take6 [of "drop 8 q"] by (simp add: compact_digits_def)
  ultimately show ?thesis
    using assms
    by (simp add: entry_sane_def compact_entry_def dest_entry0_def clamp_ssid_def Let_def
        FLEXNET_RTT_INFINITY_def)
qed

lemma compact_loop_sane: "d \<in> set (compact_loop schar w n p) \<Longrightarrow> entry_sane d"
proof (induction n arbitrary: p)
  case 0
  then show ?case by simp
next
  case (Suc n)
  from Suc.prems have "(\<exists>q. filter (\<lambda>c. c \<noteq> SP) (take 6 q) \<noteq> [] \<and> d = compact_entry schar w q) \<or>
      (\<exists>q. d \<in> set (compact_loop schar w n q))"
    unfolding compact_loop.simps Let_def by (auto simp del: filter_empty_conv split: if_splits)
  then show ?case using compact_entry_sane Suc.IH by blast
qed

lemma length_compact_loop: "length (compact_loop schar w n p) \<le> n"
  by (induction n arbitrary: p) (auto simp: Let_def)

lemma parsed_entries_sane:
  "length (flex_parse_compact_records schar data n) \<le> n \<and>
   list_all entry_sane (flex_parse_compact_records schar data n)"
  using length_compact_loop compact_loop_sane
  by (auto simp: flex_parse_compact_records_def Let_def list_all_iff)

text \<open>Whatever bytes a peer sends, the compact record parser returns at most the entries asked
  for, each with a callsign of one to six characters, SSIDs within 0..15, a cost below one million
  and the infinity mark exactly on costs of 60000 and more.\<close>

theorem compact_parser_robust:
  "length (flex_parse_compact_records schar data n) \<le> n \<and>
   list_all entry_sane (flex_parse_compact_records schar data n)"
  by (rule parsed_entries_sane)

section \<open>The node's own frame\<close>

definition FLEXNET_MAX_LOCAL_CALLS :: nat where "FLEXNET_MAX_LOCAL_CALLS = 16"
definition FLEXNET_ADVERT_FRAME_BYTES :: nat where "FLEXNET_ADVERT_FRAME_BYTES = 200"

definition local_rec :: "local_call \<Rightarrow> route_rec" where
  "local_rec l = \<lparr>rr_call = lc_base l, rr_lo = lc_ssid l, rr_hi = lc_ssid l, rr_rtt = 1\<rparr>"

definition bound_locals :: "local_call list \<Rightarrow> local_call list" where
  "bound_locals ls = filter (\<lambda>l. lc_state l = LOCAL_BOUND) ls"

lemma rec_core_rtt1: "rr_rtt r = 1 \<Longrightarrow> length (rec_core r) = 9"
  by (simp add: rec_core_def wire_rtt_def rtt_defs dec_of_int_def dec_of_nat.simps)

lemma own_frame_locals_spec:
  "int (length buf) + 10 * int (length (bound_locals ls)) + 1 < buflen \<Longrightarrow>
   own_frame_locals buflen buf ls =
     Some (buf @ concat (map (\<lambda>l. rec_core (local_rec l) @ [SP]) (bound_locals ls)))"
proof (induction ls arbitrary: buf)
  case Nil
  then show ?case by (simp add: bound_locals_def)
next
  case (Cons l ls)
  show ?case
  proof (cases "lc_state l = LOCAL_BOUND")
    case False
    with Cons show ?thesis by (simp add: bound_locals_def)
  next
    case True
    have len: "length (rec_core (local_rec l)) = 9" by (rule rec_core_rtt1) (simp add: local_rec_def)
    have "flex_build_route_rec (buflen - int (length buf) - 1) (lc_base l) (lc_ssid l) (lc_ssid l) 1 =
        Some (rec_core (local_rec l) @ [SP])"
      using build_route_rec_core [of "buflen - int (length buf) - 1" "local_rec l"] Cons.prems True len
      by (simp add: local_rec_def bound_locals_def)
    moreover have "own_frame_locals buflen (buf @ rec_core (local_rec l) @ [SP]) ls =
        Some ((buf @ rec_core (local_rec l) @ [SP]) @
              concat (map (\<lambda>l. rec_core (local_rec l) @ [SP]) (bound_locals ls)))"
      using Cons.prems True len by (intro Cons.IH) (simp add: bound_locals_def)
    ultimately show ?thesis using True by (simp add: bound_locals_def)
  qed
qed

text \<open>the node's own advertisement always fits one frame. With any table of at most 16 local
  calls the frame is built into 200 bytes, and a peer reads from it exactly the node record followed
  by one record at cost 1 for every advertised local call, in table order, and nothing else.\<close>

theorem own_frame_complete:
  assumes "length locals \<le> FLEXNET_MAX_LOCAL_CALLS"
    and "rec_good \<lparr>rr_call = base, rr_lo = lo, rr_hi = hi, rr_rtt = 1\<rparr>"
    and "\<forall>l \<in> set locals. rec_good (local_rec l)"
  shows "\<exists>fr. flex_build_own_frame (int FLEXNET_ADVERT_FRAME_BYTES) base lo hi locals = Some fr \<and>
    length fr \<le> FLEXNET_ADVERT_FRAME_BYTES \<and>
    flex_parse_compact_records schar fr 17 =
      map rec_entry (\<lparr>rr_call = base, rr_lo = lo, rr_hi = hi, rr_rtt = 1\<rparr>
                     # map local_rec (bound_locals locals))"
proof -
  let ?r = "\<lparr>rr_call = base, rr_lo = lo, rr_hi = hi, rr_rtt = 1\<rparr>"
  let ?bs = "bound_locals locals"
  have nb: "length ?bs \<le> 16"
    unfolding bound_locals_def
    using assms(1) by (intro order_trans [OF length_filter_le]) (simp add: FLEXNET_MAX_LOCAL_CALLS_def)
  have len: "length (rec_core ?r) = 9" by (rule rec_core_rtt1) simp
  have own: "flex_build_route_rec (200 - 1 - 1) base lo hi 1 = Some (rec_core ?r @ [SP])"
    using build_route_rec_core [of 198 ?r] len by simp
  have frame: "flex_build_own_frame (int FLEXNET_ADVERT_FRAME_BYTES) base lo hi locals =
      Some (rec_frame (?r # map local_rec ?bs))"
    using own_frame_locals_spec [of "CHR ''3'' # rec_core ?r @ [SP]" locals 200] nb len own
    by (simp add: flex_build_own_frame_def FLEXNET_ADVERT_FRAME_BYTES_def rec_frame_def o_def)
  have "length (concat (map (\<lambda>r. rec_core r @ [SP]) (map local_rec ?bs))) = 10 * length ?bs"
    by (induction ?bs) (auto simp: length_concat o_def rec_core_rtt1 local_rec_def sum_list_triv)
  then have "length (rec_frame (?r # map local_rec ?bs)) \<le> 200"
    using nb len by (simp add: rec_frame_def)
  moreover have "\<forall>r \<in> set (?r # map local_rec ?bs). rec_good r"
    using assms(2,3) by (auto simp: bound_locals_def)
  ultimately show ?thesis
    using records_read_back [of "?r # map local_rec ?bs" 17 schar] nb frame
    by (auto simp: FLEXNET_ADVERT_FRAME_BYTES_def)
qed

theorem own_frame_complete_witness:
  "\<exists>fr. flex_build_own_frame (int FLEXNET_ADVERT_FRAME_BYTES) ''IR2UFV'' 0 8
      [\<lparr>lc_base = ''SR4BBX'', lc_ssid = 3, lc_from_apps = False, lc_state = LOCAL_BOUND, lc_ext_port = 0\<rparr>,
       \<lparr>lc_base = ''SR4DXC'', lc_ssid = 0, lc_from_apps = True, lc_state = LOCAL_UNBOUND, lc_ext_port = 0\<rparr>] = Some fr \<and>
    length fr \<le> FLEXNET_ADVERT_FRAME_BYTES \<and>
    flex_parse_compact_records False fr 17 =
      map rec_entry (\<lparr>rr_call = ''IR2UFV'', rr_lo = 0, rr_hi = 8, rr_rtt = 1\<rparr> # map local_rec (bound_locals
      [\<lparr>lc_base = ''SR4BBX'', lc_ssid = 3, lc_from_apps = False, lc_state = LOCAL_BOUND, lc_ext_port = 0\<rparr>,
       \<lparr>lc_base = ''SR4DXC'', lc_ssid = 0, lc_from_apps = True, lc_state = LOCAL_UNBOUND, lc_ext_port = 0\<rparr>]))"
  by (rule own_frame_complete)
    (simp_all add: FLEXNET_MAX_LOCAL_CALLS_def rec_good_def local_rec_def is_alnum_def is_digit_def
      is_upper_def rtt_defs)

section \<open>Frames we build are classified as what they are\<close>

lemma digit_char_eq_0: "n < 10 \<Longrightarrow> digit_char n = CHR ''0'' \<Longrightarrow> n = 0"
  using digit_char_simps(2) [of n] by (simp add: digit_val_def)

lemma link_time_classified:
  assumes "1 \<le> v" "v \<le> 4095"
  shows "\<exists>fr. flex_build_link_time 16 v = Some fr \<and>
    flex_parse_ce_frame lt3 fr = Some (if lt3 \<or> 10 \<le> v then CE_LINK_TIME else CE_STATUS_1N)"
proof (cases "v < 10")
  case True
  then have d: "dec_of_int v = [digit_char (nat v)]"
    using assms by (simp add: dec_of_int_def dec_of_nat.simps)
  have "nat v < 10" "nat v \<noteq> 0" using True assms by auto
  then have "is_digit (digit_char (nat v))" by simp
  moreover have "digit_char (nat v) \<noteq> CHR ''0''"
    using digit_char_eq_0 [of "nat v"] \<open>nat v < 10\<close> \<open>nat v \<noteq> 0\<close> by metis
  moreover note \<open>nat v < 10\<close>
  ultimately have "is_digit (digit_char (nat v))" "digit_char (nat v) \<noteq> CHR ''0''" by blast+
  then show ?thesis using True
    by (simp add: flex_build_link_time_def d flex_parse_ce_frame_def)
next
  case False
  have "length (dec_of_nat (nat v)) \<le> 4"
    by (rule length_dec_of_nat_le) (use assms in \<open>simp_all add: nat_less_iff\<close>)
  moreover have "length (dec_of_nat (nat v)) \<ge> 2"
    using False dec_of_nat_nonempty [of "nat v div 10"]
    by (subst dec_of_nat.simps) (auto simp: Suc_le_eq)
  ultimately show ?thesis using False assms
    by (simp add: flex_build_link_time_def dec_of_int_def flex_parse_ce_frame_def Let_def numeral_eq_Suc)
qed

section \<open>Path frames\<close>

lemma length_qso_field [simp]: "length (qso_field qso trace) = 5"
proof -
  let ?n = "nat ((if qso < 0 then 0 else qso) mod 100000)"
  have "?n < 10 ^ 5" by (simp add: nat_less_iff)
  then have "length (dec_of_nat ?n) \<le> 5" by (rule length_dec_of_nat_le) simp
  then have l: "length (lpad 5 (dec_of_nat ?n)) = 5" by (simp add: lpad_def)
  then obtain a as where "lpad 5 (dec_of_nat ?n) = a # as" by (cases "lpad 5 (dec_of_nat ?n)") auto
  with l show ?thesis by (simp add: qso_field_def Let_def)
qed

lemma trace_bit_low:
  assumes "32 \<le> (of_char c :: nat)" "(of_char c :: nat) < 64"
  shows "clear_trace_bit (set_trace_bit c) = c" "has_trace_bit (set_trace_bit c)"
    "\<not> has_trace_bit c" "clear_trace_bit c = c"
proof -
  have d: "(of_char c :: nat) div 64 = 0" using assms by simp
  have d2: "(of_char c + 64 :: nat) div 64 = 1" "(of_char c + 64 :: nat) < 256" using assms by auto
  have s: "set_trace_bit c = char_of (of_char c + 64 :: nat)" using d by (simp add: set_trace_bit_def)
  have o: "(of_char (set_trace_bit c) :: nat) = of_char c + 64" using d2 by (simp add: s of_char_of)
  show "clear_trace_bit (set_trace_bit c) = c" using o d2 by (simp add: clear_trace_bit_def)
  show "has_trace_bit (set_trace_bit c)" using o d2 by (simp add: has_trace_bit_def)
  show "\<not> has_trace_bit c" "clear_trace_bit c = c" using d by (simp_all add: has_trace_bit_def clear_trace_bit_def)
qed

lemma parse_qso_lpad: "parse_qso (lpad k (dec_of_nat n)) = n"
proof -
  have m: "map (\<lambda>c. if is_digit c then c else SP) (lpad k (dec_of_nat n)) = lpad k (dec_of_nat n)"
    by (auto simp: lpad_def dec_of_nat_digits intro!: map_idI)
  have "hd (dec_of_nat n) \<noteq> SP"
    using dec_of_nat_digits [OF hd_in_set [OF dec_of_nat_nonempty [of n]]] by auto
  then have "dropWhile (\<lambda>c. c = SP) (lpad k (dec_of_nat n)) = dec_of_nat n"
    using dec_of_nat_nonempty [of n] by (cases "dec_of_nat n") (auto simp: lpad_def dropWhile_append)
  then show ?thesis
    by (simp add: parse_qso_def m dec_of_nat_all_digits digits_val_dec_of_nat)
qed

lemma qso_field_read:
  assumes "0 \<le> qso" "qso < 100000"
  shows "int (parse_qso (clear_trace_bit (hd (qso_field qso trace)) # tl (qso_field qso trace))) = qso"
    and "has_trace_bit (hd (qso_field qso trace)) = trace"
proof -
  let ?f = "lpad 5 (dec_of_nat (nat qso))"
  have q: "qso_field qso trace = (if trace then set_trace_bit (hd ?f) # tl ?f else ?f)"
    using assms by (simp add: qso_field_def Let_def)
  have ne: "?f \<noteq> []" by (simp add: lpad_def dec_of_nat_nonempty)
  then have "hd ?f \<in> set ?f" by simp
  then have "hd ?f = SP \<or> is_digit (hd ?f)" by (auto simp: lpad_def dec_of_nat_digits)
  then have "32 \<le> (of_char (hd ?f) :: nat) \<and> (of_char (hd ?f) :: nat) < 64"
    by (auto simp: is_digit_def)
  note t = trace_bit_low [OF conjunct1 [OF this] conjunct2 [OF this]]
  show "int (parse_qso (clear_trace_bit (hd (qso_field qso trace)) # tl (qso_field qso trace))) = qso"
    using assms ne by (simp add: q t parse_qso_lpad)
  show "has_trace_bit (hd (qso_field qso trace)) = trace" by (simp add: q t)
qed

text \<open>A callsign that fits \<open>char[10]\<close> and has none of the separators.\<close>

definition call_ok :: "string \<Rightarrow> bool" where
  "call_ok h \<longleftrightarrow> h \<noteq> [] \<and> length h \<le> 9 \<and> (\<forall>c \<in> set h. c \<noteq> SP \<and> c \<noteq> CR \<and> c \<noteq> CHR 0x00)"

fun join_sp :: "string list \<Rightarrow> string" where
  "join_sp [] = []"
| "join_sp [h] = h"
| "join_sp (h # hs) = h @ SP # join_sp hs"

lemma path_calls_step:
  assumes "call_ok h" "rest = [] \<or> hd rest = SP"
  shows "path_calls (Suc n) (h @ rest) = h # path_calls n rest"
proof -
  have "dropWhile (\<lambda>c. c = SP) (h @ rest) = h @ rest"
    using assms(1) by (cases h) (auto simp: call_ok_def)
  moreover have "takeWhile (\<lambda>c. c \<noteq> SP \<and> c \<noteq> CR \<and> c \<noteq> CHR 0x00) (h @ rest) = h"
    using assms by (cases rest) (auto simp: call_ok_def takeWhile_append takeWhile_eq_all_conv)
  ultimately show ?thesis using assms(1) by (simp add: call_ok_def)
qed

lemma path_calls_skip: "path_calls n (SP # s) = path_calls n s"
  by (cases n) simp_all

lemma path_calls_join:
  "\<forall>h \<in> set hs. call_ok h \<Longrightarrow> length hs \<le> n \<Longrightarrow> path_calls n (join_sp hs) = hs"
proof (induction hs arbitrary: n rule: join_sp.induct)
  case 1
  then show ?case by (cases n) simp_all
next
  case (2 h)
  then obtain m where n: "n = Suc m" by (cases n) auto
  have "path_calls m [] = []" by (cases m) simp_all
  with path_calls_step [of h "[]" m] 2 n show ?case by simp
next
  case (3 h h' hs)
  then obtain m where n: "n = Suc m" by (cases n) auto
  have "path_calls m (join_sp (h' # hs)) = h' # hs" using 3 n by simp
  with path_calls_step [of h "SP # join_sp (h' # hs)" m] 3 n show ?case
    by (simp add: path_calls_skip del: path_calls.simps)
qed

lemma path_rep_hops_join:
  assumes "\<forall>h \<in> set hs. h \<noteq> []" "path_rep_hops buflen buf i hs = Some out"
  shows "out = buf @ (if i = 0 then join_sp hs else concat (map (\<lambda>h. SP # h) hs))"
  using assms
proof (induction hs arbitrary: buf i)
  case Nil
  then show ?case by simp
next
  case (Cons h hs)
  have j: "h @ concat (map (\<lambda>h. SP # h) hs) = join_sp (h # hs)" for h hs
  proof (induction hs arbitrary: h)
    case Nil
    then show ?case by simp
  next
    case (Cons a hs)
    have "join_sp (h # a # hs) = h @ SP # join_sp (a # hs)" by simp
    also have "\<dots> = h @ SP # (a @ concat (map (\<lambda>h. SP # h) hs))" by (simp only: Cons.IH)
    finally show ?case by simp
  qed
  from Cons.prems have "out = (buf @ (if i > 0 then [SP] else []) @ h) @ concat (map (\<lambda>h. SP # h) hs)"
    using Cons.IH [of "buf @ (if i > 0 then [SP] else []) @ h" "Suc i"] by (auto split: if_splits)
  then show ?case using j [of h hs] by auto
qed

lemma path_rep_hops_prefix:
  "path_rep_hops buflen buf i hs = Some out \<Longrightarrow> \<exists>t. out = buf @ t"
proof (induction hs arbitrary: buf i)
  case Nil
  then show ?case by simp
next
  case (Cons h hs)
  show ?case
  proof (cases "h = []")
    case True
    then show ?thesis using Cons by (auto split: if_splits)
  next
    case False
    then obtain s where "path_rep_hops buflen (buf @ s @ h) (Suc i) hs = Some out"
      using Cons.prems by (auto split: if_splits)
    from Cons.IH [OF this] show ?thesis by auto
  qed
qed

lemma build_path_rep_bytes:
  assumes "flex_build_path_rep buflen qso trace hops = Some fr" "\<forall>h \<in> set hops. h \<noteq> []"
  shows "fr = CHR ''7'' # char_of (0x20 + length hops) # qso_field qso trace @ join_sp hops"
    and "1 \<le> length hops" "length hops \<le> 16"
proof -
  let ?b = "CHR ''7'' # char_of (0x20 + length hops) # qso_field qso trace"
  have p: "path_rep_hops buflen ?b 0 hops = Some fr" "hops \<noteq> []" "length hops \<le> 16"
    using assms(1) by (auto simp: flex_build_path_rep_def FLEXNET_MAX_PATH_HOPS_def split: if_splits)
  show "fr = CHR ''7'' # char_of (0x20 + length hops) # qso_field qso trace @ join_sp hops"
    using path_rep_hops_join [OF assms(2) p(1)] by simp
  show "1 \<le> length hops" "length hops \<le> 16" using p by (auto simp: Suc_le_eq)
qed

lemma list5E:
  assumes "length xs = 5"
  obtains a b c d e where "xs = [a, b, c, d, e]"
  using assms by (auto simp: length_Suc_conv eval_nat_numeral)

lemma parse_path_bytes:
  assumes "k \<in> {CHR ''6'', CHR ''7''}" "length f = 5"
  shows "flex_parse_path_frame (k # hb # f @ body) =
    (let calls = path_calls 17 body in
     Some \<lparr>pf_is_reply = (k = CHR ''7''), pf_qso = int (parse_qso (clear_trace_bit (hd f) # tl f)),
       pf_trace = has_trace_bit (hd f), pf_hop_count = max 0 (int (of_char hb) - 0x20),
       pf_origin = (case calls of [] \<Rightarrow> '''' | c # _ \<Rightarrow> c),
       pf_hops = (case calls of [] \<Rightarrow> [] | _ # cs \<Rightarrow> cs)\<rparr>)"
proof -
  obtain a b c d e where f: "f = [a, b, c, d, e]" using list5E [OF assms(2)] .
  show ?thesis using assms(1)
    by (auto simp: flex_parse_path_frame_def f FLEXNET_MAX_PATH_HOPS_def Let_def simp del: path_calls.simps)
qed

lemma classify_path_head:
  assumes "k = CHR ''6'' \<or> k = CHR ''7''"
  shows "flex_parse_ce_frame lt3 (k # hb # qso_field qso trace @ t) =
    Some (if k = CHR ''6'' then CE_PATH_REQ else CE_PATH_REP)"
proof -
  obtain a b c d e where "qso_field qso trace = [a, b, c, d, e]"
    using list5E [OF length_qso_field] .
  then show ?thesis using assms by (auto simp: flex_parse_ce_frame_def Let_def)
qed

text \<open>C14: path frames survive the wire. A path reply built from one to sixteen callsigns is parsed
  as a reply with the same QSO number and trace flag, the first callsign as origin, the others as
  hops in order and the right hop count; a path request is parsed as the origin followed by the next
  hop and the target.\<close>

theorem path_frames_roundtrip:
  assumes "0 \<le> qso" "qso < 100000" "\<forall>h \<in> set hops. call_ok h"
    and "flex_build_path_rep buflen qso trace hops = Some rep"
    and "call_ok origin" "call_ok nxt" "call_ok target"
    and "flex_build_path_req buflen qso trace origin nxt target = Some req"
  shows "flex_parse_path_frame rep = Some \<lparr>pf_is_reply = True, pf_qso = qso, pf_trace = trace,
      pf_hop_count = int (length hops), pf_origin = hd hops, pf_hops = tl hops\<rparr> \<and>
    flex_parse_path_frame req = Some \<lparr>pf_is_reply = False, pf_qso = qso, pf_trace = trace,
      pf_hop_count = 1, pf_origin = origin, pf_hops = [nxt, target]\<rparr>"
proof
  have ne: "\<forall>h \<in> set hops. h \<noteq> []" using assms(3) by (auto simp: call_ok_def)
  note rep = build_path_rep_bytes [OF assms(4) ne]
  have calls: "path_calls 17 (join_sp hops) = hops"
    by (rule path_calls_join) (use assms(3) rep in auto)
  have "hops \<noteq> []" using rep(2) by auto
  then have "(case hops of [] \<Rightarrow> '''' | c # _ \<Rightarrow> c) = hd hops"
    "(case hops of [] \<Rightarrow> [] | _ # cs \<Rightarrow> cs) = tl hops" by (cases hops; simp)+
  then show "flex_parse_path_frame rep = Some \<lparr>pf_is_reply = True, pf_qso = qso, pf_trace = trace,
      pf_hop_count = int (length hops), pf_origin = hd hops, pf_hops = tl hops\<rparr>"
    using rep(3) by (simp add: rep(1) parse_path_bytes calls
        qso_field_read [OF assms(1,2)] of_char_of Let_def del: path_calls.simps)
next
  have body: "path_calls 17 (origin @ SP # nxt @ SP # target) = [origin, nxt, target]"
    using path_calls_join [of "[origin, nxt, target]" 17] assms(5-7) by simp
  have req: "req = CHR ''6'' # CHR 0x21 # qso_field qso trace @ origin @ SP # nxt @ SP # target"
    using assms(8) by (auto simp: flex_build_path_req_def Let_def split: if_splits)
  show "flex_parse_path_frame req = Some \<lparr>pf_is_reply = False, pf_qso = qso, pf_trace = trace,
      pf_hop_count = 1, pf_origin = origin, pf_hops = [nxt, target]\<rparr>"
    by (simp add: req parse_path_bytes body qso_field_read [OF assms(1,2)] del: path_calls.simps)
qed

theorem path_frames_roundtrip_witness:
  "flex_parse_path_frame (CHR ''7'' # char_of (0x22 :: nat) # qso_field 7 True @ ''A1A B1B'') =
     Some \<lparr>pf_is_reply = True, pf_qso = 7, pf_trace = True,
      pf_hop_count = int (length [''A1A'', ''B1B'']), pf_origin = hd [''A1A'', ''B1B''],
      pf_hops = tl [''A1A'', ''B1B'']\<rparr> \<and>
   flex_parse_path_frame (CHR ''6'' # CHR 0x21 # qso_field 7 True @ ''A1A'' @ SP # ''B1B'' @ SP # ''C1C'') =
     Some \<lparr>pf_is_reply = False, pf_qso = 7, pf_trace = True,
      pf_hop_count = 1, pf_origin = ''A1A'', pf_hops = [''B1B'', ''C1C'']\<rparr>"
proof (rule path_frames_roundtrip)
  show "flex_build_path_req 256 7 True ''A1A'' ''B1B'' ''C1C'' =
      Some (CHR ''6'' # CHR 0x21 # qso_field 7 True @ ''A1A'' @ SP # ''B1B'' @ SP # ''C1C'')"
    by (simp add: flex_build_path_req_def)
  show "flex_build_path_rep 256 7 True [''A1A'', ''B1B''] =
      Some (CHR ''7'' # char_of (0x22 :: nat) # qso_field 7 True @ ''A1A B1B'')"
    by (simp add: flex_build_path_rep_def FLEXNET_MAX_PATH_HOPS_def)
qed (simp_all add: call_ok_def)

section \<open>Classification\<close>

text \<open>the classifier recognises every frame this node sends: keepalive, init, link time, record
  frames and path frames. A link time of one digit is the exception that the FLEXNETLT3BYTE directive
  is about: without it such a frame is taken for a status frame.\<close>

theorem classifier_recognises_own_frames:
  assumes "1 \<le> v" "v \<le> 4095" "0 \<le> m" "m \<le> 15" "rs \<noteq> []" "\<forall>r \<in> set rs. rec_good r"
    and "flex_build_path_req buflen qso trace origin nxt target = Some req"
    and "flex_build_path_rep buflen qso trace hops = Some rep"
  shows "map_option (flex_parse_ce_frame lt3) (flex_build_keepalive 241) = Some (Some CE_KEEPALIVE) \<and>
    map_option (flex_parse_ce_frame lt3) (flex_build_init 8 m) = Some (Some CE_INIT) \<and>
    map_option (flex_parse_ce_frame lt3) (flex_build_link_time 16 v) =
       Some (Some (if lt3 \<or> 10 \<le> v then CE_LINK_TIME else CE_STATUS_1N)) \<and>
    flex_parse_ce_frame lt3 (rec_frame rs) = Some CE_COMPACT \<and>
    flex_parse_ce_frame lt3 req = Some CE_PATH_REQ \<and>
    flex_parse_ce_frame lt3 rep = Some CE_PATH_REP"
proof (intro conjI)
  show "map_option (flex_parse_ce_frame lt3) (flex_build_keepalive 241) = Some (Some CE_KEEPALIVE)"
    by (simp add: flex_build_keepalive_def FLEXNET_KEEPALIVE_LEN_def flex_parse_ce_frame_def numeral_eq_Suc)
  show "map_option (flex_parse_ce_frame lt3) (flex_build_init 8 m) = Some (Some CE_INIT)"
    by (simp add: flex_build_init_def flex_parse_ce_frame_def Let_def)
  show "map_option (flex_parse_ce_frame lt3) (flex_build_link_time 16 v) =
       Some (Some (if lt3 \<or> 10 \<le> v then CE_LINK_TIME else CE_STATUS_1N))"
    using link_time_classified [OF assms(1,2)] by auto
  obtain r rs' where r: "rs = r # rs'" using assms(5) by (cases rs) auto
  then have "9 \<le> length (rec_core r)" using assms(6) length_rec_core by simp
  then obtain a b c d where "rec_core r = a # b # c # d"
    by (auto simp: numeral_eq_Suc Suc_le_length_iff)
  then show "flex_parse_ce_frame lt3 (rec_frame rs) = Some CE_COMPACT"
    by (simp add: r rec_frame_def flex_parse_ce_frame_def Let_def)
  have "req = CHR ''6'' # CHR 0x21 # qso_field qso trace @ origin @ SP # nxt @ SP # target"
    using assms(7) by (simp add: flex_build_path_req_def Let_def split: if_splits)
  then show "flex_parse_ce_frame lt3 req = Some CE_PATH_REQ" by (simp add: classify_path_head)
  have "path_rep_hops buflen (CHR ''7'' # char_of (0x20 + length hops) # qso_field qso trace) 0 hops = Some rep"
    using assms(8) by (simp add: flex_build_path_rep_def split: if_splits)
  from path_rep_hops_prefix [OF this] obtain hb t where "rep = CHR ''7'' # hb # qso_field qso trace @ t"
    by auto
  then show "flex_parse_ce_frame lt3 rep = Some CE_PATH_REP" by (simp add: classify_path_head)
qed

theorem classifier_recognises_own_frames_witness:
  "map_option (flex_parse_ce_frame False) (flex_build_keepalive 241) = Some (Some CE_KEEPALIVE) \<and>
   map_option (flex_parse_ce_frame False) (flex_build_init 8 3) = Some (Some CE_INIT) \<and>
   map_option (flex_parse_ce_frame False) (flex_build_link_time 16 7) =
      Some (Some (if False \<or> (10::int) \<le> 7 then CE_LINK_TIME else CE_STATUS_1N)) \<and>
   flex_parse_ce_frame False (rec_frame [\<lparr>rr_call = ''IR2UFV'', rr_lo = 0, rr_hi = 8, rr_rtt = 1\<rparr>]) =
      Some CE_COMPACT \<and>
   flex_parse_ce_frame False (CHR ''6'' # CHR 0x21 # qso_field 7 True @ ''A1A'' @ SP # ''B1B'' @ SP # ''C1C'')
      = Some CE_PATH_REQ \<and>
   flex_parse_ce_frame False (CHR ''7'' # char_of (0x22 :: nat) # qso_field 7 True @ ''A1A B1B'') =
      Some CE_PATH_REP"
proof (rule classifier_recognises_own_frames)
  show "flex_build_path_req 256 7 True ''A1A'' ''B1B'' ''C1C'' =
      Some (CHR ''6'' # CHR 0x21 # qso_field 7 True @ ''A1A'' @ SP # ''B1B'' @ SP # ''C1C'')"
    by (simp add: flex_build_path_req_def)
  show "flex_build_path_rep 256 7 True [''A1A'', ''B1B''] =
      Some (CHR ''7'' # char_of (0x22 :: nat) # qso_field 7 True @ ''A1A B1B'')"
    by (simp add: flex_build_path_rep_def FLEXNET_MAX_PATH_HOPS_def)
qed (simp_all add: rec_good_def is_alnum_def is_digit_def is_upper_def rtt_defs)

end
