(* ===== verification/Flex_Config.thy ===== *)
theory Flex_Config
  imports Flex_CE
begin

text \<open>
  Configuration of the node (FlexNetCode.c): callsigns and SSID ranges, the stations advertised
  beside the node call (FLEXNETLOCAL, FLEXNETLOCALAPPS, FLEXNETEXTERNAL), the on/off directives,
  the FLEXNET and FLEXNETLINK lines of the PORT blocks, and the pass over bpq32.cfg that reads them.
  A line is the text \<open>fgets\<close> yields, without the terminating NUL. \<open>conv\<close> stands for
  LinBPQ's \<open>ConvFromAX25\<close> and \<open>conv_to\<close> for \<open>ConvToAX25\<close>, which are not part
  of this repository.
\<close>

section \<open>State\<close>

definition FLEXNET_MAX_CALLSIGN :: nat where "FLEXNET_MAX_CALLSIGN = 10"
definition FLEXNET_LOCAL_BASE_MAX :: nat where "FLEXNET_LOCAL_BASE_MAX = 6"
definition FLEXNET_MAX_PORT_LINKS :: nat where "FLEXNET_MAX_PORT_LINKS = 16"
definition FLEXNET_MAX_FLEX_PORTS :: nat where "FLEXNET_MAX_FLEX_PORTS = 16"
definition FLEXNET_PORTLINK_FIRST :: int where "FLEXNET_PORTLINK_FIRST = 5"
definition FLEX_HW_ASYNC :: int where "FLEX_HW_ASYNC = 0"
definition FLEX_HW_I2C :: int where "FLEX_HW_I2C = 22"

record port_link =
  pl_port :: int
  pl_axcall :: "byte list"
  pl_call :: string
  pl_opts :: int
  pl_usable :: bool
  pl_was_up :: bool
  pl_backoff :: int
  pl_next_try :: int
  pl_opens :: nat

record flex_config =
  ssid_lo :: int
  ssid_hi :: int
  transit_enabled :: bool
  l2_transit_enabled :: bool
  crossport_enabled :: bool
  path_forward_enabled :: bool
  pcf_quiesce :: bool
  lt3byte_enabled :: bool
  local_apps :: bool
  locals :: "local_call list"
  port_links :: "port_link list"
  flex_ports :: "int list"

text \<open>The compiled defaults.\<close>

definition default_config :: flex_config where
  "default_config = \<lparr>ssid_lo = -1, ssid_hi = -1, transit_enabled = False, l2_transit_enabled = False,
     crossport_enabled = False, path_forward_enabled = False, pcf_quiesce = True,
     lt3byte_enabled = False, local_apps = False, locals = [], port_links = [], flex_ports = []\<rparr>"

definition flex_crossport_active :: "'a flex_config_scheme \<Rightarrow> bool" where
  "flex_crossport_active c \<longleftrightarrow> crossport_enabled c \<and> transit_enabled c \<and> l2_transit_enabled c"

definition flex_advertise_direct_only :: "'a flex_config_scheme \<Rightarrow> bool" where
  "flex_advertise_direct_only c \<longleftrightarrow> \<not> l2_transit_enabled c"

section \<open>Callsigns\<close>

definition trim_sp :: "string \<Rightarrow> string" where
  "trim_sp s = rtrim (\<lambda>c. c = SP) s"

definition flex_normalize_callsign :: "(byte list \<Rightarrow> string) \<Rightarrow> byte list \<Rightarrow> nat \<Rightarrow> string" where
  "flex_normalize_callsign conv ax outlen = take (outlen - 1) (trim_sp (conv ax))"

text \<open>
  \<open>flex_split_call\<close>: the buffer for the base has \<open>baselen\<close> bytes. The SSID loop gives up
  as soon as the value passes 15.
\<close>

fun split_ssid :: "string \<Rightarrow> int \<Rightarrow> int option" where
  "split_ssid [] v = Some v"
| "split_ssid (c # cs) v =
     (if \<not> is_digit c then None
      else let v' = v * 10 + int (digit_val c) in if v' > 15 then None else split_ssid cs v')"

definition flex_split_call :: "string \<Rightarrow> nat \<Rightarrow> (string \<times> int) option" where
  "flex_split_call s baselen =
     (let b = takeWhile (\<lambda>c. c \<noteq> CHR ''-'') s; n = length b; r = drop n s in
      if n = 0 \<or> n > FLEXNET_LOCAL_BASE_MAX \<or> n \<ge> baselen then None
      else if \<not> list_all is_alnum b then None
      else if r = [] then Some (map to_upper b, 0)
      else if tl r = [] then None
      else case split_ssid (tl r) 0 of None \<Rightarrow> None | Some v \<Rightarrow> Some (map to_upper b, v))"

definition flex_call_in_range :: "string option \<Rightarrow> string option \<Rightarrow> int \<Rightarrow> int \<Rightarrow> bool" where
  "flex_call_in_range call base lo hi =
     (case (call, base) of
        (Some c, Some b) \<Rightarrow>
          b \<noteq> [] \<and>
          (case flex_split_call c 20 of
             None \<Rightarrow> False
           | Some (cb, cs) \<Rightarrow> case_eq cb b \<and> cs \<ge> lo \<and> cs \<le> hi)
      | _ \<Rightarrow> False)"

definition flex_chain_ends_at :: "string list \<Rightarrow> string \<Rightarrow> int \<Rightarrow> int \<Rightarrow> bool" where
  "flex_chain_ends_at chain base lo hi =
     (chain \<noteq> [] \<and> flex_call_in_range (Some (last chain)) (Some base) lo hi)"

section \<open>The local call table\<close>

definition lc_key :: "local_call \<Rightarrow> string \<times> int" where
  "lc_key e = (lc_base e, lc_ssid e)"

definition local_idx :: "string \<times> int \<Rightarrow> local_call list \<Rightarrow> nat option" where
  "local_idx k t = first_idx (\<lambda>e. lc_base e = fst k \<and> lc_ssid e = snd k) t"

text \<open>0 added, 1 already listed, -1 table full.\<close>

definition flex_local_add ::
  "string \<Rightarrow> int \<Rightarrow> bool \<Rightarrow> 'a flex_config_scheme \<Rightarrow> int \<times> 'a flex_config_scheme" where
  "flex_local_add base ssid from_apps c =
     (if local_idx (base, ssid) (locals c) \<noteq> None then (1, c)
      else if length (locals c) \<ge> FLEXNET_MAX_LOCAL_CALLS then (-1, c)
      else (0, c\<lparr>locals := locals c @ [\<lparr>lc_base = base, lc_ssid = ssid, lc_from_apps = from_apps,
                 lc_state = LOCAL_UNCHECKED, lc_ext_port = 0\<rparr>]\<rparr>))"

definition flex_local_find :: "'a flex_config_scheme \<Rightarrow> string \<Rightarrow> nat option" where
  "flex_local_find c call =
     (case flex_split_call call (FLEXNET_LOCAL_BASE_MAX + 1) of
        None \<Rightarrow> None
      | Some (base, ssid) \<Rightarrow>
          first_idx (\<lambda>e. lc_state e = LOCAL_BOUND \<and> lc_ssid e = ssid \<and> lc_base e = base) (locals c))"

definition flex_external_port :: "'a flex_config_scheme \<Rightarrow> string \<Rightarrow> int" where
  "flex_external_port c call =
     (case flex_local_find c call of None \<Rightarrow> 0 | Some i \<Rightarrow> lc_ext_port (locals c ! i))"

definition flex_local_covers :: "'a flex_config_scheme \<Rightarrow> string \<Rightarrow> int \<Rightarrow> int \<Rightarrow> bool" where
  "flex_local_covers c base lo hi =
     list_ex (\<lambda>e. lc_state e = LOCAL_BOUND \<and> lc_ssid e \<ge> lo \<and> lc_ssid e \<le> hi \<and>
                  case_eq (lc_base e) base) (locals c)"

text \<open>\<open>appls\<close> are the normalised application calls.\<close>

fun flex_local_collect_apps ::
  "string \<Rightarrow> string list \<Rightarrow> 'a flex_config_scheme \<Rightarrow> 'a flex_config_scheme" where
  "flex_local_collect_apps mybase [] c = c"
| "flex_local_collect_apps mybase (a # as) c =
     (case flex_split_call a (FLEXNET_LOCAL_BASE_MAX + 1) of
        None \<Rightarrow> flex_local_collect_apps mybase as c
      | Some (base, ssid) \<Rightarrow>
          if case_eq base mybase then flex_local_collect_apps mybase as c
          else flex_local_collect_apps mybase as (snd (flex_local_add base ssid True c)))"

definition local_answered :: "string list \<Rightarrow> local_call \<Rightarrow> bool" where
  "local_answered appls e =
     list_ex (\<lambda>a. flex_split_call a (FLEXNET_LOCAL_BASE_MAX + 1) = Some (lc_base e, lc_ssid e)) appls"

definition local_verdict :: "string \<Rightarrow> int \<Rightarrow> int \<Rightarrow> string list \<Rightarrow> local_call \<Rightarrow> local_state" where
  "local_verdict mybase own_lo own_hi appls e =
     (if case_eq (lc_base e) mybase \<and> lc_ext_port e = 0 then LOCAL_NODECALL
      else if case_eq (lc_base e) mybase \<and> lc_ssid e \<ge> own_lo \<and> lc_ssid e \<le> own_hi then LOCAL_OWNRANGE
      else if lc_ext_port e \<noteq> 0 then LOCAL_BOUND
      else if local_answered appls e then LOCAL_BOUND else LOCAL_UNBOUND)"

definition flex_local_resolve ::
  "string \<Rightarrow> int \<Rightarrow> int \<Rightarrow> string list \<Rightarrow> 'a flex_config_scheme \<Rightarrow> 'a flex_config_scheme" where
  "flex_local_resolve mybase own_lo own_hi appls c =
     c\<lparr>locals := map (\<lambda>e. e\<lparr>lc_state := local_verdict mybase own_lo own_hi appls e\<rparr>) (locals c)\<rparr>"

definition flex_local_state_name :: "local_state \<Rightarrow> string" where
  "flex_local_state_name s =
     (case s of
        LOCAL_BOUND \<Rightarrow> ''advertised''
      | LOCAL_UNBOUND \<Rightarrow> ''NOT advertised - no APPLICATION''
      | LOCAL_NODECALL \<Rightarrow> ''NOT advertised - NODECALL base, use FLEXNETSSIDRANGE''
      | LOCAL_NOPORT \<Rightarrow> ''NOT advertised - FLEXNETEXTERNAL port does not exist''
      | LOCAL_NOFWD \<Rightarrow> ''NOT advertised - FLEXNETEXTERNAL needs FLEXNETTRANSIT and FLEXNETL2TRANSIT YES''
      | LOCAL_OWNRANGE \<Rightarrow> ''NOT advertised - FLEXNETEXTERNAL inside our own SSID range''
      | LOCAL_UNCHECKED \<Rightarrow> ''unchecked'')"

definition flex_local_format :: "local_call \<Rightarrow> string" where
  "flex_local_format e =
     (if lc_ssid e \<noteq> 0 then lc_base e @ CHR ''-'' # dec_of_int (lc_ssid e) else lc_base e)"

text \<open>\<open>flex_own_ssid_range\<close>, \<open>flex_record_is_ours\<close>.\<close>

definition flex_own_ssid_range :: "'a flex_config_scheme \<Rightarrow> int \<Rightarrow> int \<times> int" where
  "flex_own_ssid_range c my_ssid =
     (if ssid_lo c \<ge> 0
      then (if my_ssid < ssid_lo c then my_ssid else ssid_lo c,
            if my_ssid > ssid_hi c then my_ssid else ssid_hi c)
      else (my_ssid, my_ssid))"

definition flex_record_is_ours :: "string \<Rightarrow> int \<Rightarrow> int \<Rightarrow> string \<Rightarrow> int \<Rightarrow> int \<Rightarrow> bool" where
  "flex_record_is_ours dest lo hi own own_lo own_hi =
     (own \<noteq> [] \<and> take FLEXNET_MAX_CALLSIGN dest = take FLEXNET_MAX_CALLSIGN own \<and>
      lo \<le> own_hi \<and> own_lo \<le> hi)"

section \<open>Configuration lines\<close>

abbreviation TAB :: char where "TAB \<equiv> CHR 0x09"

definition skip_blank :: "string \<Rightarrow> string" where
  "skip_blank s = dropWhile (\<lambda>c. c = SP \<or> c = TAB) s"

definition skip_sep :: "string \<Rightarrow> string" where
  "skip_sep s = dropWhile (\<lambda>c. c = SP \<or> c = TAB \<or> c = CHR ''='' \<or> c = CHR '':'') s"

definition blank_or_comment :: "string \<Rightarrow> bool" where
  "blank_or_comment s =
     (s = [] \<or> hd s = CHR '';'' \<or> hd s = CHR ''#'' \<or> hd s = CR \<or> hd s = LF)"

definition key_prefix :: "string \<Rightarrow> string \<Rightarrow> bool" where
  "key_prefix key s = (map to_upper (take (length key) s) = key)"

definition after_key :: "string \<Rightarrow> string \<Rightarrow> string" where
  "after_key key s = drop (length key) s"

definition sep_next :: "string \<Rightarrow> bool" where
  "sep_next p = (p \<noteq> [] \<and> (hd p = SP \<or> hd p = TAB \<or> hd p = CHR ''='' \<or> hd p = CHR '':''))"

text \<open>
  \<open>flex_parse_ssidrange_line\<close>: matched or not, and the configuration afterwards. A value
  beyond the range of \<open>int\<close> is taken as the number written.
\<close>

definition flex_parse_ssidrange_line ::
  "string \<Rightarrow> 'a flex_config_scheme \<Rightarrow> bool \<times> 'a flex_config_scheme" where
  "flex_parse_ssidrange_line line0 c =
     (let line = skip_blank line0; key = ''FLEXNETSSIDRANGE''; p = after_key key line in
      if blank_or_comment line then (False, c)
      else if \<not> key_prefix key line then (False, c)
      else if \<not> sep_next p then (True, c)
      else
        let p1 = skip_sep p in
        if p1 = [] \<or> \<not> is_digit (hd p1) then (True, c)
        else
          let ds = takeWhile is_digit p1; lo = int (digits_val ds);
              p2 = dropWhile (\<lambda>c. c = SP \<or> c = TAB \<or> c = CHR ''-'') (drop (length ds) p1);
              hi = (if p2 \<noteq> [] \<and> is_digit (hd p2) then int (digits_val (takeWhile is_digit p2)) else lo)
          in if lo > 15 \<or> hi > 15 \<or> lo > hi then (True, c)
             else (True, c\<lparr>ssid_lo := lo, ssid_hi := hi\<rparr>))"

text \<open>
  The tokens of a FLEXNETLOCAL line: separators are skipped, the list ends at the end of the
  line or at a comment; a token longer than 15 characters is reported as too long.
\<close>

definition local_sep :: "char \<Rightarrow> bool" where
  "local_sep c = (c = SP \<or> c = TAB \<or> c = CHR ''='' \<or> c = CHR '':'' \<or> c = CHR '','')"

definition local_tok_char :: "char \<Rightarrow> bool" where
  "local_tok_char c = (c \<noteq> SP \<and> c \<noteq> TAB \<and> c \<noteq> CHR '','' \<and> c \<noteq> CHR '';'' \<and> c \<noteq> CR \<and> c \<noteq> LF)"

lemma dropWhile_length_le: "length (dropWhile P xs) \<le> length xs"
  by (induction xs) auto

function local_tokens :: "string \<Rightarrow> string list" where
  "local_tokens p =
     (let p' = dropWhile local_sep p in
      if p' = [] \<or> hd p' \<in> {CHR '';'', CHR ''#'', CR, LF} then []
      else takeWhile local_tok_char p' # local_tokens (dropWhile local_tok_char p'))"
  by pat_completeness auto

termination
proof (relation "measure length")
  fix p p' :: string
  assume p': "p' = dropWhile local_sep p" and go: "\<not> (p' = [] \<or> hd p' \<in> {CHR '';'', CHR ''#'', CR, LF})"
  then have "p' \<noteq> []" by simp
  then obtain c q where q: "p' = c # q" by (meson neq_Nil_conv)
  have "\<not> local_sep (hd (dropWhile local_sep p))"
    by (rule hd_dropWhile) (use p' \<open>p' \<noteq> []\<close> in simp)
  then have "\<not> local_sep c" using p' q by (metis list.sel(1))
  then have "local_tok_char c" using go q by (auto simp: local_sep_def local_tok_char_def)
  then have "length (dropWhile local_tok_char p') < length p'"
    using dropWhile_length_le [of local_tok_char q] by (simp add: q)
  then show "(dropWhile local_tok_char p', p) \<in> measure length"
    using dropWhile_length_le [of local_sep p] p' by simp
qed simp

declare local_tokens.simps [simp del]

definition local_line_token :: "'a flex_config_scheme \<Rightarrow> string \<Rightarrow> 'a flex_config_scheme" where
  "local_line_token c tok =
     (if length tok \<ge> 16 then c
      else case flex_split_call tok (FLEXNET_LOCAL_BASE_MAX + 1) of
             None \<Rightarrow> c
           | Some (base, ssid) \<Rightarrow> snd (flex_local_add base ssid False c))"

definition flex_parse_local_line ::
  "string \<Rightarrow> 'a flex_config_scheme \<Rightarrow> bool \<times> 'a flex_config_scheme" where
  "flex_parse_local_line line0 c =
     (let line = skip_blank line0; key = ''FLEXNETLOCAL''; p = after_key key line in
      if \<not> key_prefix key line then (False, c)
      else if \<not> sep_next p then (False, c)
      else (True, foldl local_line_token c (local_tokens p)))"

text \<open>\<open>sscanf\<close> conversions: \<open>%ks\<close>, \<open>%d\<close>, and \<open>atoi\<close>.\<close>

definition is_space :: "char \<Rightarrow> bool" where
  "is_space c = (c \<in> {SP, TAB, LF, CR, CHR 0x0B, CHR 0x0C})"

definition scan_s :: "nat \<Rightarrow> string \<Rightarrow> (string \<times> string) option" where
  "scan_s k s =
     (let s' = dropWhile is_space s; t = take k (takeWhile (\<lambda>c. \<not> is_space c) s')
      in if t = [] then None else Some (t, drop (length t) s'))"

definition scan_d :: "string \<Rightarrow> (int \<times> string) option" where
  "scan_d s =
     (let s' = dropWhile is_space s;
          neg = (s' \<noteq> [] \<and> hd s' = CHR ''-'');
          s2 = (if s' \<noteq> [] \<and> (hd s' = CHR ''-'' \<or> hd s' = CHR ''+'') then tl s' else s');
          ds = takeWhile is_digit s2
      in if ds = [] then None
         else Some ((if neg then - int (digits_val ds) else int (digits_val ds)), drop (length ds) s2))"

definition atoi :: "string \<Rightarrow> int" where
  "atoi s = (case scan_d s of None \<Rightarrow> 0 | Some (v, _) \<Rightarrow> v)"

text \<open>\<open>sscanf(p, "%15s %d %1s", tok, &port, extra)\<close>: the fields that were converted.\<close>

definition scan_external :: "string \<Rightarrow> (string \<times> int \<times> string option) option" where
  "scan_external p =
     (case scan_s 15 p of None \<Rightarrow> None
      | Some (tok, r) \<Rightarrow>
          (case scan_d r of None \<Rightarrow> None
           | Some (port, r2) \<Rightarrow> Some (tok, port, map_option fst (scan_s 1 r2))))"

text \<open>
  The station is added or found, and becomes external: the external wins over an entry listed
  before, because a call cannot be both answered here and forwarded elsewhere.
\<close>

definition external_add ::
  "string \<Rightarrow> int \<Rightarrow> int \<Rightarrow> 'a flex_config_scheme \<Rightarrow> 'a flex_config_scheme" where
  "external_add base ssid port c =
     (case flex_local_add base ssid False c of
        (r, c1) \<Rightarrow>
          if r < 0 then c1
          else case local_idx (base, ssid) (locals c1) of
                 None \<Rightarrow> c1
               | Some i \<Rightarrow> c1\<lparr>locals := (locals c1)[i := (locals c1 ! i)
                              \<lparr>lc_ext_port := port, lc_from_apps := False\<rparr>]\<rparr>)"

definition flex_parse_external_line ::
  "string \<Rightarrow> 'a flex_config_scheme \<Rightarrow> bool \<times> 'a flex_config_scheme" where
  "flex_parse_external_line line0 c =
     (let line = skip_blank line0; key = ''FLEXNETEXTERNAL''; p = after_key key line in
      if \<not> key_prefix key line then (False, c)
      else if \<not> sep_next p then (False, c)
      else (True,
        case scan_external (skip_sep p) of
          None \<Rightarrow> c
        | Some (tok, port, extra) \<Rightarrow>
            if port < 1 \<or> port > 64 \<or> (extra \<noteq> None \<and> hd (the extra) \<notin> {CHR '';'', CHR ''#''}) then c
            else (case flex_split_call tok (FLEXNET_LOCAL_BASE_MAX + 1) of
                    None \<Rightarrow> c
                  | Some (base, ssid) \<Rightarrow> external_add base ssid port c)))"

text \<open>
  The on/off directives. The result is \<open>None\<close> when the line is not this keyword, else the
  value it sets, \<open>Some None\<close> when the keyword matched and the value was not understood.
\<close>

definition yes_no :: "string \<Rightarrow> bool option" where
  "yes_no b =
     (if b = ''YES'' \<or> b = ''ON'' \<or> b = ''1'' \<or> b = ''TRUE'' then Some True
      else if b = ''NO'' \<or> b = ''OFF'' \<or> b = ''0'' \<or> b = ''FALSE'' then Some False
      else None)"

definition bool_value :: "string \<Rightarrow> string" where
  "bool_value p =
     map to_upper (take 7 (takeWhile (\<lambda>c. c \<noteq> SP \<and> c \<noteq> TAB \<and> c \<noteq> CR \<and> c \<noteq> LF) p))"

definition flex_parse_bool_line :: "string \<Rightarrow> string \<Rightarrow> bool option option" where
  "flex_parse_bool_line line0 key =
     (let line = skip_blank line0; p = after_key key line in
      if blank_or_comment line then None
      else if \<not> key_prefix key line then None
      else if \<not> sep_next p then Some None
      else Some (yes_no (bool_value (skip_sep p))))"

definition flex_parse_transit_line :: "string \<Rightarrow> bool option option" where
  "flex_parse_transit_line line = flex_parse_bool_line line ''FLEXNETTRANSIT''"

definition flex_parse_l2transit_line :: "string \<Rightarrow> bool option option" where
  "flex_parse_l2transit_line line = flex_parse_bool_line line ''FLEXNETL2TRANSIT''"

definition flex_parse_lt3byte_line :: "string \<Rightarrow> bool option option" where
  "flex_parse_lt3byte_line line = flex_parse_bool_line line ''FLEXNETLT3BYTE''"

section \<open>PORT blocks\<close>

text \<open>\<open>flex_port_key\<close>: the value after \<open>KEY =\<close>, or NULL.\<close>

definition flex_port_key :: "string \<Rightarrow> string \<Rightarrow> string option" where
  "flex_port_key line0 key =
     (let line = skip_blank line0; p = skip_blank (after_key key line) in
      if \<not> key_prefix key line then None
      else if p = [] \<or> hd p \<noteq> CHR ''='' then None
      else Some (skip_blank (tl p)))"

definition flex_port_is_flexnet :: "'a flex_config_scheme \<Rightarrow> int \<Rightarrow> bool" where
  "flex_port_is_flexnet c port = list_ex (\<lambda>p. p = port) (flex_ports c)"

text \<open>The option token of a FLEXNETLINK line; a bad token leaves the default policy.\<close>

definition port_link_opts :: "string \<Rightarrow> int" where
  "port_link_opts tok =
     (if tok = [] \<or> hd tok = CHR '';'' \<or> hd tok = CHR ''#'' then 0
      else let s = (if hd tok = CHR ''F'' \<or> hd tok = CHR ''f'' then tl tok else tok);
               r = FlexNet_ParseLinkOpts (Some s)
           in if fst r \<noteq> 0 then 0 else snd r)"

definition flex_parse_port_link ::
  "(string \<Rightarrow> byte list option) \<Rightarrow> int \<Rightarrow> string \<Rightarrow> 'a flex_config_scheme \<Rightarrow> 'a flex_config_scheme" where
  "flex_parse_port_link conv_to port val c =
     (case scan_s 19 val of
        None \<Rightarrow> c
      | Some (call0, r) \<Rightarrow>
          if hd call0 = CHR '';'' then c
          else
            let call = map to_upper call0;
                opts = port_link_opts (case scan_s 11 r of None \<Rightarrow> '''' | Some (t, _) \<Rightarrow> t)
            in if length (port_links c) \<ge> FLEXNET_MAX_PORT_LINKS then c
               else case conv_to call of
                      None \<Rightarrow> c
                    | Some ax \<Rightarrow>
                        c\<lparr>port_links := port_links c @ [\<lparr>pl_port = port, pl_axcall = ax, pl_call = call,
                            pl_opts = opts, pl_usable = False, pl_was_up = False, pl_backoff = 0,
                            pl_next_try = 0, pl_opens = 0\<rparr>]\<rparr>)"

text \<open>The static variables of \<open>flex_parse_port_block_line\<close>.\<close>

record port_scan =
  in_port :: bool
  in_driver_cfg :: bool
  ordinal :: int
  portnum :: int
  want_flexnet :: bool
  first_link :: nat

definition port_scan0 :: port_scan where
  "port_scan0 = \<lparr>in_port = False, in_driver_cfg = False, ordinal = 0, portnum = 0,
     want_flexnet = False, first_link = 0\<rparr>"

definition is_alpha :: "char \<Rightarrow> bool" where
  "is_alpha c \<longleftrightarrow> is_upper c \<or> is_lower c"

definition port_word :: "string \<Rightarrow> string" where
  "port_word p = map to_upper (take 15 (takeWhile is_alpha p))"

definition end_port :: "port_scan \<Rightarrow> 'a flex_config_scheme \<Rightarrow> port_scan \<times> 'a flex_config_scheme" where
  "end_port ps c =
     (let ls = map (\<lambda>i. if i \<ge> first_link ps then (port_links c ! i)\<lparr>pl_port := portnum ps\<rparr>
                        else port_links c ! i) [0..<length (port_links c)];
          c1 = c\<lparr>port_links := ls\<rparr>;
          c2 = (if want_flexnet ps \<and> \<not> flex_port_is_flexnet c1 (portnum ps) \<and>
                   length (flex_ports c1) < FLEXNET_MAX_FLEX_PORTS
                then c1\<lparr>flex_ports := flex_ports c1 @ [portnum ps]\<rparr> else c1)
      in (ps\<lparr>in_port := False\<rparr>, c2))"

definition flex_parse_port_block_line ::
  "(string \<Rightarrow> byte list option) \<Rightarrow> string \<Rightarrow> port_scan \<times> 'a flex_config_scheme
     \<Rightarrow> port_scan \<times> 'a flex_config_scheme" where
  "flex_parse_port_block_line conv_to line s =
     (case s of (ps, c) \<Rightarrow>
      let p = skip_blank line; word = port_word p in
      if \<not> in_port ps then
        if word = ''PORT'' \<and> (length p \<le> 4 \<or> is_space (p ! 4))
        then (ps\<lparr>in_port := True, in_driver_cfg := False, want_flexnet := False,
                ordinal := ordinal ps + 1, portnum := ordinal ps + 1,
                first_link := length (port_links c)\<rparr>, c)
        else (ps, c)
      else if word = ''ENDPORT'' then end_port ps c
      else if in_driver_cfg ps then (ps, c)
      else if word = ''CONFIG'' then (ps\<lparr>in_driver_cfg := True\<rparr>, c)
      else case flex_port_key p ''PORTNUM'' of
        Some v \<Rightarrow> (if atoi v > 0 then ps\<lparr>portnum := atoi v\<rparr> else ps, c)
      | None \<Rightarrow>
          (case flex_port_key p ''FLEXNET'' of
             Some v \<Rightarrow>
               (case yes_no (map to_upper (case scan_s 7 v of None \<Rightarrow> '''' | Some (b, _) \<Rightarrow> b)) of
                  None \<Rightarrow> (ps, c)
                | Some b \<Rightarrow> (ps\<lparr>want_flexnet := b\<rparr>, c))
           | None \<Rightarrow>
               (case flex_port_key p ''FLEXNETLINK'' of
                  Some v \<Rightarrow> (ps, flex_parse_port_link conv_to (portnum ps) v c)
                | None \<Rightarrow> (ps, c))))"

section \<open>Reading bpq32.cfg\<close>

text \<open>
  One line of the loop in \<open>flex_load_config\<close>: the parsers are tried in the code's order
  until one claims the line.
\<close>

definition on_bool :: "bool option option \<Rightarrow> (bool \<Rightarrow> 'c) \<Rightarrow> 'c \<Rightarrow> 'c \<Rightarrow> 'c" where
  "on_bool r set_to unchanged next_parser =
     (case r of None \<Rightarrow> next_parser | Some None \<Rightarrow> unchanged | Some (Some b) \<Rightarrow> set_to b)"

definition global_line :: "string \<Rightarrow> 'a flex_config_scheme \<Rightarrow> 'a flex_config_scheme" where
  "global_line line c =
     (if fst (flex_parse_ssidrange_line line c) then snd (flex_parse_ssidrange_line line c)
      else on_bool (flex_parse_bool_line line ''FLEXNETLOCALAPPS'') (\<lambda>b. c\<lparr>local_apps := b\<rparr>) c
     (if fst (flex_parse_local_line line c) then snd (flex_parse_local_line line c)
      else if fst (flex_parse_external_line line c) then snd (flex_parse_external_line line c)
      else on_bool (flex_parse_transit_line line) (\<lambda>b. c\<lparr>transit_enabled := b\<rparr>) c
     (on_bool (flex_parse_l2transit_line line) (\<lambda>b. c\<lparr>l2_transit_enabled := b\<rparr>) c
     (on_bool (flex_parse_bool_line line ''FLEXNETCROSSPORT'') (\<lambda>b. c\<lparr>crossport_enabled := b\<rparr>) c
     (on_bool (flex_parse_bool_line line ''FLEXNETPATHFORWARD'') (\<lambda>b. c\<lparr>path_forward_enabled := b\<rparr>) c
     (on_bool (flex_parse_lt3byte_line line) (\<lambda>b. c\<lparr>lt3byte_enabled := b\<rparr>) c
     (on_bool (flex_parse_bool_line line ''FLEXNETPCFQUIESCE'') (\<lambda>b. c\<lparr>pcf_quiesce := b\<rparr>) c c)))))))"

definition load_line ::
  "(string \<Rightarrow> byte list option) \<Rightarrow> port_scan \<times> 'a flex_config_scheme \<Rightarrow> string
     \<Rightarrow> port_scan \<times> 'a flex_config_scheme" where
  "load_line conv_to s line =
     (case flex_parse_port_block_line conv_to line s of (ps, c) \<Rightarrow> (ps, global_line line c))"

text \<open>\<open>cfg_lines\<close> is \<open>None\<close> when bpq32.cfg cannot be opened.\<close>

definition flex_load_config ::
  "(string \<Rightarrow> byte list option) \<Rightarrow> string list option \<Rightarrow> 'a flex_config_scheme \<Rightarrow> 'a flex_config_scheme" where
  "flex_load_config conv_to cfg_lines c =
     (case cfg_lines of None \<Rightarrow> c | Some ls \<Rightarrow> snd (foldl (load_line conv_to) (port_scan0, c) ls))"

text \<open>
  \<open>flex_local_init\<close>. \<open>appl_calls\<close> is the callsign column of LinBPQ's application table,
  \<open>port_exists\<close> says whether \<open>GetPortTableEntryFromPortNum\<close> finds the port.
\<close>

definition appl_norm :: "(byte list \<Rightarrow> string) \<Rightarrow> byte list list \<Rightarrow> string list" where
  "appl_norm conv appl_calls =
     filter (\<lambda>a. a \<noteq> [])
       (map (\<lambda>ax. flex_normalize_callsign conv ax FLEXNET_MAX_CALLSIGN)
         (filter (\<lambda>ax. ax \<noteq> [] \<and> hd ax > 0x40) appl_calls))"

definition base_of :: "string \<Rightarrow> string" where
  "base_of s = takeWhile (\<lambda>c. c \<noteq> CHR ''-'') s"

definition node_ssid :: "byte list \<Rightarrow> int" where
  "node_ssid mycall = uint ((drop_bit 1 (mycall ! 6)) AND 0x0F)"

definition ext_check :: "(int \<Rightarrow> bool) \<Rightarrow> 'a flex_config_scheme \<Rightarrow> local_call \<Rightarrow> local_call" where
  "ext_check port_exists c e =
     (if lc_ext_port e = 0 \<or> lc_state e \<noteq> LOCAL_BOUND then e
      else if \<not> port_exists (lc_ext_port e) then e\<lparr>lc_state := LOCAL_NOPORT\<rparr>
      else if \<not> transit_enabled c \<or> \<not> l2_transit_enabled c then e\<lparr>lc_state := LOCAL_NOFWD\<rparr>
      else e)"

definition flex_local_init ::
  "(byte list \<Rightarrow> string) \<Rightarrow> byte list \<Rightarrow> byte list list \<Rightarrow> (int \<Rightarrow> bool)
     \<Rightarrow> 'a flex_config_scheme \<Rightarrow> 'a flex_config_scheme" where
  "flex_local_init conv mycall appl_calls port_exists c =
     (if locals c = [] \<and> \<not> local_apps c then c
      else
        let mybase = base_of (flex_normalize_callsign conv mycall 20);
            appls = appl_norm conv appl_calls;
            c1 = (if local_apps c then flex_local_collect_apps mybase appls c else c);
            (own_lo, own_hi) = flex_own_ssid_range c1 (node_ssid mycall);
            c2 = flex_local_resolve mybase own_lo own_hi appls c1
        in c2\<lparr>locals := map (ext_check port_exists c2) (locals c2)\<rparr>)"

section \<open>Callsigns survive splitting and formatting\<close>

definition call_good :: "string \<Rightarrow> int \<Rightarrow> bool" where
  "call_good base ssid \<longleftrightarrow> base \<noteq> [] \<and> length base \<le> 6 \<and>
     (\<forall>c \<in> set base. is_alnum c \<and> \<not> is_lower c) \<and> 0 \<le> ssid \<and> ssid \<le> 15"

lemma to_upper_alnum: "is_alnum c \<Longrightarrow> is_alnum (to_upper c) \<and> \<not> is_lower (to_upper c)"
  by (auto simp: is_alnum_def is_digit_def is_upper_def is_lower_def to_upper_def of_char_of)

lemma to_upper_id: "\<not> is_lower c \<Longrightarrow> to_upper c = c"
  by (simp add: to_upper_def)

lemma map_to_upper_id: "\<forall>c \<in> set s. \<not> is_lower c \<Longrightarrow> map to_upper s = s"
  by (intro map_idI) (simp add: to_upper_id)

lemma digit_not_lower: "c \<in> set (dec_of_nat n) \<Longrightarrow> \<not> is_lower c"
  using dec_of_nat_digits [of c n] unfolding is_digit_def is_lower_def by linarith

lemma dec_of_int_inj:
  assumes "0 \<le> v" "0 \<le> w" "dec_of_int v = dec_of_int w"
  shows "v = w"
proof -
  have "dec_of_nat (nat v) = dec_of_nat (nat w)" using assms by (simp add: dec_of_int_def)
  then have "nat v = nat w" by (metis digits_val_dec_of_nat)
  then show ?thesis using assms by simp
qed

lemma split_ssid_range: "split_ssid s v = Some w \<Longrightarrow> 0 \<le> v \<Longrightarrow> v \<le> 15 \<Longrightarrow> 0 \<le> w \<and> w \<le> 15"
  by (induction s arbitrary: v) (auto simp: Let_def split: if_splits)

lemma split_call_good:
  assumes "flex_split_call s n = Some (b, v)"
  shows "call_good b v"
proof -
  let ?b = "takeWhile (\<lambda>c. c \<noteq> CHR ''-'') s"
  have b: "b = map to_upper ?b" "?b \<noteq> []" "length ?b \<le> 6" "list_all is_alnum ?b"
    using assms by (auto simp: flex_split_call_def Let_def FLEXNET_LOCAL_BASE_MAX_def
        split: if_splits option.splits)
  have v: "0 \<le> v \<and> v \<le> 15"
    using assms split_ssid_range [of _ 0 v]
    by (auto simp: flex_split_call_def Let_def split: if_splits option.splits)
  have "\<forall>c \<in> set b. is_alnum c \<and> \<not> is_lower c"
    using b by (auto simp: list_all_iff to_upper_alnum)
  then show ?thesis using b v by (auto simp: call_good_def)
qed

lemma split_ssid_dec:
  assumes "n \<le> 15"
  shows "split_ssid (dec_of_nat n) 0 = Some (int n)"
proof (cases "n < 10")
  case True
  then show ?thesis using assms by (subst dec_of_nat.simps) (simp add: Let_def)
next
  case False
  have d: "n div 10 = 1" using False assms by auto
  then have "n mod 10 = n - 10" using mult_div_mod_eq [of 10 n] by simp
  then have "dec_of_nat n = [digit_char 1, digit_char (n - 10)]"
    using False d by (subst dec_of_nat.simps) (simp add: dec_of_nat.simps)
  then show ?thesis using False assms by (simp add: Let_def)
qed

lemma alnum_not_dash: "is_alnum c \<Longrightarrow> c \<noteq> CHR ''-''"
  by (auto simp: is_alnum_def is_digit_def is_upper_def is_lower_def)

lemma split_call_format:
  assumes "call_good b v" "7 \<le> n"
  shows "flex_split_call (if v \<noteq> 0 then b @ CHR ''-'' # dec_of_int v else b) n = Some (b, v)"
proof -
  have nd: "\<forall>c \<in> set b. c \<noteq> CHR ''-''" using assms(1) alnum_not_dash by (auto simp: call_good_def)
  have t1: "takeWhile (\<lambda>c. c \<noteq> CHR ''-'') b = b" using nd by (simp add: takeWhile_eq_all_conv)
  have t2: "takeWhile (\<lambda>c. c \<noteq> CHR ''-'') (b @ CHR ''-'' # r) = b" for r
    using nd by (simp add: takeWhile_append takeWhile_eq_all_conv)
  have up: "map to_upper b = b" using assms(1) by (intro map_to_upper_id) (auto simp: call_good_def)
  have la: "list_all is_alnum b" using assms(1) by (auto simp: call_good_def list_all_iff)
  have len: "b \<noteq> []" "length b \<le> 6" using assms(1) by (auto simp: call_good_def)
  show ?thesis
  proof (cases "v = 0")
    case True
    then show ?thesis using len assms(2)
      by (simp add: flex_split_call_def t1 up la FLEXNET_LOCAL_BASE_MAX_def Let_def)
  next
    case False
    have "v = int (nat v)" "nat v \<le> 15" using assms(1) by (auto simp: call_good_def)
    then have d: "split_ssid (dec_of_int v) 0 = Some v"
      using split_ssid_dec [of "nat v"] assms(1) by (simp add: dec_of_int_def call_good_def)
    have "dec_of_int v \<noteq> []" by (simp add: dec_of_int_def dec_of_nat_nonempty)
    with False d show ?thesis using len assms(2)
      by (simp add: flex_split_call_def t2 up la FLEXNET_LOCAL_BASE_MAX_def Let_def)
  qed
qed

section \<open>What any configuration file leaves behind\<close>

definition local_good :: "local_call \<Rightarrow> bool" where
  "local_good e \<longleftrightarrow> call_good (lc_base e) (lc_ssid e) \<and> 0 \<le> lc_ext_port e \<and> lc_ext_port e \<le> 64"

definition cfg_ok :: "'a flex_config_scheme \<Rightarrow> bool" where
  "cfg_ok c \<longleftrightarrow>
     (ssid_lo c = -1 \<and> ssid_hi c = -1 \<or> 0 \<le> ssid_lo c \<and> ssid_lo c \<le> ssid_hi c \<and> ssid_hi c \<le> 15) \<and>
     keys_ok lc_key FLEXNET_MAX_LOCAL_CALLS (locals c) \<and>
     (\<forall>e \<in> set (locals c). local_good e) \<and>
     length (port_links c) \<le> FLEXNET_MAX_PORT_LINKS \<and>
     distinct (flex_ports c) \<and> length (flex_ports c) \<le> FLEXNET_MAX_FLEX_PORTS"

interpretation loc: keyed_table lc_key local_idx FLEXNET_MAX_LOCAL_CALLS
  by unfold_locales (auto simp: local_idx_def lc_key_def prod_eq_iff)

lemma local_add_ok:
  assumes "cfg_ok c" "call_good base ssid" "flex_local_add base ssid apps c = (r, c')"
  shows "cfg_ok c'"
proof -
  let ?e = "\<lparr>lc_base = base, lc_ssid = ssid, lc_from_apps = apps, lc_state = LOCAL_UNCHECKED, lc_ext_port = 0\<rparr>"
  have k: "lc_key ?e = (base, ssid)" by (simp add: lc_key_def)
  show ?thesis
  proof (cases "local_idx (base, ssid) (locals c) = None \<and> length (locals c) < FLEXNET_MAX_LOCAL_CALLS")
    case True
    then have "c' = c\<lparr>locals := locals c @ [?e]\<rparr>" using assms(3) by (auto simp: flex_local_add_def)
    moreover have "keys_ok lc_key FLEXNET_MAX_LOCAL_CALLS (locals c @ [?e])"
      using loc.append_ok [of "locals c" ?e] assms(1) True k by (simp add: cfg_ok_def)
    ultimately show ?thesis using assms(1,2) by (auto simp: cfg_ok_def local_good_def)
  next
    case False
    then show ?thesis using assms by (auto simp: flex_local_add_def split: if_splits)
  qed
qed

lemma local_add_ok': "cfg_ok c \<Longrightarrow> call_good base ssid \<Longrightarrow> cfg_ok (snd (flex_local_add base ssid apps c))"
  by (rule local_add_ok [of c base ssid apps "fst (flex_local_add base ssid apps c)"]) simp_all

lemma local_line_token_ok: "cfg_ok c \<Longrightarrow> cfg_ok (local_line_token c tok)"
  by (auto simp: local_line_token_def local_add_ok' split_call_good split: option.split)

lemma local_line_ok:
  assumes "cfg_ok c" "flex_parse_local_line line c = (m, c')"
  shows "cfg_ok c'"
proof -
  have "cfg_ok (foldl local_line_token c ts)" for ts
    using assms(1) by (induction ts arbitrary: c) (simp_all add: local_line_token_ok)
  then show ?thesis using assms by (auto simp: flex_parse_local_line_def Let_def split: if_splits)
qed

lemma cfg_ok_local_upd:
  assumes "cfg_ok c" "i < length (locals c)" "lc_key e = lc_key (locals c ! i)" "local_good e"
  shows "cfg_ok (c\<lparr>locals := (locals c)[i := e]\<rparr>)"
  using assms loc.update_ok [of "locals c" e i] set_update_subset_insert [of "locals c" i e]
  by (auto simp: cfg_ok_def)

lemma external_add_ok:
  assumes "cfg_ok c" "call_good base ssid" "0 \<le> port" "port \<le> 64"
  shows "cfg_ok (external_add base ssid port c)"
proof -
  obtain r c1 where a: "flex_local_add base ssid False c = (r, c1)" by fastforce
  have c1: "cfg_ok c1" by (rule local_add_ok [OF assms(1,2) a])
  have "cfg_ok (c1\<lparr>locals := (locals c1)[i := (locals c1 ! i)\<lparr>lc_ext_port := port, lc_from_apps := False\<rparr>]\<rparr>)"
    if i: "local_idx (base, ssid) (locals c1) = Some i" for i
  proof (rule cfg_ok_local_upd [OF c1])
    show l: "i < length (locals c1)" using loc.find_key [OF i] by simp
    then have "local_good (locals c1 ! i)" using c1 by (simp add: cfg_ok_def)
    then show "local_good ((locals c1 ! i)\<lparr>lc_ext_port := port, lc_from_apps := False\<rparr>)"
      using assms(3,4) by (simp add: local_good_def)
  qed (simp add: lc_key_def)
  then show ?thesis by (simp add: external_add_def a c1 split: option.split)
qed

lemma external_line_ok: "cfg_ok c \<Longrightarrow> cfg_ok (snd (flex_parse_external_line line c))"
  by (auto simp: flex_parse_external_line_def Let_def external_add_ok split_call_good
      simp del: hd_Cons_tl split: option.split)

lemma ssidrange_line_ok: "cfg_ok c \<Longrightarrow> cfg_ok (snd (flex_parse_ssidrange_line line c))"
  by (simp add: flex_parse_ssidrange_line_def Let_def cfg_ok_def)

lemma port_link_ok: "cfg_ok c \<Longrightarrow> cfg_ok (flex_parse_port_link conv_to port val c)"
  by (auto simp: flex_parse_port_link_def Let_def cfg_ok_def split: option.split)

lemma end_port_ok: "cfg_ok c \<Longrightarrow> cfg_ok (snd (end_port ps c))"
  by (auto simp: end_port_def Let_def cfg_ok_def flex_port_is_flexnet_def list_ex_iff)

lemma port_block_line_ok:
  assumes "cfg_ok (snd s)"
  shows "cfg_ok (snd (flex_parse_port_block_line conv_to line s))"
proof -
  obtain ps c where s: "s = (ps, c)" by (cases s)
  with assms have c: "cfg_ok c" by simp
  note ok = port_link_ok [OF c] end_port_ok [OF c] c
  show ?thesis
    by (simp add: s flex_parse_port_block_line_def Let_def ok split: option.split)
qed

lemma cfg_ok_flags:
  assumes "cfg_ok c"
  shows "cfg_ok (c\<lparr>local_apps := b\<rparr>)" "cfg_ok (c\<lparr>transit_enabled := b\<rparr>)"
    "cfg_ok (c\<lparr>l2_transit_enabled := b\<rparr>)" "cfg_ok (c\<lparr>crossport_enabled := b\<rparr>)"
    "cfg_ok (c\<lparr>path_forward_enabled := b\<rparr>)" "cfg_ok (c\<lparr>lt3byte_enabled := b\<rparr>)"
    "cfg_ok (c\<lparr>pcf_quiesce := b\<rparr>)"
  using assms by (simp_all add: cfg_ok_def)

lemma on_bool_ok:
  "P unchanged \<Longrightarrow> P nxt \<Longrightarrow> (\<And>b. P (set_to b)) \<Longrightarrow> P (on_bool r set_to unchanged nxt)"
  by (auto simp: on_bool_def split: option.split)

lemma global_line_ok:
  assumes c: "cfg_ok c"
  shows "cfg_ok (global_line line c)"
proof -
  have "cfg_ok (snd (flex_parse_local_line line c))"
    by (rule local_line_ok [OF c, of line "fst (flex_parse_local_line line c)"]) simp
  with c show ?thesis
    unfolding global_line_def
    by (simp add: on_bool_ok ssidrange_line_ok external_line_ok cfg_ok_flags)
qed

lemma load_line_ok: "cfg_ok (snd s) \<Longrightarrow> cfg_ok (snd (load_line conv_to s line))"
  using port_block_line_ok [of s conv_to line]
  by (cases "flex_parse_port_block_line conv_to line s") (simp add: load_line_def global_line_ok)

interpretation loader: inv_machine "load_line conv_to" "\<lambda>s. cfg_ok (snd s)" for conv_to
  by unfold_locales (rule load_line_ok)

text \<open>C10: whatever bpq32.cfg contains, reading it leaves a sane configuration: the SSID range is unset
  or lies in 0..15 with its ends in order, the local call table has at most sixteen entries,
  no two with the same call, each a call that a compact record can carry, external ports are 1..64,
  and the tables of declared links and FlexNet ports stay within their arrays, the ports without duplicates.\<close>

theorem load_config_sane: "cfg_ok (flex_load_config conv_to cfg_lines default_config)"
proof (cases cfg_lines)
  case None
  then show ?thesis by (simp add: flex_load_config_def default_config_def cfg_ok_def)
next
  case (Some ls)
  have "cfg_ok (snd (port_scan0, default_config))" by (simp add: default_config_def cfg_ok_def)
  from loader.run_inv [OF this] show ?thesis by (simp add: flex_load_config_def Some)
qed

section \<open>Which stations are advertised beside the node call\<close>

lemma collect_apps_ok: "cfg_ok c \<Longrightarrow> cfg_ok (flex_local_collect_apps mybase appls c)"
  by (induction mybase appls c rule: flex_local_collect_apps.induct)
    (auto simp: local_add_ok' split_call_good split: option.split prod.split)

lemma collect_apps_frame:
  "transit_enabled (flex_local_collect_apps mybase appls c) = transit_enabled c"
  "l2_transit_enabled (flex_local_collect_apps mybase appls c) = l2_transit_enabled c"
  by (induction mybase appls c rule: flex_local_collect_apps.induct)
    (auto simp: flex_local_add_def split: option.split prod.split)

lemma ext_check_bound:
  assumes "lc_state (ext_check port_exists c e) = LOCAL_BOUND"
  shows "ext_check port_exists c e = e" "lc_state e = LOCAL_BOUND"
    "lc_ext_port e \<noteq> 0 \<Longrightarrow> port_exists (lc_ext_port e) \<and> transit_enabled c \<and> l2_transit_enabled c"
  using assms by (auto simp: ext_check_def split: if_splits)


definition cfg15 :: flex_config where
  "cfg15 = default_config\<lparr>transit_enabled := True, l2_transit_enabled := True,
     locals := [\<lparr>lc_base = ''SR4BBX'', lc_ssid = 3, lc_from_apps = False,
                 lc_state = LOCAL_UNCHECKED, lc_ext_port = 2\<rparr>]\<rparr>"

definition cfg15_up :: flex_config where
  "cfg15_up = flex_local_init (\<lambda>_. ''IR2UFV-1'') [0,0,0,0,0,0,2] [] (\<lambda>p. p = 2) cfg15"


section \<open>Looking a call up\<close>

text \<open>\<open>flex_own_base_call\<close> and \<open>flex_target_is_us\<close>.\<close>

definition flex_own_base_call :: "(byte list \<Rightarrow> string) \<Rightarrow> byte list \<Rightarrow> string \<times> int" where
  "flex_own_base_call conv mycall =
     (let raw = trim_sp (conv mycall); b = base_of raw; r = drop (length b) raw
      in (take 19 b, if r = [] then 0 else atoi (tl r)))"

datatype flex_target = TARGET_NONE | TARGET_NODE | TARGET_LOCAL

definition flex_target_is_us ::
  "(byte list \<Rightarrow> string) \<Rightarrow> byte list \<Rightarrow> 'a flex_config_scheme \<Rightarrow> string \<Rightarrow> flex_target" where
  "flex_target_is_us conv mycall c target =
     (if flex_local_find c target \<noteq> None then TARGET_LOCAL
      else if case_eq (trim_sp (conv mycall)) target then TARGET_NODE
      else case flex_own_base_call conv mycall of
        (own, my_ssid) \<Rightarrow>
          (case flex_own_ssid_range c my_ssid of
             (lo, hi) \<Rightarrow> if flex_call_in_range (Some target) (Some own) lo hi then TARGET_NODE else TARGET_NONE))"

text \<open>a call looked up by the name under which it is shown finds its own table entry, and only when
  that entry is advertised.\<close>

theorem local_find_shown:
  assumes "cfg_ok c" "i < length (locals c)"
  shows "flex_local_find c (flex_local_format (locals c ! i)) =
     (if lc_state (locals c ! i) = LOCAL_BOUND then Some i else None)"
proof -
  let ?e = "locals c ! i"
  have "local_good ?e" using assms by (simp add: cfg_ok_def)
  then have s: "flex_split_call (flex_local_format ?e) 7 = Some (lc_base ?e, lc_ssid ?e)"
    using split_call_format [of "lc_base ?e" "lc_ssid ?e" 7] by (simp add: flex_local_format_def local_good_def)
  have uniq: "j = i" if "j < length (locals c)" "lc_base (locals c ! j) = lc_base ?e" "lc_ssid (locals c ! j) = lc_ssid ?e" for j
  proof -
    have "distinct (map lc_key (locals c))" using assms(1) by (simp add: cfg_ok_def keys_ok_def)
    moreover have "map lc_key (locals c) ! j = map lc_key (locals c) ! i"
      using that assms(2) by (simp add: lc_key_def)
    ultimately show ?thesis using that(1) assms(2) nth_eq_iff_index_eq [of "map lc_key (locals c)" j i] by simp
  qed
  let ?P = "\<lambda>e. lc_state e = LOCAL_BOUND \<and> lc_ssid e = lc_ssid ?e \<and> lc_base e = lc_base ?e"
  have "first_idx ?P (locals c) = (if lc_state ?e = LOCAL_BOUND then Some i else None)"
  proof (cases "lc_state ?e = LOCAL_BOUND")
    case True
    have "first_idx ?P (locals c) = Some i"
      by (rule first_idx_eqI) (use assms(2) True uniq in \<open>auto dest: order.strict_trans\<close>)
    then show ?thesis using True by simp
  next
    case False
    have "\<forall>e \<in> set (locals c). \<not> ?P e" using uniq False by (metis in_set_conv_nth)
    then show ?thesis using False by (simp add: first_idx_None_iff)
  qed
  then show ?thesis by (simp add: flex_local_find_def s FLEXNET_LOCAL_BASE_MAX_def)
qed

theorem local_find_shown_witness:
  "flex_local_find cfg15 (flex_local_format (locals cfg15 ! 0)) =
     (if lc_state (locals cfg15 ! 0) = LOCAL_BOUND then Some 0 else None)"
proof (rule local_find_shown)
  show "cfg_ok cfg15"
    by (simp add: cfg_ok_def cfg15_def default_config_def keys_ok_def local_good_def call_good_def
        FLEXNET_MAX_LOCAL_CALLS_def is_alnum_def is_upper_def is_digit_def is_lower_def)
qed (simp add: cfg15_def)

text \<open>a path query names this node exactly when it asks for the node's base call with an SSID in the
  range our own record announces: a query for another SSID of the same base call is not taken for
  us, and a query inside the range is, unless a local call of that name is advertised.\<close>

theorem target_is_us_exact:
  assumes "call_good base my_ssid" "call_good base ssid"
    and "trim_sp (conv mycall) = (if my_ssid \<noteq> 0 then base @ CHR ''-'' # dec_of_int my_ssid else base)"
    and "flex_own_ssid_range c my_ssid = (lo, hi)"
    and "target = (if ssid \<noteq> 0 then base @ CHR ''-'' # dec_of_int ssid else base)"
    and "flex_local_find c target = None"
  shows "flex_target_is_us conv mycall c target =
     (if lo \<le> ssid \<and> ssid \<le> hi then TARGET_NODE else TARGET_NONE)"
proof -
  have nd: "\<forall>c \<in> set base. c \<noteq> CHR ''-''" using assms(1) alnum_not_dash by (auto simp: call_good_def)
  have b1: "base_of base = base" "base_of (base @ CHR ''-'' # r) = base" for r
    using nd by (simp_all add: base_of_def takeWhile_append takeWhile_eq_all_conv)
  have digits: "atoi (dec_of_int my_ssid) = my_ssid"
  proof -
    let ?d = "dec_of_nat (nat my_ssid)"
    have d: "\<forall>c \<in> set ?d. is_digit c" by (simp add: dec_of_nat_digits)
    obtain a as where das: "?d = a # as" using dec_of_nat_nonempty by (meson neq_Nil_conv)
    then have a: "is_digit a" using d by simp
    then have "\<not> is_space a" "a \<noteq> CHR ''-''" "a \<noteq> CHR ''+''"
      by (auto simp: is_digit_def is_space_def)
    moreover have "takeWhile is_digit ?d = ?d" using d by (simp add: takeWhile_eq_all_conv)
    ultimately show ?thesis using assms(1) das digits_val_dec_of_nat [of "nat my_ssid"]
      by (simp add: atoi_def scan_d_def dec_of_int_def call_good_def)
  qed
  have own: "flex_own_base_call conv mycall = (base, my_ssid)"
    using assms(1) digits by (auto simp: flex_own_base_call_def Let_def assms(3) b1 call_good_def)
  have split: "flex_split_call target 20 = Some (base, ssid)"
    using split_call_format [OF assms(2), of 20] by (simp add: assms(5))
  have range: "flex_call_in_range (Some target) (Some base) lo hi \<longleftrightarrow> lo \<le> ssid \<and> ssid \<le> hi"
    using assms(1) by (auto simp: flex_call_in_range_def split call_good_def)
  have inrange: "lo \<le> my_ssid \<and> my_ssid \<le> hi"
    using assms(4) by (auto simp: flex_own_ssid_range_def split: if_splits)
  have "ssid = my_ssid" if "case_eq (trim_sp (conv mycall)) target"
  proof -
    have len: "length (trim_sp (conv mycall)) = length target"
      using that map_eq_imp_length_eq unfolding case_eq_def by blast
    have "map to_upper (drop (Suc (length base)) (trim_sp (conv mycall))) =
        map to_upper (drop (Suc (length base)) target)"
      using that unfolding case_eq_def by (metis drop_map)
    moreover have "map to_upper (dec_of_int v) = dec_of_int v" if "0 \<le> v" for v
      using that by (simp add: dec_of_int_def map_to_upper_id digit_not_lower)
    moreover have "0 \<le> my_ssid" "0 \<le> ssid" using assms(1,2) by (simp_all add: call_good_def)
    ultimately show ?thesis using len dec_of_int_inj [of my_ssid ssid]
      by (cases "my_ssid = 0"; cases "ssid = 0") (simp_all add: assms(3,5))
  qed
  then show ?thesis using inrange
    by (auto simp: flex_target_is_us_def assms(6) own assms(4) range)
qed

theorem target_is_us_exact_witness:
  "flex_target_is_us (\<lambda>_. ''IW2OHX-13 '') [] default_config ''IW2OHX-12'' =
     (if (13::int) \<le> 12 \<and> (12::int) \<le> 13 then TARGET_NODE else TARGET_NONE)"
proof (rule target_is_us_exact)
  show "trim_sp ''IW2OHX-13 '' = (if (13::int) \<noteq> 0 then ''IW2OHX'' @ CHR ''-'' # dec_of_int 13 else ''IW2OHX'')"
    by code_simp
  show "''IW2OHX-12'' = (if (12::int) \<noteq> 0 then ''IW2OHX'' @ CHR ''-'' # dec_of_int 12 else ''IW2OHX'')"
    by code_simp
qed (auto simp: call_good_def is_alnum_def is_upper_def is_digit_def is_lower_def
    flex_own_ssid_range_def default_config_def flex_local_find_def split: option.split)

end
