(* ===== verification/Flex_Node.thy ===== *)
theory Flex_Node
  imports Flex_Config Complex_Main
begin

unbundle bit_operations_syntax

text \<open>
  The state of the FlexNet layer (FlexNetCode.c): the session table and the tables parallel to it,
  what each neighbour taught us (\<open>FlexNetLearned\<close>), what we told each neighbour
  (\<open>FlexNetAdvertised\<close>), the destination table, the entries of LinBPQ's link table that the
  sessions point to, and the frames handed to the links. A session's \<open>LINK\<close> pointer is an
  index into the link table. The clock, the 10 ms tick counter, the node call and LinBPQ's
  \<open>ConvFromAX25\<close> and \<open>GetBuff\<close> are the environment of an operation; within one operation
  the clock does not move.
\<close>

section \<open>Records\<close>

definition FLEXNET_MAX_LEARNED_PER_NEIGHBOUR :: nat where "FLEXNET_MAX_LEARNED_PER_NEIGHBOUR = 256"
definition FLEXNET_MAX_ADVERTISED_PER_PEER :: nat where "FLEXNET_MAX_ADVERTISED_PER_PEER = 256"
definition FLEXNET_MAX_DESTS :: nat where "FLEXNET_MAX_DESTS = 2000"
definition FLEXNET_L2_MAX_DIGIS :: nat where "FLEXNET_L2_MAX_DIGIS = 8"

record session =
  s_LINK :: "nat option"
  s_port :: int
  s_active :: bool
  got_peer_init :: bool
  flex_est_inferred :: bool
  sent_routes :: bool
  peer_max_ssid :: int
  keepalive_count :: nat
  peer_link_time :: int
  our_link_time :: int
  lt_smoothed_10ms :: "32 word"
  lt_tx_tick :: "32 word"
  lt_sample_count :: "32 word"
  lt_tx_pending :: bool
  last_keepalive :: int
  session_start :: int
  peer_ka_len :: int
  peer_ka_term :: char
  last_lt_tx :: int
  pcf_quiesced :: bool
  quiesced_since :: int
  last_init_tx :: int
  peer_lt_count :: nat
  peer_callsign :: "byte list"

text \<open>\<open>memset(sess, 0, sizeof(*sess))\<close>.\<close>

definition session0 :: session where
  "session0 = \<lparr>s_LINK = None, s_port = 0, s_active = False, got_peer_init = False,
     flex_est_inferred = False, sent_routes = False, peer_max_ssid = 0, keepalive_count = 0,
     peer_link_time = 0, our_link_time = 0, lt_smoothed_10ms = 0, lt_tx_tick = 0,
     lt_sample_count = 0, lt_tx_pending = False, last_keepalive = 0, session_start = 0,
     peer_ka_len = 0, peer_ka_term = CHR 0x00, last_lt_tx = 0, pcf_quiesced = False,
     quiesced_since = 0, last_init_tx = 0, peer_lt_count = 0, peer_callsign = replicate 7 0\<rparr>"

record learned_route =
  l_call :: string
  l_lo :: int
  l_hi :: int
  l_rtt :: int
  l_last_heard :: int
  l_direct :: bool

record learned_state =
  routes :: "learned_route list"
  l_dirty :: bool
  last_advert :: int
  lt_anchor :: int
  l_peer_call :: string
  died_at :: int

definition learned0 :: learned_state where
  "learned0 = \<lparr>routes = [], l_dirty = False, last_advert = 0, lt_anchor = 0, l_peer_call = '''', died_at = 0\<rparr>"

record adv_route =
  a_call :: string
  a_lo :: int
  a_hi :: int
  last_advertised_rtt :: int
  last_advertised_at :: int
  pending :: bool
  pending_rtt :: int
  pending_pen :: int
  last_pen :: int
  rtt_floor :: int
  climb_steps :: int
  looping :: bool

text \<open>The token count is a \<open>double\<close> in the code; the model keeps it as an exact rational.\<close>

record adv_state =
  advs :: "adv_route list"
  tokens :: rat
  last_tokens_refill :: int
  eob_pending :: bool
  eob_empty_since :: int
  warned_full :: bool

definition adv_state0 :: adv_state where
  "adv_state0 = \<lparr>advs = [], tokens = 0, last_tokens_refill = 0, eob_pending = False,
     eob_empty_since = 0, warned_full = False\<rparr>"

record bpq_link = link_view +
  FlexNetLink :: bool
  LINKPORT :: "int option"
  OURCALL :: "byte list"
  has_digis :: bool
  LINKTYPE :: int
  L2TIME :: int
  LINKWINDOW :: int

record node = flex_config +
  sessions :: "session list"
  session_count :: nat
  learned :: "learned_state list"
  advertised :: "adv_state list"
  dests :: "dest_entry list"
  links :: "bpq_link list"
  link_opts :: "int list"
  ka_echo_at :: "int list"
  reap_bad_since :: "int list"
  nbr_entered :: "bool list"
  txq :: "(nat \<times> int \<times> string) list"
  getbuffs :: nat
  local_echo_skips :: nat
  rtt0_skips :: nat
  sess_events :: "sess_event list \<times> nat"
  sess_started :: nat
  sess_closed :: nat
  sess_reaped :: nat
  sess_migrated :: nat

text \<open>
  What the FlexNet code reads of LinBPQ: the clock, the node call, \<open>ConvFromAX25\<close>,
  \<open>GetBuff\<close>, the port table, the AXIP ports with their MAP entries (\<open>Portlist\<close> of
  bpqaxip.c, in order), \<open>CompareCalls\<close>, the lines of the path cache file, if it can be opened,
  whether a new one can be written, the lines of bpq32.cfg, if it can be opened, the calls of the
  application table and \<open>ConvToAX25\<close>. \<open>e_schar\<close> says whether a plain
  \<open>char\<close> is signed on the platform.
\<close>

record port_view =
  PORTTYPE :: int
  PORTMAXDIGIS :: nat
  PORTT1 :: int
  PORTWINDOW :: int
  PORTCALL :: "byte list"

record arp_entry =
  arp_call :: "byte list"
  arp_flex :: bool
  arp_opts :: int

record env =
  e_now :: int
  e_ticks :: "32 word"
  e_mycall :: "byte list"
  e_alias :: string
  e_conv :: "byte list \<Rightarrow> string"
  e_getbuff :: "nat \<Rightarrow> bool"
  e_ports :: "int \<Rightarrow> port_view option"
  e_axip :: "(int \<times> arp_entry list) list"
  e_cmp :: "byte list \<Rightarrow> byte list \<Rightarrow> bool"
  e_cache_lines :: "string list option"
  e_cache_write :: bool
  e_schar :: bool
  e_cfg :: "string list option"
  e_appls :: "byte list list"
  e_toax25 :: "string \<Rightarrow> byte list option"

definition node0 :: "flex_config \<Rightarrow> bpq_link list \<Rightarrow> node" where
  "node0 c ls = flex_config.extend c
     \<lparr>sessions = replicate FLEXNET_MAX_SESSIONS session0, session_count = 0,
      learned = replicate FLEXNET_MAX_SESSIONS learned0,
      advertised = replicate FLEXNET_MAX_SESSIONS adv_state0, dests = [], links = ls,
      link_opts = replicate FLEXNET_MAX_SESSIONS 0, ka_echo_at = replicate FLEXNET_MAX_SESSIONS 0,
      reap_bad_since = replicate FLEXNET_MAX_SESSIONS 0,
      nbr_entered = replicate FLEXNET_MAX_SESSIONS False, txq = [], getbuffs = 0,
      local_echo_skips = 0, rtt0_skips = 0,
      sess_events = (replicate FLEX_SESS_EVENTS \<lparr>ev_t = 0, ev_peer = '''', ev_what = ''''\<rparr>, 0),
      sess_started = 0, sess_closed = 0, sess_reaped = 0, sess_migrated = 0\<rparr>"

section \<open>Updates of one slot\<close>

definition upd_sess :: "nat \<Rightarrow> (session \<Rightarrow> session) \<Rightarrow> node \<Rightarrow> node" where
  "upd_sess i f nd = nd\<lparr>sessions := (sessions nd)[i := f (sessions nd ! i)]\<rparr>"

definition upd_learned :: "nat \<Rightarrow> (learned_state \<Rightarrow> learned_state) \<Rightarrow> node \<Rightarrow> node" where
  "upd_learned i f nd = nd\<lparr>learned := (learned nd)[i := f (learned nd ! i)]\<rparr>"

definition upd_adv :: "nat \<Rightarrow> (adv_state \<Rightarrow> adv_state) \<Rightarrow> node \<Rightarrow> node" where
  "upd_adv i f nd = nd\<lparr>advertised := (advertised nd)[i := f (advertised nd ! i)]\<rparr>"

definition upd_link :: "nat \<Rightarrow> (bpq_link \<Rightarrow> bpq_link) \<Rightarrow> node \<Rightarrow> node" where
  "upd_link i f nd = nd\<lparr>links := (links nd)[i := f (links nd ! i)]\<rparr>"

text \<open>Every parallel table has its \<open>FLEXNET_MAX_SESSIONS\<close> slots.\<close>

definition node_wf :: "node \<Rightarrow> bool" where
  "node_wf nd \<longleftrightarrow> length (sessions nd) = FLEXNET_MAX_SESSIONS \<and>
     length (learned nd) = FLEXNET_MAX_SESSIONS \<and> length (advertised nd) = FLEXNET_MAX_SESSIONS \<and>
     length (link_opts nd) = FLEXNET_MAX_SESSIONS"

section \<open>Small predicates on sessions\<close>

definition FLEXNET_PID_CE :: int where "FLEXNET_PID_CE = 0xCE"

definition link_call :: "node \<Rightarrow> nat \<Rightarrow> byte list" where
  "link_call nd l = LINKCALL (links nd ! l)"

text \<open>\<open>flex_sess_peer_call\<close>: the empty string without a link.\<close>

definition flex_sess_peer_call :: "env \<Rightarrow> node \<Rightarrow> nat \<Rightarrow> string" where
  "flex_sess_peer_call ev nd si =
     (case s_LINK (sessions nd ! si) of None \<Rightarrow> '''' | Some l \<Rightarrow> trim_sp (e_conv ev (link_call nd l)))"

definition flex_peer_is_pcf :: "session option \<Rightarrow> bool" where
  "flex_peer_is_pcf s = (case s of None \<Rightarrow> True | Some s \<Rightarrow> peer_ka_term s \<noteq> SP)"

definition flex_is_established :: "session \<Rightarrow> bool" where
  "flex_is_established s \<longleftrightarrow> got_peer_init s \<or> flex_est_inferred s"

definition flex_sess_link_opts :: "node \<Rightarrow> int \<Rightarrow> int" where
  "flex_sess_link_opts nd i =
     (if i < 0 \<or> i \<ge> int FLEXNET_MAX_SESSIONS then 0 else link_opts nd ! nat i)"

text \<open>\<open>strncmp(a, b, FLEXNET_MAX_CALLSIGN) == 0\<close>.\<close>

definition call_eq10 :: "string \<Rightarrow> string \<Rightarrow> bool" where
  "call_eq10 a b \<longleftrightarrow> take FLEXNET_MAX_CALLSIGN a = take FLEXNET_MAX_CALLSIGN b"

text \<open>Splitting "CALL-n" at the last dash, as \<open>strrchr\<close> does; a bare call has SSID 0.\<close>

definition split_last_dash :: "string \<Rightarrow> string \<times> int" where
  "split_last_dash p =
     (if CHR ''-'' \<in> set p
      then let after = rev (takeWhile (\<lambda>c. c \<noteq> CHR ''-'') (rev p))
           in (take 19 (take (length p - length after - 1) p), atoi after)
      else (take 19 p, 0))"

definition flex_dest_is_session_peer :: "env \<Rightarrow> node \<Rightarrow> nat \<Rightarrow> string \<Rightarrow> int \<Rightarrow> int \<Rightarrow> bool" where
  "flex_dest_is_session_peer ev nd si dest lo hi =
     (if si \<ge> FLEXNET_MAX_SESSIONS \<or> dest = '''' then False
      else if \<not> s_active (sessions nd ! si) \<or> s_LINK (sessions nd ! si) = None then False
      else let peer = flex_sess_peer_call ev nd si in
        if peer = '''' then False
        else case split_last_dash peer of
          (base, ssid) \<Rightarrow> case_eq base dest \<and> ssid \<ge> lo \<and> ssid \<le> hi)"

definition flex_dest_is_our_peer :: "env \<Rightarrow> node \<Rightarrow> string \<Rightarrow> int \<Rightarrow> int \<Rightarrow> bool" where
  "flex_dest_is_our_peer ev nd dest lo hi =
     list_ex (\<lambda>si. flex_dest_is_session_peer ev nd si dest lo hi) [0..<FLEXNET_MAX_SESSIONS]"

text \<open>\<open>flex_target_is_direct_peer\<close>: "CALL-0" and "CALL" are the same station.\<close>

definition flex_target_is_direct_peer :: "env \<Rightarrow> node \<Rightarrow> string \<Rightarrow> bool" where
  "flex_target_is_direct_peer ev nd target =
     (if target = '''' then False
      else
        let t0 = take 19 target; n = length t0;
            t = (if n > 2 \<and> drop (n - 2) t0 = ''-0'' then take (n - 2) t0 else t0)
        in list_ex (\<lambda>si. s_active (sessions nd ! si) \<and> s_LINK (sessions nd ! si) \<noteq> None \<and>
                 flex_sess_peer_call ev nd si \<noteq> '''' \<and> case_eq (flex_sess_peer_call ev nd si) t)
             [0..<FLEXNET_MAX_SESSIONS])"

text \<open>\<open>flex_l2_same_call\<close>: the call bytes and the SSID, without the flag bits.\<close>

definition flex_l2_same_call :: "byte list \<Rightarrow> byte list \<Rightarrow> bool" where
  "flex_l2_same_call a b \<longleftrightarrow> take 6 a = take 6 b \<and> (a ! 6) AND 0x1E = (b ! 6) AND 0x1E"

definition pinned_call :: "byte list \<Rightarrow> bool" where
  "pinned_call a \<longleftrightarrow> a ! 0 \<noteq> 0"

definition flex_session_for_call :: "env \<Rightarrow> node \<Rightarrow> string \<Rightarrow> nat option" where
  "flex_session_for_call ev nd call =
     (if call = '''' then None
      else first_idx (\<lambda>s. s_active s \<and> pinned_call (peer_callsign s) \<and>
               case_eq (trim_sp (e_conv ev (peer_callsign s))) call) (sessions nd))"

section \<open>Declared FlexNet neighbours\<close>

definition flex_port_link_find :: "node \<Rightarrow> byte list \<Rightarrow> int \<Rightarrow> nat option" where
  "flex_port_link_find nd ax port =
     first_idx (\<lambda>pl. pl_usable pl \<and> pl_port pl = port \<and> flex_l2_same_call (pl_axcall pl) ax) (port_links nd)"

definition FlexNet_PortLinkOpts :: "node \<Rightarrow> byte list \<Rightarrow> int \<Rightarrow> int" where
  "FlexNet_PortLinkOpts nd ax port =
     (case flex_port_link_find nd ax port of None \<Rightarrow> -1 | Some i \<Rightarrow> pl_opts (port_links nd ! i))"

text \<open>The F-flagged MAP entries of a port, in the order the scans visit them.\<close>

definition arp_hit :: "byte list \<Rightarrow> arp_entry \<Rightarrow> bool" where
  "arp_hit ax e \<longleftrightarrow> arp_flex e \<and> flex_l2_same_call (arp_call e) ax"

definition axip_entries :: "env \<Rightarrow> int \<Rightarrow> arp_entry list" where
  "axip_entries ev port = concat (map snd (filter (\<lambda>(p, es). p = port) (e_axip ev)))"

definition FlexNet_IsPeerFlexNetMapped :: "env \<Rightarrow> node \<Rightarrow> byte list \<Rightarrow> int \<Rightarrow> bool" where
  "FlexNet_IsPeerFlexNetMapped ev nd ax port \<longleftrightarrow>
     list_ex (arp_hit ax) (axip_entries ev port) \<or> FlexNet_PortLinkOpts nd ax port \<ge> 0"

text \<open>Only the first AXIP port of the number is looked at.\<close>

definition FlexNet_AXIPMapState :: "env \<Rightarrow> byte list \<Rightarrow> int \<Rightarrow> int" where
  "FlexNet_AXIPMapState ev ax port =
     (case filter (\<lambda>(p, es). p = port) (e_axip ev) of
        [] \<Rightarrow> -1
      | (p, es) # _ \<Rightarrow> if list_ex (arp_hit ax) es then 1 else 0)"

definition FlexNet_PeerLinkOpts :: "env \<Rightarrow> node \<Rightarrow> byte list \<Rightarrow> int \<Rightarrow> int" where
  "FlexNet_PeerLinkOpts ev nd ax port =
     (case filter (arp_hit ax) (axip_entries ev port) of
        e # _ \<Rightarrow> arp_opts e
      | [] \<Rightarrow> FlexNet_PortLinkOpts nd ax port)"

section \<open>Keys of the learned and advertised tables\<close>

type_synonym rkey = "string \<times> int \<times> int"

definition rkey :: "string \<Rightarrow> int \<Rightarrow> int \<Rightarrow> rkey" where
  "rkey call lo hi = (take FLEXNET_MAX_CALLSIGN call, lo, hi)"

definition learned_key :: "learned_route \<Rightarrow> rkey" where
  "learned_key r = rkey (l_call r) (l_lo r) (l_hi r)"

definition adv_key :: "adv_route \<Rightarrow> rkey" where
  "adv_key a = rkey (a_call a) (a_lo a) (a_hi a)"

definition learned_idx :: "rkey \<Rightarrow> learned_route list \<Rightarrow> nat option" where
  "learned_idx k rs = first_idx (\<lambda>r. learned_key r = k) rs"

definition adv_idx :: "rkey \<Rightarrow> adv_route list \<Rightarrow> nat option" where
  "adv_idx k as = first_idx (\<lambda>a. adv_key a = k) as"

interpretation lrn: keyed_table learned_key learned_idx FLEXNET_MAX_LEARNED_PER_NEIGHBOUR
  by unfold_locales (simp add: learned_idx_def)

interpretation adv: keyed_table adv_key adv_idx FLEXNET_MAX_ADVERTISED_PER_PEER
  by unfold_locales (simp add: adv_idx_def)

definition flex_learned_has :: "node \<Rightarrow> nat \<Rightarrow> string \<Rightarrow> int \<Rightarrow> int \<Rightarrow> bool" where
  "flex_learned_has nd pe dest lo hi =
     (if pe \<ge> FLEXNET_MAX_SESSIONS \<or> dest = '''' then False
      else learned_idx (rkey dest lo hi) (routes (learned nd ! pe)) \<noteq> None)"

definition flex_records_allowed :: "node \<Rightarrow> nat \<Rightarrow> bool" where
  "flex_records_allowed nd pe =
     (if pe \<ge> FLEXNET_MAX_SESSIONS then False
      else if \<not> pcf_quiesce nd then True
      else \<not> pcf_quiesced (sessions nd ! pe))"

section \<open>Handing frames to a link\<close>

text \<open>
  \<open>flex_send_frame\<close>: \<open>GetBuff\<close> may have no buffer left, and the frame is dropped
  without a word. \<open>e_getbuff n\<close> says whether the \<open>n\<close>-th call succeeds.
\<close>

definition flex_send_frame :: "env \<Rightarrow> nat \<Rightarrow> int \<Rightarrow> string \<Rightarrow> node \<Rightarrow> node" where
  "flex_send_frame ev l pid data nd =
     (let nd1 = nd\<lparr>getbuffs := getbuffs nd + 1\<rparr>
      in if e_getbuff ev (getbuffs nd) then nd1\<lparr>txq := txq nd @ [(l, pid, data)]\<rparr> else nd1)"

fun flex_send_frames :: "env \<Rightarrow> nat \<Rightarrow> string list \<Rightarrow> node \<Rightarrow> node" where
  "flex_send_frames ev l [] nd = nd"
| "flex_send_frames ev l (f # fs) nd = flex_send_frames ev l fs (flex_send_frame ev l FLEXNET_PID_CE f nd)"

definition flex_send_init :: "env \<Rightarrow> nat \<Rightarrow> nat \<Rightarrow> node \<Rightarrow> node" where
  "flex_send_init ev l si nd =
     (let init_max = (if ssid_hi nd \<ge> 0 then ssid_hi nd else node_ssid (e_mycall ev)) in
      case flex_build_init 8 init_max of
        None \<Rightarrow> nd
      | Some fr \<Rightarrow> upd_sess si (\<lambda>s. s\<lparr>last_init_tx := e_now ev\<rparr>) (flex_send_frame ev l FLEXNET_PID_CE fr nd))"

definition send_keepalive :: "env \<Rightarrow> nat \<Rightarrow> node \<Rightarrow> node" where
  "send_keepalive ev l nd =
     (case flex_build_keepalive (int FLEXNET_KEEPALIVE_LEN) of
        None \<Rightarrow> nd | Some fr \<Rightarrow> flex_send_frame ev l FLEXNET_PID_CE fr nd)"

text \<open>\<open>flex_send_own_routes\<close>: the node's own frame, then the end-of-batch token unless deferred.\<close>

definition flex_send_own_routes :: "env \<Rightarrow> nat \<Rightarrow> bool \<Rightarrow> node \<Rightarrow> node" where
  "flex_send_own_routes ev l defer_eob nd =
     (case flex_own_base_call (e_conv ev) (e_mycall ev) of (mycall, my_ssid) \<Rightarrow>
      case flex_own_ssid_range nd my_ssid of (lo, hi) \<Rightarrow>
      let nd1 = (if mycall = '''' then nd
                 else case flex_build_own_frame (int FLEXNET_ADVERT_FRAME_BYTES) mycall lo hi (locals nd) of
                        None \<Rightarrow> nd
                      | Some fr \<Rightarrow> flex_send_frame ev l FLEXNET_PID_CE fr nd)
      in if defer_eob then nd1
         else flex_send_frame ev l FLEXNET_PID_CE [CHR ''3'', CHR ''-'', CR] nd1)"

section \<open>A small node for the examples\<close>

text \<open>Two active neighbours on one port; the first has taught us DB0FAA.\<close>

definition demo_env :: env where
  "demo_env = \<lparr>e_now = 1000, e_ticks = 0, e_mycall = [0,0,0,0,0,0,0], e_alias = ''NODE  '',
     e_conv = (\<lambda>ax. if hd ax = 1 then ''IW2OHX-14'' else if hd ax = 2 then ''IW2OHX-12'' else ''IR2UFV''),
     e_getbuff = (\<lambda>n. True),
     e_ports = (\<lambda>p. Some \<lparr>PORTTYPE = 0, PORTMAXDIGIS = 8, PORTT1 = 30, PORTWINDOW = 4, PORTCALL = [0x9A,0x40,0x40,0x40,0x40,0x40,0x60]\<rparr>), e_axip = [], e_cmp = (=),
     e_cache_lines = None, e_cache_write = True,
     e_schar = True, e_cfg = None, e_appls = [], e_toax25 = (\<lambda>s. None)\<rparr>"

definition demo_link :: "byte \<Rightarrow> bpq_link" where
  "demo_link b = \<lparr>LINKCALL = [b,0,0,0,0,0,0], L2STATE = 5, FlexNetLink = True, LINKPORT = Some 1,
     OURCALL = [0,0,0,0,0,0,0], has_digis = False, LINKTYPE = 1, L2TIME = 30, LINKWINDOW = 4\<rparr>"

definition demo_session :: "nat \<Rightarrow> session" where
  "demo_session l = session0\<lparr>s_LINK := Some l, s_port := 1, s_active := True, our_link_time := 2,
     got_peer_init := True, sent_routes := True, peer_ka_term := SP\<rparr>"

definition demo_route :: learned_route where
  "demo_route = \<lparr>l_call = ''DB0FAA'', l_lo = 0, l_hi = 15, l_rtt = 10, l_last_heard = 900, l_direct = False\<rparr>"

definition demo_node :: node where
  "demo_node = (node0 (default_config\<lparr>transit_enabled := True, l2_transit_enabled := True\<rparr>) [demo_link 1, demo_link 2])
     \<lparr>sessions := [demo_session 0, demo_session 1] @ replicate 6 session0,
      learned := [learned0\<lparr>routes := [demo_route]\<rparr>] @ replicate 7 learned0\<rparr>"

end
