(* ===== verification/Flex_Advert.thy ===== *)
theory Flex_Advert
  imports Flex_Node
begin

text \<open>
  Event-driven route advertisement (FlexNetCode.c, "v2.2 rc4"): the cost a neighbour would be told
  (\<open>flex_expected_rtt\<close>), the count-to-infinity guard (\<open>flex_climb_is_loop\<close>), the
  decision rule (\<open>flex_advertise_check\<close>), the token bucket that meters queued records onto
  the wire (\<open>flex_advertise_drain\<close>) and the walks that trigger them. The properties of these
  operations are in Flex_Advert_Props.
\<close>

section \<open>Constants\<close>

definition FLEXNET_REFRESH_THRESHOLD_PCT :: int where "FLEXNET_REFRESH_THRESHOLD_PCT = 10"
definition FLEXNET_REFRESH_THRESHOLD_ABS :: int where "FLEXNET_REFRESH_THRESHOLD_ABS = 1"
definition FLEXNET_BUCKET_REFILL_PCF_S :: int where "FLEXNET_BUCKET_REFILL_PCF_S = 5"
definition FLEXNET_BUCKET_REFILL_XNET_S :: int where "FLEXNET_BUCKET_REFILL_XNET_S = 2"
definition FLEXNET_BUCKET_SIZE_PCF :: int where "FLEXNET_BUCKET_SIZE_PCF = 2"
definition FLEXNET_BUCKET_SIZE_XNET :: int where "FLEXNET_BUCKET_SIZE_XNET = 4"
definition FLEXNET_CLIMB_RATIO :: int where "FLEXNET_CLIMB_RATIO = 4"
definition FLEXNET_CLIMB_MIN_STEPS :: int where "FLEXNET_CLIMB_MIN_STEPS = 3"
definition FLEXNET_EOB_QUIET_REFILLS :: int where "FLEXNET_EOB_QUIET_REFILLS = 2"
definition FLEXNET_ADVERT_RECS_PCF :: nat where "FLEXNET_ADVERT_RECS_PCF = 16"
definition FLEXNET_ADVERT_RECS_XNET :: nat where "FLEXNET_ADVERT_RECS_XNET = 20"
definition FLEXNET_POISON_HOLDDOWN :: int where "FLEXNET_POISON_HOLDDOWN = 90"

section \<open>What a neighbour would be told\<close>

text \<open>
  What session \<open>si\<close> offers for the destination to neighbour \<open>peer\<close> (\<open>None\<close> is the
  index -1): cost, whether it is the session's direct neighbour, and the part of the cost that is
  the '+' penalty. \<open>None\<close> for every \<open>continue\<close> and \<open>break\<close> of the loop body.
\<close>

definition src_offer ::
  "env \<Rightarrow> node \<Rightarrow> nat option \<Rightarrow> string \<Rightarrow> int \<Rightarrow> int \<Rightarrow> nat \<Rightarrow> (int \<times> bool \<times> int) option" where
  "src_offer ev nd peer dest lo hi si =
     (let s = sessions nd ! si in
      if Some si = peer then None
      else if \<not> s_active s then None
      else if \<not> flex_crossport_active nd \<and>
              (case peer of None \<Rightarrow> False
               | Some p \<Rightarrow> p < FLEXNET_MAX_SESSIONS \<and> s_port s \<noteq> s_port (sessions nd ! p)) then None
      else case learned_idx (rkey dest lo hi) (routes (learned nd ! si)) of
        None \<Rightarrow> None
      | Some ri \<Rightarrow>
          let lr = routes (learned nd ! si) ! ri in
          if l_rtt lr \<le> 0 then None
          else if l_rtt lr \<ge> FLEXNET_RTT_INFINITY then None
          else
            let opts = flex_sess_link_opts nd (int si);
                is_nbr = (l_direct lr \<or> flex_dest_is_session_peer ev nd si dest lo hi)
            in if \<not> flex_link_opts_source_allows opts is_nbr then None
               else
                 let link_rtt = (if our_link_time s < 1 then 1 else our_link_time s);
                     raw0 = l_rtt lr + link_rtt;
                     raw = (if raw0 \<ge> FLEXNET_RTT_INFINITY then FLEXNET_RTT_INFINITY - 1 else raw0);
                     cand = flex_link_opts_cost opts raw
                 in Some (cand, l_direct lr, cand - raw))"

record expectation =
  x_rtt :: int
  x_src :: "nat option"
  x_direct :: bool
  x_pen :: int

definition no_expectation :: expectation where
  "no_expectation = \<lparr>x_rtt = FLEXNET_RTT_INFINITY, x_src = None, x_direct = False, x_pen = 0\<rparr>"

definition better_offer :: "(nat \<Rightarrow> (int \<times> bool \<times> int) option) \<Rightarrow> nat \<Rightarrow> expectation \<Rightarrow> expectation" where
  "better_offer offer si x =
     (case offer si of
        None \<Rightarrow> x
      | Some (cand, dir, pen) \<Rightarrow>
          if cand < x_rtt x then \<lparr>x_rtt = cand, x_src = Some si, x_direct = dir, x_pen = pen\<rparr> else x)"

definition flex_expected_rtt ::
  "env \<Rightarrow> node \<Rightarrow> nat option \<Rightarrow> string \<Rightarrow> int \<Rightarrow> int \<Rightarrow> expectation" where
  "flex_expected_rtt ev nd peer dest lo hi =
     (if (case peer of None \<Rightarrow> False | Some p \<Rightarrow> flex_dest_is_session_peer ev nd p dest lo hi)
      then no_expectation
      else fold (better_offer (src_offer ev nd peer dest lo hi)) [0..<FLEXNET_MAX_SESSIONS] no_expectation)"

section \<open>Count-to-infinity guard\<close>

datatype climb = CLIMB_OK | CLIMB_WITHDRAW | CLIMB_SUPPRESS

record climb_state =
  c_floor :: int
  c_steps :: int
  c_looping :: bool

text \<open>
  C truncates \<open>expected / *rtt_floor\<close> towards zero and \<open>div\<close> rounds down; both are below
  \<open>FLEXNET_CLIMB_RATIO\<close> for the same arguments.
\<close>

definition climb_inflated :: "int \<Rightarrow> int \<Rightarrow> bool" where
  "climb_inflated flr expected = (flr > 0 \<and> expected div flr \<ge> FLEXNET_CLIMB_RATIO)"

definition flex_climb_is_loop :: "climb_state \<Rightarrow> int \<Rightarrow> int \<Rightarrow> climb \<times> climb_state" where
  "flex_climb_is_loop c prev expected =
     (if expected \<ge> FLEXNET_RTT_INFINITY then (CLIMB_OK, c)
      else if c_looping c \<and> climb_inflated (c_floor c) expected then (CLIMB_SUPPRESS, c)
      else
        let c1 = (if c_looping c then c\<lparr>c_looping := False, c_steps := 0\<rparr> else c);
            c2 = (if prev \<ge> 0 \<and> expected > prev then c1\<lparr>c_steps := c_steps c1 + 1\<rparr>
                  else c1\<lparr>c_steps := 0,
                       c_floor := (if c_floor c1 < 0 \<or> expected < c_floor c1 then expected else c_floor c1)\<rparr>)
        in if c_floor c2 > 0 \<and> c_steps c2 \<ge> FLEXNET_CLIMB_MIN_STEPS \<and> climb_inflated (c_floor c2) expected
           then (CLIMB_WITHDRAW, c2\<lparr>c_looping := True, c_steps := 0\<rparr>)
           else (CLIMB_OK, c2))"

section \<open>The decision rule\<close>

definition new_adv :: "string \<Rightarrow> int \<Rightarrow> int \<Rightarrow> adv_route" where
  "new_adv dest lo hi = \<lparr>a_call = take (FLEXNET_MAX_CALLSIGN - 1) dest, a_lo = lo, a_hi = hi,
     last_advertised_rtt = -1, last_advertised_at = 0, pending = False, pending_rtt = 0,
     pending_pen = 0, last_pen = 0, rtt_floor = -1, climb_steps = 0, looping = False\<rparr>"

text \<open>\<open>flex_adv_find\<close>: the entry's index, created when asked to and there is room.\<close>

definition flex_adv_find :: "adv_state \<Rightarrow> string \<Rightarrow> int \<Rightarrow> int \<Rightarrow> bool \<Rightarrow> nat option \<times> adv_state" where
  "flex_adv_find st dest lo hi create =
     (case adv_idx (rkey dest lo hi) (advs st) of
        Some i \<Rightarrow> (Some i, st)
      | None \<Rightarrow>
          if \<not> create then (None, st)
          else if length (advs st) \<ge> FLEXNET_MAX_ADVERTISED_PER_PEER then (None, st\<lparr>warned_full := True\<rparr>)
          else (Some (length (advs st)), st\<lparr>advs := advs st @ [new_adv dest lo hi]\<rparr>))"

definition told_before :: "adv_route option \<Rightarrow> bool" where
  "told_before a =
     (case a of None \<Rightarrow> False
      | Some a \<Rightarrow> last_advertised_rtt a \<ge> 0 \<and> last_advertised_rtt a < FLEXNET_RTT_INFINITY)"

text \<open>
  The gates in front of the decision. \<open>Quiet clear\<close> is an early return, with \<open>clear\<close> when
  it clears the entry's \<open>pending\<close>; \<open>Offer\<close> goes on with the cost, the penalty in it and
  whether the source is a direct neighbour.
\<close>

datatype gate = Quiet bool | Offer int int bool

definition gate_own_only :: "env \<Rightarrow> node \<Rightarrow> nat \<Rightarrow> adv_route option \<Rightarrow> int \<Rightarrow> int \<Rightarrow> (int \<times> int) option" where
  "gate_own_only ev nd peer a rtt pen =
     (if has_opt (flex_sess_link_opts nd (int peer)) FLEX_LOPT_OWN_ONLY
      then (if told_before a then Some (FLEXNET_RTT_INFINITY, 0) else None)
      else Some (rtt, pen))"

definition taught_us :: "env \<Rightarrow> node \<Rightarrow> nat \<Rightarrow> string \<Rightarrow> int \<Rightarrow> int \<Rightarrow> bool" where
  "taught_us ev nd peer dest lo hi =
     (flex_learned_has nd peer dest lo hi \<and> \<not> flex_dest_is_our_peer ev nd dest lo hi)"

definition advert_gate ::
  "env \<Rightarrow> node \<Rightarrow> nat \<Rightarrow> string \<Rightarrow> int \<Rightarrow> int \<Rightarrow> adv_route option \<Rightarrow> gate" where
  "advert_gate ev nd peer dest lo hi a =
     (let x = flex_expected_rtt ev nd (Some peer) dest lo hi in
      case gate_own_only ev nd peer a (x_rtt x) (x_pen x) of
        None \<Rightarrow> Quiet True
      | Some (e0, pen) \<Rightarrow>
          if taught_us ev nd peer dest lo hi \<and> \<not> told_before a then Quiet False
          else
            let e1 = (if taught_us ev nd peer dest lo hi then FLEXNET_RTT_INFINITY else e0) in
            if flex_advertise_direct_only nd \<and> \<not> x_direct x \<and> \<not> told_before a then Quiet False
            else
              let e2 = (if flex_advertise_direct_only nd \<and> \<not> x_direct x then FLEXNET_RTT_INFINITY else e1) in
              if a \<noteq> None \<and> \<not> x_direct x \<and> last_advertised_rtt (the a) \<ge> FLEXNET_RTT_INFINITY \<and>
                 e2 < FLEXNET_RTT_INFINITY \<and>
                 e_now ev - last_advertised_at (the a) < FLEXNET_POISON_HOLDDOWN
              then Quiet True
              else if x_src x = None \<and> \<not> told_before a then Quiet False
              else Offer e2 pen (x_direct x))"

text \<open>The climb guard on one entry, judged on costs without the '+' penalty.\<close>

definition adv_climb :: "adv_route \<Rightarrow> climb_state" where
  "adv_climb a = \<lparr>c_floor = rtt_floor a, c_steps = climb_steps a, c_looping = looping a\<rparr>"

definition set_climb :: "climb_state \<Rightarrow> adv_route \<Rightarrow> adv_route" where
  "set_climb c a = a\<lparr>rtt_floor := c_floor c, climb_steps := c_steps c, looping := c_looping c\<rparr>"

definition climb_guard :: "adv_route \<Rightarrow> int \<Rightarrow> int \<Rightarrow> climb \<times> climb_state" where
  "climb_guard a expected pen =
     (let prev = last_advertised_rtt a;
          last_c = (if prev < 0 \<or> prev \<ge> FLEXNET_RTT_INFINITY then prev else prev - last_pen a);
          exp_c = (if expected \<ge> FLEXNET_RTT_INFINITY then expected else expected - pen)
      in flex_climb_is_loop (adv_climb a) last_c exp_c)"

text \<open>Is the move from the last cost sent big enough to be worth a frame?\<close>

definition advert_fires :: "int \<Rightarrow> int \<Rightarrow> bool \<Rightarrow> bool" where
  "advert_fires prev expected force =
     (if prev \<ge> 0 \<and> \<not> force
      then let delta = (if expected > prev then expected - prev else prev - expected);
               thresh = max ((prev * FLEXNET_REFRESH_THRESHOLD_PCT) div 100) FLEXNET_REFRESH_THRESHOLD_ABS
           in \<not> delta < thresh
      else True)"

definition queue_value :: "adv_route \<Rightarrow> int \<Rightarrow> int \<Rightarrow> bool \<Rightarrow> adv_route" where
  "queue_value a expected pen force =
     (let p = (if expected \<ge> FLEXNET_RTT_INFINITY then 0 else pen) in
      if \<not> advert_fires (last_advertised_rtt a) expected force
      then (if pending a then a\<lparr>pending_rtt := expected, pending_pen := p\<rparr> else a)
      else a\<lparr>pending := True, pending_rtt := expected, pending_pen := p\<rparr>)"

definition adv_decide :: "adv_route \<Rightarrow> int \<Rightarrow> int \<Rightarrow> bool \<Rightarrow> bool \<Rightarrow> adv_route" where
  "adv_decide a expected pen direct force =
     (if direct then queue_value a expected pen force
      else case climb_guard a expected pen of
        (v, c) \<Rightarrow>
          let a1 = set_climb c a in
          if v = CLIMB_SUPPRESS \<and> \<not> force then a1\<lparr>pending := False\<rparr>
          else queue_value a1 (if v = CLIMB_OK then expected else FLEXNET_RTT_INFINITY) pen force)"

definition set_advs :: "nat \<Rightarrow> adv_state \<Rightarrow> node \<Rightarrow> node" where
  "set_advs peer st nd = nd\<lparr>advertised := (advertised nd)[peer := st]\<rparr>"

definition is_own_record :: "env \<Rightarrow> node \<Rightarrow> string \<Rightarrow> int \<Rightarrow> int \<Rightarrow> bool" where
  "is_own_record ev nd dest lo hi =
     (case flex_own_base_call (e_conv ev) (e_mycall ev) of (own, my_ssid) \<Rightarrow>
      case flex_own_ssid_range nd my_ssid of (own_lo, own_hi) \<Rightarrow>
      flex_record_is_ours dest lo hi own own_lo own_hi)"

text \<open>The conditions under which nothing is decided at all.\<close>

definition advert_blocked :: "env \<Rightarrow> node \<Rightarrow> nat \<Rightarrow> string \<Rightarrow> int \<Rightarrow> int \<Rightarrow> bool" where
  "advert_blocked ev nd peer dest lo hi =
     (\<not> flex_records_allowed nd peer \<or> \<not> transit_enabled nd \<or> peer \<ge> FLEXNET_MAX_SESSIONS \<or>
      \<not> s_active (sessions nd ! peer) \<or> s_LINK (sessions nd ! peer) = None \<or> dest = '''' \<or>
      is_own_record ev nd dest lo hi)"

definition flex_advertise_check ::
  "env \<Rightarrow> nat \<Rightarrow> string \<Rightarrow> int \<Rightarrow> int \<Rightarrow> bool \<Rightarrow> node \<Rightarrow> node" where
  "flex_advertise_check ev peer dest lo hi force nd =
     (if advert_blocked ev nd peer dest lo hi then nd
      else
        let st = advertised nd ! peer; ai = fst (flex_adv_find st dest lo hi False);
            a = map_option (\<lambda>i. advs st ! i) ai
        in case advert_gate ev nd peer dest lo hi a of
          Quiet clear \<Rightarrow>
            (case ai of
               Some i \<Rightarrow> (if clear then set_advs peer (st\<lparr>advs := (advs st)[i := (advs st ! i)\<lparr>pending := False\<rparr>]\<rparr>) nd
                          else nd)
             | None \<Rightarrow> nd)
        | Offer expected pen direct \<Rightarrow>
            (case flex_adv_find st dest lo hi True of
               (None, st1) \<Rightarrow> set_advs peer st1 nd
             | (Some i, st1) \<Rightarrow>
                 set_advs peer (st1\<lparr>advs := (advs st1)[i := adv_decide (advs st1 ! i) expected pen direct force]\<rparr>) nd))"

section \<open>The token bucket\<close>

text \<open>
  One frame of at most \<open>k\<close> more records: the first pending entry each time, committed as it
  is written. A record that does not fit ends the frame; when it is the first one it can never be
  sent and is dropped. The result is the frame so far, the table and the number of records.
\<close>

definition commit :: "int \<Rightarrow> adv_route \<Rightarrow> adv_route" where
  "commit now a = a\<lparr>last_advertised_rtt := pending_rtt a, last_pen := pending_pen a,
     last_advertised_at := now, pending := False\<rparr>"

fun pack_frame :: "nat \<Rightarrow> int \<Rightarrow> string \<Rightarrow> adv_route list \<Rightarrow> nat \<Rightarrow> string \<times> adv_route list \<times> nat" where
  "pack_frame 0 now fr as n = (fr, as, n)"
| "pack_frame (Suc k) now fr as n =
     (case first_idx pending as of
        None \<Rightarrow> (fr, as, n)
      | Some i \<Rightarrow>
          let a = as ! i in
          case flex_build_route_rec (int FLEXNET_ADVERT_FRAME_BYTES - int (length fr) - 1)
                 (a_call a) (a_lo a) (a_hi a) (pending_rtt a) of
            None \<Rightarrow> (fr, if n = 0 then as[i := a\<lparr>pending := False\<rparr>] else as, n)
          | Some r \<Rightarrow> pack_frame k now (fr @ r) (as[i := commit now a]) (n + 1))"

text \<open>The loop that buys frames with tokens.\<close>

function drain_frames :: "nat \<Rightarrow> int \<Rightarrow> rat \<Rightarrow> adv_route list \<Rightarrow> rat \<times> adv_route list \<times> string list" where
  "drain_frames max_recs now tok as =
     (if tok < 1 then (tok, as, [])
      else case pack_frame max_recs now ''3'' as 0 of
        (fr, as1, n) \<Rightarrow>
          if n = 0 then (tok, as1, [])
          else case drain_frames max_recs now (tok - 1) as1 of
            (tok2, as2, frs) \<Rightarrow> (tok2, as2, (fr @ [CR]) # frs))"
  by pat_completeness auto

termination
  by (relation "measure (\<lambda>(m, now, tok, as). nat \<lfloor>tok\<rfloor>)") (auto simp: not_less)

declare drain_frames.simps [simp del]

definition bucket_refill_s :: "bool \<Rightarrow> int" where
  "bucket_refill_s is_pcf = (if is_pcf then FLEXNET_BUCKET_REFILL_PCF_S else FLEXNET_BUCKET_REFILL_XNET_S)"

definition bucket_size :: "bool \<Rightarrow> rat" where
  "bucket_size is_pcf = of_int (if is_pcf then FLEXNET_BUCKET_SIZE_PCF else FLEXNET_BUCKET_SIZE_XNET)"

definition bucket_recs :: "bool \<Rightarrow> nat" where
  "bucket_recs is_pcf = (if is_pcf then FLEXNET_ADVERT_RECS_PCF else FLEXNET_ADVERT_RECS_XNET)"

definition bucket_refill :: "bool \<Rightarrow> int \<Rightarrow> adv_state \<Rightarrow> adv_state" where
  "bucket_refill is_pcf now st =
     (if last_tokens_refill st = 0
      then st\<lparr>tokens := bucket_size is_pcf, last_tokens_refill := now\<rparr>
      else if now > last_tokens_refill st
      then st\<lparr>tokens := min (tokens st + of_int (now - last_tokens_refill st) / of_int (bucket_refill_s is_pcf))
                            (bucket_size is_pcf),
              last_tokens_refill := now\<rparr>
      else st)"

text \<open>
  The end-of-batch clock: is a closing token due now? It needs a queue that stayed empty for
  \<open>FLEXNET_EOB_QUIET_REFILLS\<close> refill intervals.
\<close>

definition eob_step :: "bool \<Rightarrow> int \<Rightarrow> nat \<Rightarrow> adv_state \<Rightarrow> bool \<times> adv_state" where
  "eob_step is_pcf now frames st =
     (if \<not> eob_pending st then (False, st)
      else if list_ex pending (advs st) \<or> frames > 0 then (False, st\<lparr>eob_empty_since := 0\<rparr>)
      else if eob_empty_since st = 0 then (False, st\<lparr>eob_empty_since := now\<rparr>)
      else if now - eob_empty_since st \<ge> bucket_refill_s is_pcf * FLEXNET_EOB_QUIET_REFILLS
      then (True, st\<lparr>eob_pending := False, eob_empty_since := 0\<rparr>)
      else (False, st))"

text \<open>Everything \<open>flex_advertise_drain\<close> does to one neighbour's state: the frames, whether the
  closing token follows them, the new state.\<close>

definition drain_core :: "bool \<Rightarrow> bool \<Rightarrow> int \<Rightarrow> adv_state \<Rightarrow> string list \<times> bool \<times> adv_state" where
  "drain_core is_pcf quiesced now st =
     (if \<not> list_ex pending (advs st) \<and> \<not> eob_pending st then ([], False, st)
      else
        let st1 = bucket_refill is_pcf now st in
        case (if quiesced then (tokens st1, advs st1, [])
              else drain_frames (bucket_recs is_pcf) now (tokens st1) (advs st1)) of
          (tok, as, frs) \<Rightarrow>
            (case eob_step is_pcf now (length frs) (st1\<lparr>tokens := tok, advs := as\<rparr>) of
               (eob, st2) \<Rightarrow> (frs, eob, st2)))"

definition flex_advertise_drain :: "env \<Rightarrow> nat \<Rightarrow> node \<Rightarrow> node" where
  "flex_advertise_drain ev peer nd =
     (if \<not> transit_enabled nd \<or> peer \<ge> FLEXNET_MAX_SESSIONS then nd
      else
        let s = sessions nd ! peer in
        case s_LINK s of
          None \<Rightarrow> nd
        | Some l \<Rightarrow>
            if \<not> s_active s then nd
            else
              let is_pcf = flex_peer_is_pcf (Some s) in
              case drain_core is_pcf (\<not> flex_records_allowed nd peer) (e_now ev) (advertised nd ! peer) of
                (frs, eob, st) \<Rightarrow>
                  let nd1 = flex_send_frames ev l frs (set_advs peer st nd) in
                  if \<not> eob then nd1
                  else
                    let nd2 = flex_send_frame ev l FLEXNET_PID_CE [CHR ''3'', CHR ''-'', CR] nd1 in
                    if pcf_quiesce nd \<and> is_pcf \<and> \<not> pcf_quiesced s
                    then upd_sess peer (\<lambda>s. s\<lparr>pcf_quiesced := True, quiesced_since := e_now ev\<rparr>) nd2
                    else nd2)"

section \<open>Walks\<close>

text \<open>
  The pairs visited by \<open>flex_advertise_walk_for_peer\<close> are fixed before the walk: a check
  changes no learned route. The counters of the walk only feed the trace line and the callers'
  \<open>walked > 0\<close> and \<open>queued > 0\<close> tests, so the walk returns them with the node.
\<close>

definition walk_routes :: "node \<Rightarrow> nat \<Rightarrow> bool \<Rightarrow> learned_route list" where
  "walk_routes nd peer direct_only =
     concat (map (\<lambda>si. if si = peer \<or> \<not> s_active (sessions nd ! si) then []
                       else filter (\<lambda>lr. l_call lr \<noteq> '''' \<and> (direct_only \<longrightarrow> l_direct lr)) (routes (learned nd ! si)))
                 [0..<FLEXNET_MAX_SESSIONS])"

definition is_queued :: "node \<Rightarrow> nat \<Rightarrow> learned_route \<Rightarrow> bool" where
  "is_queued nd peer lr =
     (case adv_idx (learned_key lr) (advs (advertised nd ! peer)) of
        None \<Rightarrow> False | Some i \<Rightarrow> pending (advs (advertised nd ! peer) ! i))"

definition walk_step :: "env \<Rightarrow> nat \<Rightarrow> bool \<Rightarrow> learned_route \<Rightarrow> nat \<times> nat \<times> node \<Rightarrow> nat \<times> nat \<times> node" where
  "walk_step ev peer force lr s =
     (case s of (w, q, nd) \<Rightarrow>
      let nd1 = flex_advertise_check ev peer (l_call lr) (l_lo lr) (l_hi lr) force nd
      in (w + 1, (if is_queued nd1 peer lr \<and> \<not> is_queued nd peer lr then q + 1 else q), nd1))"

definition flex_advertise_walk_for_peer :: "env \<Rightarrow> nat \<Rightarrow> bool \<Rightarrow> bool \<Rightarrow> node \<Rightarrow> nat \<times> nat \<times> node" where
  "flex_advertise_walk_for_peer ev peer direct_only force nd =
     fold (walk_step ev peer force) (walk_routes nd peer direct_only) (0, 0, nd)"

definition check_others :: "env \<Rightarrow> nat \<Rightarrow> learned_route \<Rightarrow> node \<Rightarrow> node" where
  "check_others ev si lr nd =
     fold (\<lambda>p nd. if p = si \<or> \<not> s_active (sessions nd ! p) then nd
                  else flex_advertise_check ev p (l_call lr) (l_lo lr) (l_hi lr) False nd)
       [0..<FLEXNET_MAX_SESSIONS] nd"

definition drain_all :: "env \<Rightarrow> node \<Rightarrow> node" where
  "drain_all ev nd =
     fold (\<lambda>p nd. if s_active (sessions nd ! p) then flex_advertise_drain ev p nd else nd)
       [0..<FLEXNET_MAX_SESSIONS] nd"

definition flex_advertise_poison_session :: "env \<Rightarrow> nat \<Rightarrow> node \<Rightarrow> node" where
  "flex_advertise_poison_session ev dead nd =
     (if \<not> transit_enabled nd \<or> dead \<ge> FLEXNET_MAX_SESSIONS then nd
      else
        let nd1 = fold (check_others ev dead) (filter (\<lambda>lr. l_call lr \<noteq> '''') (routes (learned nd ! dead))) nd;
            nd2 = drain_all ev nd1
        in set_advs dead adv_state0 (upd_learned dead (\<lambda>st. st\<lparr>died_at := e_now ev\<rparr>) nd2))"

definition flex_advertise_seed_peer :: "env \<Rightarrow> nat \<Rightarrow> node \<Rightarrow> node" where
  "flex_advertise_seed_peer ev peer nd =
     (if \<not> transit_enabled nd \<or> peer \<ge> FLEXNET_MAX_SESSIONS then nd
      else case flex_advertise_walk_for_peer ev peer False False nd of
        (walked, queued, nd1) \<Rightarrow>
          let nd2 = (if queued > 0 then flex_advertise_drain ev peer nd1 else nd1)
          in upd_learned peer (\<lambda>st. st\<lparr>last_advert := e_now ev\<rparr>) nd2)"

definition flex_advertise_neighbours :: "env \<Rightarrow> nat \<Rightarrow> node \<Rightarrow> node" where
  "flex_advertise_neighbours ev peer nd =
     (if \<not> transit_enabled nd \<or> peer \<ge> FLEXNET_MAX_SESSIONS then nd
      else case flex_advertise_walk_for_peer ev peer True True nd of
        (walked, queued, nd1) \<Rightarrow>
          let nd2 = (if walked > 0 then flex_advertise_drain ev peer nd1 else nd1)
          in upd_learned peer (\<lambda>st. st\<lparr>last_advert := e_now ev\<rparr>) nd2)"

end
