(* ===== verification/Flex_Advert_Props.thy ===== *)
theory Flex_Advert_Props
  imports Flex_Advert
begin

text \<open>
  Correctness of route advertisement: what a neighbour is told is the cheapest cost that some other
  neighbour really offers; the count-to-infinity guard trips only on a climb and stays quiet after
  it; a queued finite cost has passed every gate; the token bucket bounds the frame rate; frames
  carry exactly the records that were committed.
\<close>

section \<open>The cost a neighbour is told\<close>

text \<open>
  Specification: session \<open>s\<close> may be the source of an offer to \<open>p\<close> with its learned route
  \<open>r\<close>, and the cost of that path.
\<close>

definition usable_source ::
  "env \<Rightarrow> node \<Rightarrow> nat \<Rightarrow> string \<Rightarrow> int \<Rightarrow> int \<Rightarrow> nat \<Rightarrow> learned_route \<Rightarrow> bool" where
  "usable_source ev nd p dest lo hi s r \<longleftrightarrow>
     s < FLEXNET_MAX_SESSIONS \<and> s \<noteq> p \<and> s_active (sessions nd ! s) \<and>
     (flex_crossport_active nd \<or> s_port (sessions nd ! s) = s_port (sessions nd ! p)) \<and>
     r \<in> set (routes (learned nd ! s)) \<and> learned_key r = rkey dest lo hi \<and>
     0 < l_rtt r \<and> l_rtt r < FLEXNET_RTT_INFINITY \<and>
     flex_link_opts_source_allows (flex_sess_link_opts nd (int s))
       (l_direct r \<or> flex_dest_is_session_peer ev nd s dest lo hi)"

definition path_cost :: "node \<Rightarrow> nat \<Rightarrow> learned_route \<Rightarrow> int" where
  "path_cost nd s r = flex_link_opts_cost (flex_sess_link_opts nd (int s))
     (min (FLEXNET_RTT_INFINITY - 1) (l_rtt r + max 1 (our_link_time (sessions nd ! s))))"

definition learned_ok :: "node \<Rightarrow> bool" where
  "learned_ok nd \<longleftrightarrow> length (learned nd) = FLEXNET_MAX_SESSIONS \<and>
     (\<forall>st \<in> set (learned nd). keys_ok learned_key FLEXNET_MAX_LEARNED_PER_NEIGHBOUR (routes st))"

lemma path_cost_range:
  "usable_source ev nd p dest lo hi s r \<Longrightarrow> 0 < path_cost nd s r \<and> path_cost nd s r < FLEXNET_RTT_INFINITY"
proof -
  assume "usable_source ev nd p dest lo hi s r"
  then have r: "0 < l_rtt r" by (simp add: usable_source_def)
  let ?raw = "min (FLEXNET_RTT_INFINITY - 1) (l_rtt r + max 1 (our_link_time (sessions nd ! s)))"
  have "0 < ?raw" "?raw < FLEXNET_RTT_INFINITY" using r by (auto simp: rtt_defs)
  then show ?thesis
    using link_opts_cost_finite [of ?raw "flex_sess_link_opts nd (int s)"]
      link_opts_cost_ge [of ?raw "flex_sess_link_opts nd (int s)"]
    unfolding path_cost_def by linarith
qed

lemma clamp_min_max:
  "(if (v::int) \<ge> m then m - 1 else v) = min (m - 1) v"
  "(if (w::int) < 1 then 1 else w) = max 1 w"
  by auto

lemma learned_idx_mem:
  assumes "learned_ok nd" "s < FLEXNET_MAX_SESSIONS" "r \<in> set (routes (learned nd ! s))"
  shows "\<exists>i. learned_idx (learned_key r) (routes (learned nd ! s)) = Some i \<and> routes (learned nd ! s) ! i = r"
proof -
  have "learned nd ! s \<in> set (learned nd)" using assms by (simp add: learned_ok_def)
  then have ok: "keys_ok learned_key FLEXNET_MAX_LEARNED_PER_NEIGHBOUR (routes (learned nd ! s))"
    using assms(1) by (simp add: learned_ok_def)
  obtain i where "i < length (routes (learned nd ! s))" "routes (learned nd ! s) ! i = r"
    using assms(3) by (metis in_set_conv_nth)
  then show ?thesis using lrn.find_unique [OF ok] by metis
qed

lemma src_offer_iff:
  assumes "learned_ok nd" "p < FLEXNET_MAX_SESSIONS" "s < FLEXNET_MAX_SESSIONS"
  shows "src_offer ev nd (Some p) dest lo hi s = Some (c, d, e) \<longleftrightarrow>
    (\<exists>r. usable_source ev nd p dest lo hi s r \<and> c = path_cost nd s r \<and> d = l_direct r \<and>
         e = c - min (FLEXNET_RTT_INFINITY - 1) (l_rtt r + max 1 (our_link_time (sessions nd ! s))))"
    (is "?L \<longleftrightarrow> (\<exists>r. ?R r)")
proof
  assume L: ?L
  then obtain ri where ri: "learned_idx (rkey dest lo hi) (routes (learned nd ! s)) = Some ri"
    by (auto simp: src_offer_def Let_def split: if_splits option.splits)
  let ?r = "routes (learned nd ! s) ! ri"
  have k: "?r \<in> set (routes (learned nd ! s))" "learned_key ?r = rkey dest lo hi"
    using lrn.find_key [OF ri] by auto
  have "?R ?r" using L ri k assms(2,3)
    by (auto simp: src_offer_def Let_def usable_source_def path_cost_def clamp_min_max split: if_split_asm)
  then show "\<exists>r. ?R r" ..
next
  assume "\<exists>r. ?R r"
  then obtain r where r: "?R r" ..
  then have u: "usable_source ev nd p dest lo hi s r" by simp
  then obtain i where "learned_idx (rkey dest lo hi) (routes (learned nd ! s)) = Some i"
    "routes (learned nd ! s) ! i = r"
    using learned_idx_mem [OF assms(1,3), of r] by (auto simp: usable_source_def)
  then show ?L using r u assms(2,3)
    by (auto simp: src_offer_def Let_def usable_source_def path_cost_def clamp_min_max split: if_split_asm)
qed

text \<open>The loop keeps the first cheapest of the offers seen.\<close>

lemma fold_better_offer:
  fixes offer :: "nat \<Rightarrow> (int \<times> bool \<times> int) option"
  defines "x n \<equiv> fold (better_offer offer) [0..<n] no_expectation"
  shows "case x_src (x n) of
      None \<Rightarrow> x n = no_expectation \<and> (\<forall>s < n. \<forall>c d e. offer s = Some (c, d, e) \<longrightarrow> FLEXNET_RTT_INFINITY \<le> c)
    | Some s \<Rightarrow> s < n \<and> offer s = Some (x_rtt (x n), x_direct (x n), x_pen (x n)) \<and>
        x_rtt (x n) < FLEXNET_RTT_INFINITY \<and>
        (\<forall>t < n. \<forall>c d e. offer t = Some (c, d, e) \<longrightarrow> x_rtt (x n) \<le> c)"
proof (induction n)
  case 0
  then show ?case by (simp add: x_def no_expectation_def)
next
  case (Suc n)
  have xs: "x (Suc n) = better_offer offer n (x n)" by (simp add: x_def)
  show ?case
  proof (cases "offer n")
    case None
    then have "x (Suc n) = x n" by (simp add: xs better_offer_def)
    with Suc None show ?thesis by (auto simp: less_Suc_eq split: option.splits)
  next
    case (Some o')
    obtain c d e where o: "o' = (c, d, e)" by (cases o')
    have x0: "x_src (x n) = None \<Longrightarrow> x_rtt (x n) = FLEXNET_RTT_INFINITY"
      using Suc by (simp add: no_expectation_def)
    show ?thesis
    proof (cases "c < x_rtt (x n)")
      case True
      then have "x (Suc n) = \<lparr>x_rtt = c, x_src = Some n, x_direct = d, x_pen = e\<rparr>"
        by (simp add: xs better_offer_def Some o)
      with Suc x0 True Some o show ?thesis
        by (fastforce simp: less_Suc_eq split: option.splits)
    next
      case False
      then have "x (Suc n) = x n" by (simp add: xs better_offer_def Some o)
      with Suc x0 False Some o show ?thesis
        by (auto simp: less_Suc_eq split: option.splits)
    qed
  qed
qed

text \<open>C2: the cost a neighbour is told for a destination is the least path cost over all sources that
  may be used: other active sessions, on the same port unless cross-port routing is on, that taught
  us a finite route for exactly this key and whose link options let it be offered. It lies strictly
  between 0 and infinity; infinity is told exactly when there is no usable source or the destination
  is the neighbour itself. Split horizon is part of it: the neighbour is never its own source.\<close>

theorem expected_rtt_is_cheapest:
  assumes "learned_ok nd" "p < FLEXNET_MAX_SESSIONS"
    and "x = flex_expected_rtt ev nd (Some p) dest lo hi"
  shows "case x_src x of
      None \<Rightarrow> x_rtt x = FLEXNET_RTT_INFINITY \<and>
        (flex_dest_is_session_peer ev nd p dest lo hi \<or> (\<forall>s r. \<not> usable_source ev nd p dest lo hi s r))
    | Some s \<Rightarrow> s \<noteq> p \<and> \<not> flex_dest_is_session_peer ev nd p dest lo hi \<and>
        (\<exists>r. usable_source ev nd p dest lo hi s r \<and> x_rtt x = path_cost nd s r \<and> x_direct x = l_direct r) \<and>
        0 < x_rtt x \<and> x_rtt x < FLEXNET_RTT_INFINITY \<and>
        (\<forall>t r. usable_source ev nd p dest lo hi t r \<longrightarrow> x_rtt x \<le> path_cost nd t r)"
proof (cases "flex_dest_is_session_peer ev nd p dest lo hi")
  case True
  then show ?thesis using assms(3) by (simp add: flex_expected_rtt_def no_expectation_def)
next
  case False
  let ?o = "src_offer ev nd (Some p) dest lo hi"
  have x: "x = fold (better_offer ?o) [0..<FLEXNET_MAX_SESSIONS] no_expectation"
    using assms(3) False by (simp add: flex_expected_rtt_def)
  note best = fold_better_offer [of ?o FLEXNET_MAX_SESSIONS, folded x]
  have offers: "\<exists>d e. ?o s = Some (path_cost nd s r, d, e)" "s < FLEXNET_MAX_SESSIONS"
    if "usable_source ev nd p dest lo hi s r" for s r
  proof -
    show s: "s < FLEXNET_MAX_SESSIONS" using that by (simp add: usable_source_def)
    show "\<exists>d e. ?o s = Some (path_cost nd s r, d, e)"
      using src_offer_iff [OF assms(1,2) s, of ev dest lo hi] that by blast
  qed
  show ?thesis
  proof (cases "x_src x")
    case None
    have "\<not> usable_source ev nd p dest lo hi s r" for s r
    proof
      assume u: "usable_source ev nd p dest lo hi s r"
      from offers [OF u] obtain d e where "?o s = Some (path_cost nd s r, d, e)" "s < FLEXNET_MAX_SESSIONS" by blast
      then have "FLEXNET_RTT_INFINITY \<le> path_cost nd s r" using best None by simp
      with path_cost_range [OF u] show False by simp
    qed
    then show ?thesis using None best by (simp add: no_expectation_def)
  next
    case (Some s)
    then have s: "s < FLEXNET_MAX_SESSIONS" "?o s = Some (x_rtt x, x_direct x, x_pen x)"
      using best by auto
    then obtain r where r: "usable_source ev nd p dest lo hi s r" "x_rtt x = path_cost nd s r" "x_direct x = l_direct r"
      using src_offer_iff [OF assms(1,2) s(1), of ev dest lo hi] by metis
    have "x_rtt x \<le> path_cost nd t r'" if "usable_source ev nd p dest lo hi t r'" for t r'
      using offers [OF that] best Some by auto
    moreover have "s \<noteq> p" using r(1) by (simp add: usable_source_def)
    ultimately show ?thesis using Some False r path_cost_range [OF r(1)] by auto
  qed
qed

lemma demo_learned_ok: "learned_ok demo_node"
  by (simp add: learned_ok_def demo_node_def FLEXNET_MAX_SESSIONS_def learned0_def keys_ok_def
      FLEXNET_MAX_LEARNED_PER_NEIGHBOUR_def)

theorem expected_rtt_is_cheapest_witness:
  "case x_src (flex_expected_rtt demo_env demo_node (Some 1) ''DB0FAA'' 0 15) of
      None \<Rightarrow> x_rtt (flex_expected_rtt demo_env demo_node (Some 1) ''DB0FAA'' 0 15) = FLEXNET_RTT_INFINITY \<and>
        (flex_dest_is_session_peer demo_env demo_node 1 ''DB0FAA'' 0 15 \<or>
         (\<forall>s r. \<not> usable_source demo_env demo_node 1 ''DB0FAA'' 0 15 s r))
    | Some s \<Rightarrow> s \<noteq> 1 \<and> \<not> flex_dest_is_session_peer demo_env demo_node 1 ''DB0FAA'' 0 15 \<and>
        (\<exists>r. usable_source demo_env demo_node 1 ''DB0FAA'' 0 15 s r \<and>
             x_rtt (flex_expected_rtt demo_env demo_node (Some 1) ''DB0FAA'' 0 15) = path_cost demo_node s r \<and>
             x_direct (flex_expected_rtt demo_env demo_node (Some 1) ''DB0FAA'' 0 15) = l_direct r) \<and>
        0 < x_rtt (flex_expected_rtt demo_env demo_node (Some 1) ''DB0FAA'' 0 15) \<and>
        x_rtt (flex_expected_rtt demo_env demo_node (Some 1) ''DB0FAA'' 0 15) < FLEXNET_RTT_INFINITY \<and>
        (\<forall>t r. usable_source demo_env demo_node 1 ''DB0FAA'' 0 15 t r \<longrightarrow>
          x_rtt (flex_expected_rtt demo_env demo_node (Some 1) ''DB0FAA'' 0 15) \<le> path_cost demo_node t r)"
  by (rule expected_rtt_is_cheapest [OF demo_learned_ok _ refl]) (simp add: FLEXNET_MAX_SESSIONS_def)

section \<open>The count-to-infinity guard\<close>

text \<open>A run of the guard over the costs about to be advertised, each with the cost sent before.\<close>

fun climb_run :: "climb_state \<Rightarrow> (int \<times> int) list \<Rightarrow> climb list \<times> climb_state" where
  "climb_run c [] = ([], c)"
| "climb_run c ((prev, x) # ps) =
     (case flex_climb_is_loop c prev x of (v, c1) \<Rightarrow>
      case climb_run c1 ps of (vs, c2) \<Rightarrow> (v # vs, c2))"

lemma climb_run_append:
  "climb_run c (ps @ qs) =
     (case climb_run c ps of (vs, c1) \<Rightarrow> case climb_run c1 qs of (ws, c2) \<Rightarrow> (vs @ ws, c2))"
  by (induction c ps rule: climb_run.induct) (auto split: prod.splits)

lemma climb_run_length: "length (fst (climb_run c ps)) = length ps"
  by (induction c ps rule: climb_run.induct) (auto split: prod.splits)

definition climb0 :: climb_state where
  "climb0 = \<lparr>c_floor = -1, c_steps = 0, c_looping = False\<rparr>"

text \<open>How many of the last calls were rises in a row.\<close>

definition is_rise :: "int \<times> int \<Rightarrow> bool" where
  "is_rise p \<longleftrightarrow> fst p \<ge> 0 \<and> snd p > fst p"

definition trailing_rises :: "(int \<times> int) list \<Rightarrow> nat" where
  "trailing_rises ps = length (takeWhile is_rise (rev ps))"

definition finite_costs :: "(int \<times> int) list \<Rightarrow> bool" where
  "finite_costs ps \<longleftrightarrow> (\<forall>(prev, x) \<in> set ps. 0 < x \<and> x < FLEXNET_RTT_INFINITY)"

lemma inflated_iff:
  assumes "0 < f"
  shows "climb_inflated f x \<longleftrightarrow> 4 * f \<le> x"
proof
  assume "climb_inflated f x"
  then have "4 * f \<le> (x div f) * f"
    using assms by (intro mult_right_mono) (auto simp: climb_inflated_def FLEXNET_CLIMB_RATIO_def)
  also have "\<dots> \<le> x" using div_mult_mod_eq [of x f] pos_mod_sign [OF assms, of x] by linarith
  finally show "4 * f \<le> x" .
next
  assume "4 * f \<le> x"
  then have "4 * f div f \<le> x div f" by (rule zdiv_mono1) (rule assms)
  then show "climb_inflated f x" using assms by (simp add: climb_inflated_def FLEXNET_CLIMB_RATIO_def)
qed

definition climb_inv :: "(int \<times> int) list \<Rightarrow> climb_state \<Rightarrow> bool" where
  "climb_inv ps c \<longleftrightarrow> 0 \<le> c_steps c \<and> c_steps c \<le> int (trailing_rises ps) \<and>
     (c_looping c \<longrightarrow> c_steps c = 0) \<and> (0 < c_floor c \<longrightarrow> (\<exists>p \<in> set ps. snd p = c_floor c))"

lemma trailing_rises_snoc: "trailing_rises (ps @ [p]) = (if is_rise p then Suc (trailing_rises ps) else 0)"
  by (simp add: trailing_rises_def)

text \<open>The guard's step, written over the counters after the looping flag has been judged.\<close>

definition climb_unloop :: "climb_state \<Rightarrow> climb_state" where
  "climb_unloop c = (if c_looping c then c\<lparr>c_looping := False, c_steps := 0\<rparr> else c)"

definition climb_count :: "climb_state \<Rightarrow> int \<Rightarrow> int \<Rightarrow> climb_state" where
  "climb_count c prev x =
     (if is_rise (prev, x) then c\<lparr>c_steps := c_steps c + 1\<rparr>
      else c\<lparr>c_steps := 0, c_floor := (if c_floor c < 0 \<or> x < c_floor c then x else c_floor c)\<rparr>)"

lemma climb_step_cases:
  assumes "flex_climb_is_loop c prev x = (v, c')" "x < FLEXNET_RTT_INFINITY"
  obtains (suppress) "v = CLIMB_SUPPRESS" "c' = c" "c_looping c"
  | (withdraw) "v = CLIMB_WITHDRAW" "c' = (climb_count (climb_unloop c) prev x)\<lparr>c_looping := True, c_steps := 0\<rparr>"
      "0 < c_floor c'" "FLEXNET_CLIMB_MIN_STEPS \<le> c_steps (climb_count (climb_unloop c) prev x)"
      "climb_inflated (c_floor c') x"
  | (ok) "v = CLIMB_OK" "c' = climb_count (climb_unloop c) prev x"
proof (cases "c_looping c \<and> climb_inflated (c_floor c) x")
  case True
  then have "flex_climb_is_loop c prev x = (CLIMB_SUPPRESS, c)"
    using assms(2) by (simp add: flex_climb_is_loop_def)
  with assms(1) True show ?thesis by (intro suppress) auto
next
  case False
  let ?d = "climb_count (climb_unloop c) prev x"
  let ?trip = "c_floor ?d > 0 \<and> c_steps ?d \<ge> FLEXNET_CLIMB_MIN_STEPS \<and> climb_inflated (c_floor ?d) x"
  have "flex_climb_is_loop c prev x =
      (if ?trip then (CLIMB_WITHDRAW, ?d\<lparr>c_looping := True, c_steps := 0\<rparr>) else (CLIMB_OK, ?d))"
    using assms(2) False
    unfolding flex_climb_is_loop_def climb_count_def climb_unloop_def is_rise_def Let_def fst_conv snd_conv
    by (simp only: if_False not_le [symmetric])
  with assms(1) have r: "(v, c') = (if ?trip then (CLIMB_WITHDRAW, ?d\<lparr>c_looping := True, c_steps := 0\<rparr>) else (CLIMB_OK, ?d))"
    by simp
  show ?thesis
  proof (cases ?trip)
    case True
    with r show ?thesis by (intro withdraw) simp_all
  next
    case False
    with r show ?thesis by (intro ok) (simp_all split: if_splits)
  qed
qed

lemma climb_inv_count:
  assumes "climb_inv ps c"
  shows "climb_inv (ps @ [(prev, x)]) (climb_count (climb_unloop c) prev x)"
    and "\<not> c_looping (climb_count (climb_unloop c) prev x)"
    and "is_rise (prev, x) \<Longrightarrow> c_floor (climb_count (climb_unloop c) prev x) = c_floor c"
    and "0 < c_steps (climb_count (climb_unloop c) prev x) \<Longrightarrow> is_rise (prev, x)"
  using assms
  by (simp_all add: climb_inv_def climb_count_def climb_unloop_def trailing_rises_snoc split: if_split_asm)

lemma climb_inv_step:
  assumes "climb_inv ps c" "flex_climb_is_loop c prev x = (v, c')" "x < FLEXNET_RTT_INFINITY"
  shows "climb_inv (ps @ [(prev, x)]) c'"
  using assms(2,3)
proof (cases rule: climb_step_cases)
  case suppress
  then show ?thesis using assms(1) by (auto simp: climb_inv_def)
next
  case withdraw
  then show ?thesis using climb_inv_count(1) [OF assms(1), of prev x] by (auto simp: climb_inv_def)
next
  case ok
  then show ?thesis using climb_inv_count(1) [OF assms(1), of prev x] by simp
qed

lemma climb_run_inv:
  assumes "climb_inv hs c" "finite_costs ps" "climb_run c ps = (vs, c')"
  shows "climb_inv (hs @ ps) c'"
  using assms
proof (induction ps arbitrary: hs c vs)
  case Nil
  then show ?case by simp
next
  case (Cons p ps)
  obtain prev x where p: "p = (prev, x)" by (cases p)
  obtain v c1 where v: "flex_climb_is_loop c prev x = (v, c1)" by fastforce
  obtain vs1 where r: "climb_run c1 ps = (vs1, c')"
    using Cons.prems(3) by (auto simp: p v split: prod.splits)
  have "climb_inv (hs @ [(prev, x)]) c1"
    by (rule climb_inv_step [OF Cons.prems(1) v]) (use Cons.prems(2) in \<open>simp add: p finite_costs_def\<close>)
  from Cons.IH [OF this _ r] Cons.prems(2) show ?case by (simp add: p finite_costs_def)
qed

lemma climb_step_withdraw:
  assumes "flex_climb_is_loop c prev x = (CLIMB_WITHDRAW, c')" "climb_inv ps c" "x < FLEXNET_RTT_INFINITY"
  shows "3 \<le> trailing_rises (ps @ [(prev, x)]) \<and> (\<exists>p \<in> set ps. 4 * snd p \<le> x)"
  using assms(1,3)
proof (cases rule: climb_step_cases)
  case withdraw
  note cnt = climb_inv_count [OF assms(2), of prev x]
  have steps: "3 \<le> c_steps (climb_count (climb_unloop c) prev x)"
    using withdraw(4) by (simp add: FLEXNET_CLIMB_MIN_STEPS_def)
  then have rise: "is_rise (prev, x)" by (intro cnt(4)) simp
  have f: "c_floor c' = c_floor c" using withdraw(2) cnt(3) [OF rise] by simp
  then obtain p where "p \<in> set ps" "snd p = c_floor c"
    using withdraw(3) assms(2) by (auto simp: climb_inv_def)
  moreover have "4 * c_floor c \<le> x" using withdraw(3,5) f by (simp add: inflated_iff)
  moreover have "3 \<le> trailing_rises (ps @ [(prev, x)])"
    using steps cnt(1) by (simp add: climb_inv_def)
  ultimately show ?thesis by metis
qed simp_all

text \<open>C7: the count-to-infinity guard withdraws a destination only when its last three costs in a row
  each rose above the one sent before and the new cost is at least four times some cost seen
  earlier: one honest re-route, which is a single rise, never trips it.\<close>

theorem climb_withdraws_only_climbers:
  assumes "finite_costs (ps @ [(prev, x)])"
    and "fst (climb_run climb0 (ps @ [(prev, x)])) = vs @ [CLIMB_WITHDRAW]"
  shows "3 \<le> trailing_rises (ps @ [(prev, x)]) \<and> (\<exists>p \<in> set ps. 4 * snd p \<le> x)"
proof -
  obtain ws c where r: "climb_run climb0 ps = (ws, c)" by fastforce
  obtain v c' where v: "flex_climb_is_loop c prev x = (v, c')" by fastforce
  have "climb_inv [] climb0" by (simp add: climb_inv_def climb0_def trailing_rises_def)
  from climb_run_inv [OF this _ r] assms(1) have inv: "climb_inv ps c" by (simp add: finite_costs_def)
  have "v = CLIMB_WITHDRAW" using assms(2) by (simp add: climb_run_append r v)
  with climb_step_withdraw [OF _ inv] v assms(1) show ?thesis by (simp add: finite_costs_def)
qed

theorem climb_withdraws_only_climbers_witness:
  "3 \<le> trailing_rises ([(-1, 5), (5, 9), (9, 15)] @ [(15, 40)]) \<and>
   (\<exists>p \<in> set [(-1 :: int, 5 :: int), (5, 9), (9, 15)]. 4 * snd p \<le> 40)"
proof (rule climb_withdraws_only_climbers)
  show "fst (climb_run climb0 ([(-1, 5), (5, 9), (9, 15)] @ [(15, 40)])) =
      [CLIMB_OK, CLIMB_OK, CLIMB_OK] @ [CLIMB_WITHDRAW]" by code_simp
qed (simp add: finite_costs_def rtt_defs)

lemma looping_until_ok:
  assumes "c_looping c" "j < length ps" "fst (climb_run c ps) ! j = CLIMB_WITHDRAW" "finite_costs ps"
  shows "\<exists>k < j. fst (climb_run c ps) ! k = CLIMB_OK"
  using assms
proof (induction ps arbitrary: j)
  case Nil
  then show ?case by simp
next
  case (Cons p ps)
  obtain prev x where p: "p = (prev, x)" by (cases p)
  obtain v c1 where v: "flex_climb_is_loop c prev x = (v, c1)" by fastforce
  have run: "fst (climb_run c (p # ps)) = v # fst (climb_run c1 ps)" by (simp add: p v split: prod.split)
  have x: "x < FLEXNET_RTT_INFINITY" using Cons.prems(4) by (simp add: p finite_costs_def)
  have nw: "v \<noteq> CLIMB_WITHDRAW"
    using v Cons.prems(1) by (auto simp: flex_climb_is_loop_def Let_def FLEXNET_CLIMB_MIN_STEPS_def split: if_splits)
  then obtain m where j: "j = Suc m" using Cons.prems(3) by (cases j) (auto simp: run)
  show ?case
  proof (cases "v = CLIMB_OK")
    case True
    then show ?thesis by (auto simp: run j)
  next
    case False
    with nw have "v = CLIMB_SUPPRESS" by (cases v) auto
    then have "c1 = c" using v by (auto simp: flex_climb_is_loop_def Let_def split: if_splits)
    moreover have "\<exists>k < m. fst (climb_run c ps) ! k = CLIMB_OK"
      by (rule Cons.IH) (use Cons.prems j run \<open>c1 = c\<close> in \<open>auto simp: finite_costs_def\<close>)
    ultimately show ?thesis by (auto simp: run j intro: exI [of _ "Suc _"])
  qed
qed

text \<open>after withdrawing a destination the guard stays silent about it: a second withdrawal is
  possible only after a call in between that found the cost credible again.\<close>

theorem climb_withdraws_once:
  assumes "finite_costs ps" "i < j" "j < length ps"
    and "fst (climb_run c ps) ! i = CLIMB_WITHDRAW" "fst (climb_run c ps) ! j = CLIMB_WITHDRAW"
  shows "\<exists>k. i < k \<and> k < j \<and> fst (climb_run c ps) ! k = CLIMB_OK"
proof -
  let ?qs = "take (Suc i) ps" and ?rs = "drop (Suc i) ps"
  obtain vs c1 where r: "climb_run c ?qs = (vs, c1)" by fastforce
  have len: "length vs = Suc i" using climb_run_length [of c ?qs] r assms by simp
  have run: "fst (climb_run c ps) = vs @ fst (climb_run c1 ?rs)"
    using climb_run_append [of c ?qs ?rs] by (simp add: r split: prod.splits)
  obtain ws c0 where r0: "climb_run c (take i ps) = (ws, c0)" by fastforce
  have "take (Suc i) ps = take i ps @ [ps ! i]" using assms by (simp add: take_Suc_conv_app_nth)
  then have "climb_run c ?qs = (case climb_run c0 [ps ! i] of (us, c2) \<Rightarrow> (ws @ us, c2))"
    by (simp add: climb_run_append r0)
  moreover obtain prev x where p: "ps ! i = (prev, x)" by fastforce
  moreover obtain v c2 where v: "flex_climb_is_loop c0 prev x = (v, c2)" by fastforce
  ultimately have vs: "vs = ws @ [v]" "c1 = c2" using r by auto
  have "length ws = i" using climb_run_length [of c "take i ps"] r0 assms by simp
  then have "v = CLIMB_WITHDRAW" using assms(4) vs by (simp add: run nth_append)
  then have "c_looping c1" using v vs(2)
    by (auto simp: flex_climb_is_loop_def Let_def split: if_splits)
  moreover have "j - Suc i < length ?rs" "finite_costs ?rs" using assms
    by (auto simp: finite_costs_def dest: in_set_dropD)
  moreover have "fst (climb_run c1 ?rs) ! (j - Suc i) = CLIMB_WITHDRAW"
    using assms(2,5) len by (simp add: run nth_append)
  ultimately obtain k where "k < j - Suc i" "fst (climb_run c1 ?rs) ! k = CLIMB_OK"
    using looping_until_ok by blast
  then show ?thesis using len by (intro exI [of _ "k + Suc i"]) (auto simp: run nth_append)
qed

theorem climb_withdraws_once_witness:
  "\<exists>k. 3 < k \<and> k < 8 \<and>
    fst (climb_run climb0 [(-1, 5), (5, 9), (9, 15), (15, 40), (60000, 8), (8, 15), (15, 17), (17, 18), (18, 44)]) ! k
      = CLIMB_OK"
proof (rule climb_withdraws_once)
  let ?ps = "[(-1, 5), (5, 9), (9, 15), (15, 40), (60000, 8), (8, 15), (15, 17), (17, 18), (18, 44)] :: (int \<times> int) list"
  show "fst (climb_run climb0 ?ps) ! 3 = CLIMB_WITHDRAW" by code_simp
  show "fst (climb_run climb0 ?ps) ! 8 = CLIMB_WITHDRAW" by code_simp
qed (simp_all add: finite_costs_def rtt_defs)

section \<open>What may be queued\<close>

lemma expected_src: "x_src (flex_expected_rtt ev nd peer dest lo hi) = None \<longleftrightarrow>
    x_rtt (flex_expected_rtt ev nd peer dest lo hi) \<ge> FLEXNET_RTT_INFINITY"
  and expected_le: "x_rtt (flex_expected_rtt ev nd peer dest lo hi) \<le> FLEXNET_RTT_INFINITY"
  using fold_better_offer [of "src_offer ev nd peer dest lo hi" FLEXNET_MAX_SESSIONS]
  by (auto simp: flex_expected_rtt_def no_expectation_def split: option.splits)

lemma gate_offer:
  assumes "advert_gate ev nd peer dest lo hi a = Offer e pen d"
    and "x = flex_expected_rtt ev nd (Some peer) dest lo hi"
  shows "d = x_direct x"
    and "e < FLEXNET_RTT_INFINITY \<Longrightarrow> e = x_rtt x \<and>
      \<not> has_opt (flex_sess_link_opts nd (int peer)) FLEX_LOPT_OWN_ONLY \<and>
      \<not> taught_us ev nd peer dest lo hi \<and> (flex_advertise_direct_only nd \<longrightarrow> d) \<and>
      (a \<noteq> None \<and> \<not> d \<and> last_advertised_rtt (the a) \<ge> FLEXNET_RTT_INFINITY \<longrightarrow>
         e_now ev - last_advertised_at (the a) \<ge> FLEXNET_POISON_HOLDDOWN)"
    and "\<not> e < FLEXNET_RTT_INFINITY \<Longrightarrow> e = FLEXNET_RTT_INFINITY \<and> told_before a"
proof -
  have src: "x_src x = None \<longleftrightarrow> x_rtt x \<ge> FLEXNET_RTT_INFINITY" "x_rtt x \<le> FLEXNET_RTT_INFINITY"
    unfolding assms(2) by (rule expected_src expected_le)+
  obtain e0 p0 where g: "gate_own_only ev nd peer a (x_rtt x) (x_pen x) = Some (e0, p0)"
    using assms by (auto simp: advert_gate_def Let_def split: option.splits)
  have e0: "e0 = (if has_opt (flex_sess_link_opts nd (int peer)) FLEX_LOPT_OWN_ONLY
      then FLEXNET_RTT_INFINITY else x_rtt x)"
    "has_opt (flex_sess_link_opts nd (int peer)) FLEX_LOPT_OWN_ONLY \<Longrightarrow> told_before a"
    using g by (auto simp: gate_own_only_def split: if_splits)
  note body = assms(1) [unfolded advert_gate_def Let_def, folded assms(2), unfolded g option.case prod.case]
  show "d = x_direct x" using body by (simp split: if_split_asm)
  show "e < FLEXNET_RTT_INFINITY \<Longrightarrow> e = x_rtt x \<and>
      \<not> has_opt (flex_sess_link_opts nd (int peer)) FLEX_LOPT_OWN_ONLY \<and>
      \<not> taught_us ev nd peer dest lo hi \<and> (flex_advertise_direct_only nd \<longrightarrow> d) \<and>
      (a \<noteq> None \<and> \<not> d \<and> last_advertised_rtt (the a) \<ge> FLEXNET_RTT_INFINITY \<longrightarrow>
         e_now ev - last_advertised_at (the a) \<ge> FLEXNET_POISON_HOLDDOWN)"
    using body e0 by (simp add: not_less split: if_split_asm) (auto simp: not_less)
  show "\<not> e < FLEXNET_RTT_INFINITY \<Longrightarrow> e = FLEXNET_RTT_INFINITY \<and> told_before a"
    using body e0 src by (simp split: if_split_asm)
qed

lemma queue_value_keeps:
  "adv_key (queue_value a e pen force) = adv_key a"
  "last_advertised_rtt (queue_value a e pen force) = last_advertised_rtt a"
  "last_advertised_at (queue_value a e pen force) = last_advertised_at a"
  "looping (queue_value a e pen force) = looping a"
  by (simp_all add: queue_value_def Let_def adv_key_def)

lemma queue_value_pending: "pending (queue_value a e pen force) \<Longrightarrow> pending_rtt (queue_value a e pen force) = e"
  by (simp add: queue_value_def Let_def split: if_split_asm)

lemma set_climb_keeps:
  "adv_key (set_climb c a) = adv_key a"
  "last_advertised_rtt (set_climb c a) = last_advertised_rtt a"
  "last_advertised_at (set_climb c a) = last_advertised_at a"
  "pending (set_climb c a) = pending a" "looping (set_climb c a) = c_looping c"
  by (simp_all add: set_climb_def adv_key_def)

lemma climb_not_ok_looping: "climb_guard a e pen = (v, c) \<Longrightarrow> v \<noteq> CLIMB_OK \<Longrightarrow> c_looping c"
  by (auto simp: climb_guard_def flex_climb_is_loop_def Let_def split: if_split_asm)

lemma adv_decide_keeps:
  "adv_key (adv_decide a e pen d force) = adv_key a"
  "last_advertised_rtt (adv_decide a e pen d force) = last_advertised_rtt a"
  "last_advertised_at (adv_decide a e pen d force) = last_advertised_at a"
  by (simp_all add: adv_decide_def Let_def queue_value_keeps set_climb_keeps adv_key_def [of "_\<lparr>pending := _\<rparr>"]
      adv_key_def [of "set_climb _ _", symmetric] split: prod.split)

lemma adv_decide_pending:
  assumes "pending (adv_decide a e pen d force)"
  shows "pending_rtt (adv_decide a e pen d force) = e \<or>
    pending_rtt (adv_decide a e pen d force) = FLEXNET_RTT_INFINITY \<and> looping (adv_decide a e pen d force)"
proof (cases d)
  case True
  then show ?thesis using assms queue_value_pending by (simp add: adv_decide_def)
next
  case False
  obtain v c where v: "climb_guard a e pen = (v, c)" by fastforce
  have nq: "\<not> (v = CLIMB_SUPPRESS \<and> \<not> force)"
    using assms False v by (auto simp: adv_decide_def Let_def split: if_split_asm)
  let ?e = "if v = CLIMB_OK then e else FLEXNET_RTT_INFINITY"
  have d: "adv_decide a e pen d force = queue_value (set_climb c a) ?e pen force"
    using False v nq by (auto simp: adv_decide_def Let_def)
  have "pending_rtt (queue_value (set_climb c a) ?e pen force) = ?e"
    by (rule queue_value_pending) (use assms d in simp)
  then show ?thesis
    using climb_not_ok_looping [OF v] by (auto simp: d queue_value_keeps set_climb_keeps)
qed

text \<open>What a check may change: only the neighbour's own entry for this key.\<close>

lemma adv_find_create:
  assumes "flex_adv_find st dest lo hi True = (Some i, st1)"
  shows "(adv_idx (rkey dest lo hi) (advs st) = Some i \<and> st1 = st) \<or>
    (adv_idx (rkey dest lo hi) (advs st) = None \<and> i = length (advs st) \<and>
     length (advs st) < FLEXNET_MAX_ADVERTISED_PER_PEER \<and> st1 = st\<lparr>advs := advs st @ [new_adv dest lo hi]\<rparr>)"
  using assms by (auto simp: flex_adv_find_def split: option.splits if_splits)

lemma adv_find_only: "flex_adv_find st dest lo hi False = (adv_idx (rkey dest lo hi) (advs st), st)"
  by (simp add: flex_adv_find_def split: option.split)

lemma new_adv_key: "length dest \<le> 9 \<Longrightarrow> adv_key (new_adv dest lo hi) = rkey dest lo hi"
  by (simp add: adv_key_def new_adv_def rkey_def FLEXNET_MAX_CALLSIGN_def)

text \<open>C1: a queued advertisement has passed every gate. When a check puts a new pending value into a
  neighbour's table, the entry is the one of the checked destination and nothing blocked it; a
  finite value is the cost computed from some source, the link does not ask for own records only,
  the neighbour did not teach us the route itself (unless it is one of our own neighbours), a
  node that cannot forward names direct neighbours only, and a destination just withdrawn stays
  withdrawn for the hold-down time unless it is a direct neighbour; an infinite value withdraws
  something the neighbour was told, or a destination caught looping.\<close>

theorem advert_check_queues_only_allowed:
  assumes "nd' = flex_advertise_check ev p dest lo hi force nd"
    and "p < length (advertised nd)" "length dest \<le> 9"
    and "a \<in> set (advs (advertised nd' ! p))" "pending a" "a \<notin> set (advs (advertised nd ! p))"
    and "x = flex_expected_rtt ev nd (Some p) dest lo hi"
  shows "adv_key a = rkey dest lo hi \<and> \<not> advert_blocked ev nd p dest lo hi \<and>
    (if pending_rtt a < FLEXNET_RTT_INFINITY
     then x_src x \<noteq> None \<and> pending_rtt a = x_rtt x \<and>
       \<not> has_opt (flex_sess_link_opts nd (int p)) FLEX_LOPT_OWN_ONLY \<and>
       \<not> taught_us ev nd p dest lo hi \<and> (flex_advertise_direct_only nd \<longrightarrow> x_direct x) \<and>
       (x_direct x \<or> last_advertised_rtt a < FLEXNET_RTT_INFINITY \<or>
        e_now ev - last_advertised_at a \<ge> FLEXNET_POISON_HOLDDOWN)
     else pending_rtt a = FLEXNET_RTT_INFINITY \<and> (told_before (Some a) \<or> looping a))"
proof -
  let ?st = "advertised nd ! p" and ?k = "rkey dest lo hi"
  let ?ai = "adv_idx ?k (advs ?st)"
  let ?a = "map_option (\<lambda>i. advs ?st ! i) ?ai"
  have blk: "\<not> advert_blocked ev nd p dest lo hi"
    using assms(1,4,6) by (auto simp: flex_advertise_check_def)
  have chk: "nd' = (case advert_gate ev nd p dest lo hi ?a of
      Quiet clear \<Rightarrow> (case ?ai of
          Some i \<Rightarrow> (if clear then set_advs p (?st\<lparr>advs := (advs ?st)[i := (advs ?st ! i)\<lparr>pending := False\<rparr>]\<rparr>) nd else nd)
        | None \<Rightarrow> nd)
    | Offer e pen d \<Rightarrow> (case flex_adv_find ?st dest lo hi True of
          (None, st1) \<Rightarrow> set_advs p st1 nd
        | (Some i, st1) \<Rightarrow> set_advs p (st1\<lparr>advs := (advs st1)[i := adv_decide (advs st1 ! i) e pen d force]\<rparr>) nd))"
    unfolding assms(1) flex_advertise_check_def Let_def adv_find_only fst_conv using blk by simp
  have at: "advertised (set_advs p st nd) ! p = st" for st
    using assms(2) by (simp add: set_advs_def)
  have upd: "a = y" if "a \<in> set (xs[i := y])" "set xs \<subseteq> set (advs ?st)" for xs i y
    using that assms(6) set_update_subset_insert [of xs i y] by auto
  show ?thesis
  proof (cases "advert_gate ev nd p dest lo hi ?a")
    case (Quiet clear)
    then have "a \<in> set ((advs ?st)[the ?ai := (advs ?st ! the ?ai)\<lparr>pending := False\<rparr>])"
      using assms(4,6) chk at by (auto split: option.splits if_splits)
    from upd [OF this] assms(5) have False by simp
    then show ?thesis ..
  next
    case (Offer e pen d)
    note offer = gate_offer [OF Offer assms(7)]
    obtain r st1 where f: "flex_adv_find ?st dest lo hi True = (r, st1)" by fastforce
    show ?thesis
    proof (cases r)
      case None
      then have "advs (advertised nd' ! p) = advs ?st"
        using chk Offer f at by (auto simp: flex_adv_find_def split: option.splits if_splits)
      then show ?thesis using assms(4,6) by simp
    next
      case (Some i)
      let ?b = "advs st1 ! i"
      have a: "a \<in> set ((advs st1)[i := adv_decide ?b e pen d force])"
        using assms(4) chk Offer f Some at by simp
      note fc = adv_find_create [OF f [unfolded Some]]
      have b: "a = adv_decide ?b e pen d force \<and> adv_key ?b = ?k \<and>
          (told_before ?a \<longrightarrow> told_before (Some ?b)) \<and>
          (?a \<noteq> None \<longrightarrow> the ?a = ?b) \<and> (?a = None \<longrightarrow> last_advertised_rtt ?b = -1)"
        using fc
      proof
        assume l: "adv_idx ?k (advs ?st) = Some i \<and> st1 = ?st"
        then have "a = adv_decide ?b e pen d force" using upd [OF a] by simp
        with l show ?thesis using adv.find_key [of ?k "advs ?st" i] by simp
      next
        assume r: "adv_idx ?k (advs ?st) = None \<and> i = length (advs ?st) \<and>
            length (advs ?st) < FLEXNET_MAX_ADVERTISED_PER_PEER \<and>
            st1 = ?st\<lparr>advs := advs ?st @ [new_adv dest lo hi]\<rparr>"
        then have "a \<in> insert (adv_decide ?b e pen d force) (set (advs ?st))" using a by auto
        then have "a = adv_decide ?b e pen d force" using assms(6) by simp
        moreover have "?b = new_adv dest lo hi" using r by simp
        ultimately show ?thesis using r by (simp add: new_adv_key [OF assms(3)] told_before_def)
          (simp add: new_adv_def)
      qed
      then have ab: "a = adv_decide ?b e pen d force" by simp
      have keep: "adv_key a = ?k" "last_advertised_rtt a = last_advertised_rtt ?b"
        "last_advertised_at a = last_advertised_at ?b"
        using b adv_decide_keeps [of ?b e pen d force] by (simp_all add: ab)
      have told: "told_before ?a \<Longrightarrow> told_before (Some a)"
        using b keep by (simp add: told_before_def)
      have pend: "pending_rtt a = e \<or> pending_rtt a = FLEXNET_RTT_INFINITY \<and> looping a"
        using adv_decide_pending [of ?b e pen d force] assms(5) by (simp add: ab)
      show ?thesis
      proof (cases "pending_rtt a < FLEXNET_RTT_INFINITY")
        case True
        then have e: "pending_rtt a = e" "e < FLEXNET_RTT_INFINITY" using pend by auto
        have "x_src x \<noteq> None" using offer(2) [OF e(2)] e(2) expected_src assms(7) by simp
        moreover have "x_direct x \<or> last_advertised_rtt a < FLEXNET_RTT_INFINITY \<or>
            e_now ev - last_advertised_at a \<ge> FLEXNET_POISON_HOLDDOWN"
        proof (cases "?a = None")
          case True
          then show ?thesis using b keep by (simp add: rtt_defs)
        next
          case False
          then show ?thesis using b keep offer(1,2) e by force
        qed
        ultimately show ?thesis using True offer(1) offer(2) [OF e(2)] e keep blk by simp
      next
        case False
        then show ?thesis using pend offer(3) told keep blk by auto
      qed
    qed
  qed
qed

theorem advert_check_queues_only_allowed_witness:
  "\<exists>a \<in> set (advs (advertised (flex_advertise_check demo_env 1 ''DB0FAA'' 0 15 False demo_node) ! 1)).
    pending a \<and> adv_key a = rkey ''DB0FAA'' 0 15 \<and> \<not> advert_blocked demo_env demo_node 1 ''DB0FAA'' 0 15 \<and>
    (if pending_rtt a < FLEXNET_RTT_INFINITY
     then x_src (flex_expected_rtt demo_env demo_node (Some 1) ''DB0FAA'' 0 15) \<noteq> None \<and>
       pending_rtt a = x_rtt (flex_expected_rtt demo_env demo_node (Some 1) ''DB0FAA'' 0 15) \<and>
       \<not> has_opt (flex_sess_link_opts demo_node (int 1)) FLEX_LOPT_OWN_ONLY \<and>
       \<not> taught_us demo_env demo_node 1 ''DB0FAA'' 0 15 \<and>
       (flex_advertise_direct_only demo_node \<longrightarrow>
          x_direct (flex_expected_rtt demo_env demo_node (Some 1) ''DB0FAA'' 0 15)) \<and>
       (x_direct (flex_expected_rtt demo_env demo_node (Some 1) ''DB0FAA'' 0 15) \<or>
        last_advertised_rtt a < FLEXNET_RTT_INFINITY \<or>
        e_now demo_env - last_advertised_at a \<ge> FLEXNET_POISON_HOLDDOWN)
     else pending_rtt a = FLEXNET_RTT_INFINITY \<and> (told_before (Some a) \<or> looping a))"
proof -
  let ?nd' = "flex_advertise_check demo_env 1 ''DB0FAA'' 0 15 False demo_node"
  let ?a = "advs (advertised ?nd' ! 1) ! 0"
  have len: "length (advs (advertised ?nd' ! 1)) = 1" and p: "pending ?a" by code_simp+
  then have m: "?a \<in> set (advs (advertised ?nd' ! 1))" by simp
  have e: "advs (advertised demo_node ! 1) = []" by code_simp
  have l: "1 < length (advertised demo_node)" by code_simp
  show ?thesis
    using advert_check_queues_only_allowed [OF refl l _ m p _ refl] e m p by auto
qed

section \<open>Withdrawals\<close>

lemma advert_fires_infinity:
  assumes "0 \<le> l" "l < FLEXNET_RTT_INFINITY"
  shows "advert_fires l FLEXNET_RTT_INFINITY force \<longleftrightarrow> force \<or> l \<le> 54546"
proof -
  have "l * 10 div 100 = l div 10" by simp
  moreover have "l div 10 \<le> 60000 - l \<longleftrightarrow> l \<le> 54546" using assms by (auto simp: rtt_defs)
  ultimately show ?thesis using assms
    by (auto simp: advert_fires_def Let_def FLEXNET_REFRESH_THRESHOLD_PCT_def FLEXNET_REFRESH_THRESHOLD_ABS_def
        rtt_defs)
qed

lemma decide_infinity:
  "adv_decide a FLEXNET_RTT_INFINITY pen d force =
     queue_value (if d then a else set_climb (adv_climb a) a) FLEXNET_RTT_INFINITY pen force"
  by (simp add: adv_decide_def climb_guard_def flex_climb_is_loop_def Let_def)

lemma check_no_source:
  assumes "\<not> advert_blocked ev nd p dest lo hi"
    and "adv_idx (rkey dest lo hi) (advs (advertised nd ! p)) = Some i"
    and "x_src (flex_expected_rtt ev nd (Some p) dest lo hi) = None"
    and "a = advs (advertised nd ! p) ! i"
  shows "told_before (Some a) \<Longrightarrow> \<exists>pen d. advert_gate ev nd p dest lo hi (Some a) = Offer FLEXNET_RTT_INFINITY pen d"
    and "\<not> told_before (Some a) \<Longrightarrow> \<not> has_opt (flex_sess_link_opts nd (int p)) FLEX_LOPT_OWN_ONLY \<Longrightarrow>
      advert_gate ev nd p dest lo hi (Some a) = Quiet False"
proof -
  have x: "x_rtt (flex_expected_rtt ev nd (Some p) dest lo hi) = FLEXNET_RTT_INFINITY"
    using assms(3) expected_src expected_le by (metis order.antisym)
  show "told_before (Some a) \<Longrightarrow> \<exists>pen d. advert_gate ev nd p dest lo hi (Some a) = Offer FLEXNET_RTT_INFINITY pen d"
    by (cases "has_opt (flex_sess_link_opts nd (int p)) FLEX_LOPT_OWN_ONLY")
      (simp_all add: advert_gate_def Let_def gate_own_only_def x)
  show "\<not> told_before (Some a) \<Longrightarrow> \<not> has_opt (flex_sess_link_opts nd (int p)) FLEX_LOPT_OWN_ONLY \<Longrightarrow>
      advert_gate ev nd p dest lo hi (Some a) = Quiet False"
    by (simp add: advert_gate_def Let_def gate_own_only_def x assms(3))
qed

text \<open>A neighbour that was told a cost for K1YMI, which nobody offers.\<close>

definition demo_told :: "int \<Rightarrow> bool \<Rightarrow> node" where
  "demo_told told queued = demo_node\<lparr>advertised := [adv_state0, adv_state0\<lparr>advs :=
       [(new_adv ''K1YMI'' 0 0)\<lparr>last_advertised_rtt := told, pending := queued, pending_rtt := 12\<rparr>]\<rparr>]
     @ replicate 6 adv_state0\<rparr>"

text \<open>C12: when no neighbour offers a destination any more, a check queues its withdrawal for a neighbour that
  was told a finite cost up to 54546, or whatever finite cost on a forced walk, provided records may go to
  that neighbour: transit is on, its session is up on a link, the destination is not the node's own, and the
  neighbour is not a PC/FlexNet node that stays quiet after its batch. Where they may not, as for such a
  quiet neighbour, the check queues nothing and changes nothing.\<close>

theorem advert_check_withdraws:
  assumes "p < length (advertised nd)"
    and "adv_idx (rkey dest lo hi) (advs (advertised nd ! p)) = Some i"
    and "told_before (Some (advs (advertised nd ! p) ! i))"
    and "x_src (flex_expected_rtt ev nd (Some p) dest lo hi) = None"
    and "force \<or> last_advertised_rtt (advs (advertised nd ! p) ! i) \<le> 54546"
    and "nd' = flex_advertise_check ev p dest lo hi force nd" "a = advs (advertised nd' ! p) ! i"
  shows "if advert_blocked ev nd p dest lo hi then nd' = nd
    else pending a \<and> pending_rtt a = FLEXNET_RTT_INFINITY \<and> adv_key a = rkey dest lo hi"
proof (cases "advert_blocked ev nd p dest lo hi")
  case True
  then show ?thesis using assms(6) by (simp add: flex_advertise_check_def)
next
  case False
  let ?st = "advertised nd ! p"
  let ?b = "advs ?st ! i"
  obtain pen d where g: "advert_gate ev nd p dest lo hi (Some ?b) = Offer FLEXNET_RTT_INFINITY pen d"
    using check_no_source(1) [OF False assms(2,4) refl assms(3)] by blast
  have f: "flex_adv_find ?st dest lo hi True = (Some i, ?st)" using assms(2) by (simp add: flex_adv_find_def)
  have i: "i < length (advs ?st)" "adv_key ?b = rkey dest lo hi" using adv.find_key [OF assms(2)] by auto
  have "a = adv_decide ?b FLEXNET_RTT_INFINITY pen d force"
    using False assms(1,2,6,7) g f i
    by (simp add: flex_advertise_check_def Let_def adv_find_only set_advs_def)
  moreover have "advert_fires (last_advertised_rtt ?b) FLEXNET_RTT_INFINITY force"
    using assms(3,5) advert_fires_infinity by (auto simp: told_before_def)
  ultimately show ?thesis using i(2) False
    by (simp add: decide_infinity queue_value_def Let_def set_climb_keeps adv_key_def [of "_\<lparr>pending := _\<rparr>"])
      (auto simp: adv_key_def set_climb_def)
qed

theorem advert_check_withdraws_witness:
  "pending (advs (advertised (flex_advertise_check demo_env 1 ''K1YMI'' 0 0 False (demo_told 109 False)) ! 1) ! 0) \<and>
   pending_rtt (advs (advertised (flex_advertise_check demo_env 1 ''K1YMI'' 0 0 False (demo_told 109 False)) ! 1) ! 0) =
     FLEXNET_RTT_INFINITY \<and>
   adv_key (advs (advertised (flex_advertise_check demo_env 1 ''K1YMI'' 0 0 False (demo_told 109 False)) ! 1) ! 0) =
     rkey ''K1YMI'' 0 0"
proof -
  have b: "\<not> advert_blocked demo_env (demo_told 109 False) 1 ''K1YMI'' 0 0" by code_simp
  have "if advert_blocked demo_env (demo_told 109 False) 1 ''K1YMI'' 0 0
    then flex_advertise_check demo_env 1 ''K1YMI'' 0 0 False (demo_told 109 False) = demo_told 109 False
    else pending (advs (advertised (flex_advertise_check demo_env 1 ''K1YMI'' 0 0 False (demo_told 109 False)) ! 1) ! 0) \<and>
      pending_rtt (advs (advertised (flex_advertise_check demo_env 1 ''K1YMI'' 0 0 False (demo_told 109 False)) ! 1) ! 0) =
        FLEXNET_RTT_INFINITY \<and>
      adv_key (advs (advertised (flex_advertise_check demo_env 1 ''K1YMI'' 0 0 False (demo_told 109 False)) ! 1) ! 0) =
        rkey ''K1YMI'' 0 0"
    by (rule advert_check_withdraws [OF _ _ _ _ _ refl refl]; code_simp)
  with b show ?thesis by simp
qed

text \<open>C18: the withdrawal that is lost. When the last cost a neighbour was told lies above 54546 the ten
  per cent floor is larger than the step to infinity. Then an unforced check of a destination whose last
  source is gone leaves the whole node as it is when nothing is queued for the neighbour, which so keeps a
  route that no longer exists; only when an earlier value still waits in the queue does the withdrawal take
  its place.\<close>

theorem withdrawal_lost_near_infinity:
  assumes "\<not> advert_blocked ev nd p dest lo hi" "p < length (advertised nd)"
    and "adv_idx (rkey dest lo hi) (advs (advertised nd ! p)) = Some i"
    and "x_src (flex_expected_rtt ev nd (Some p) dest lo hi) = None"
    and "b = advs (advertised nd ! p) ! i" "54546 < last_advertised_rtt b" "last_advertised_rtt b < FLEXNET_RTT_INFINITY"
    and "nd' = flex_advertise_check ev p dest lo hi False nd"
  shows "if pending b
    then advs (advertised nd' ! p) ! i = b\<lparr>pending_rtt := FLEXNET_RTT_INFINITY, pending_pen := 0\<rparr> else nd' = nd"
proof -
  let ?st = "advertised nd ! p"
  have t: "told_before (Some b)" using assms(6,7) by (simp add: told_before_def)
  obtain pen d where g: "advert_gate ev nd p dest lo hi (Some b) = Offer FLEXNET_RTT_INFINITY pen d"
    using check_no_source(1) [OF assms(1,3,4,5) t] by blast
  have f: "flex_adv_find ?st dest lo hi True = (Some i, ?st)" using assms(3) by (simp add: flex_adv_find_def)
  have i: "i < length (advs ?st)" using adv.find_key [OF assms(3)] by auto
  have nf: "\<not> advert_fires (last_advertised_rtt b) FLEXNET_RTT_INFINITY False"
    using assms(6,7) by (auto simp: advert_fires_def Let_def FLEXNET_RTT_INFINITY_def
        FLEXNET_REFRESH_THRESHOLD_PCT_def FLEXNET_REFRESH_THRESHOLD_ABS_def)
  have "set_climb (adv_climb b) b = b" by (simp add: set_climb_def adv_climb_def)
  then have "adv_decide b FLEXNET_RTT_INFINITY pen d False =
      (if pending b then b\<lparr>pending_rtt := FLEXNET_RTT_INFINITY, pending_pen := 0\<rparr> else b)"
    using nf by (simp add: adv_decide_def queue_value_def Let_def climb_guard_def flex_climb_is_loop_def)
  then show ?thesis using assms(1,2,3,8) g f i unfolding assms(5)
    by (simp add: flex_advertise_check_def Let_def adv_find_only set_advs_def)
qed
theorem withdrawal_lost_near_infinity_witness:
  "flex_advertise_check demo_env 1 ''K1YMI'' 0 0 False (demo_told 55002 False) = demo_told 55002 False"
proof -
  have "\<not> pending (advs (advertised (demo_told 55002 False) ! 1) ! 0)" by code_simp
  moreover have "if pending (advs (advertised (demo_told 55002 False) ! 1) ! 0)
    then advs (advertised (flex_advertise_check demo_env 1 ''K1YMI'' 0 0 False (demo_told 55002 False)) ! 1) ! 0 =
      (advs (advertised (demo_told 55002 False) ! 1) ! 0)\<lparr>pending_rtt := FLEXNET_RTT_INFINITY, pending_pen := 0\<rparr>
    else flex_advertise_check demo_env 1 ''K1YMI'' 0 0 False (demo_told 55002 False) = demo_told 55002 False"
    by (rule withdrawal_lost_near_infinity [OF _ _ _ _ refl _ _ refl]; code_simp)
  ultimately show ?thesis by simp
qed

text \<open>The stale record. When a destination's last source goes away while a finite cost for it is
  still queued behind a dry bucket, and the neighbour has not been told a finite cost before, the check
  that should cancel the record leaves the whole node as it is, so the record is sent all the same.\<close>

theorem stale_pending_survives:
  assumes "\<not> advert_blocked ev nd p dest lo hi"
    and "adv_idx (rkey dest lo hi) (advs (advertised nd ! p)) = Some i"
    and "x_src (flex_expected_rtt ev nd (Some p) dest lo hi) = None"
    and "\<not> told_before (Some (advs (advertised nd ! p) ! i))"
    and "\<not> has_opt (flex_sess_link_opts nd (int p)) FLEX_LOPT_OWN_ONLY"
  shows "flex_advertise_check ev p dest lo hi force nd = nd"
  using check_no_source(2) [OF assms(1,2,3) refl assms(4,5)] assms(1,2)
  by (simp add: flex_advertise_check_def Let_def adv_find_only)

theorem stale_pending_survives_witness:
  "flex_advertise_check demo_env 1 ''K1YMI'' 0 0 False (demo_told (-1) True) = demo_told (-1) True \<and>
   pending (advs (advertised (demo_told (-1) True) ! 1) ! 0)"
proof
  show "flex_advertise_check demo_env 1 ''K1YMI'' 0 0 False (demo_told (-1) True) = demo_told (-1) True"
    by (rule stale_pending_survives [where i = 0]; code_simp)
  show "pending (advs (advertised (demo_told (-1) True) ! 1) ! 0)" by code_simp
qed

section \<open>Frames and tokens\<close>

definition rec_of :: "adv_route \<Rightarrow> route_rec" where
  "rec_of a = \<lparr>rr_call = a_call a, rr_lo = a_lo a, rr_hi = a_hi a, rr_rtt = pending_rtt a\<rparr>"

definition committed :: "int \<Rightarrow> nat list \<Rightarrow> adv_route list \<Rightarrow> adv_route list \<Rightarrow> bool" where
  "committed now ps as as' \<longleftrightarrow> length as' = length as \<and> distinct ps \<and>
     (\<forall>i \<in> set ps. i < length as \<and> pending (as ! i)) \<and>
     (\<forall>i < length as. as' ! i = (if i \<in> set ps then commit now (as ! i) else as ! i))"

lemma commit_not_pending [simp]: "\<not> pending (commit now a)"
  by (simp add: commit_def)

lemma committed_Nil: "committed now [] as as"
  by (simp add: committed_def)

lemma committed_trans:
  assumes "committed now ps as as1" "committed now qs as1 as2"
  shows "committed now (ps @ qs) as as2"
proof -
  have q: "i < length as \<and> i \<notin> set ps \<and> as1 ! i = as ! i" if "i \<in> set qs" for i
  proof -
    have "i < length as" "pending (as1 ! i)" using assms that by (auto simp: committed_def)
    then show ?thesis using assms(1) by (auto simp: committed_def split: if_splits)
  qed
  then have "distinct (ps @ qs)" using assms by (auto simp: committed_def)
  moreover have "\<forall>i \<in> set (ps @ qs). i < length as \<and> pending (as ! i)"
    using assms q by (fastforce simp: committed_def)
  moreover have "as2 ! i = (if i \<in> set (ps @ qs) then commit now (as ! i) else as ! i)" if "i < length as" for i
    using assms q that by (auto simp: committed_def)
  ultimately show ?thesis using assms by (simp add: committed_def)
qed

lemma committed_one: "i < length as \<Longrightarrow> pending (as ! i) \<Longrightarrow> committed now [i] as (as[i := commit now (as ! i)])"
  by (auto simp: committed_def nth_list_update)

definition recs_text :: "route_rec list \<Rightarrow> string" where
  "recs_text rs = concat (map (\<lambda>r. rec_core r @ [SP]) rs)"

lemma pack_frame_spec:
  assumes "pack_frame k now fr as n = (fr', as', n')"
    and "\<forall>a \<in> set as. pending a \<longrightarrow> rec_good (rec_of a)" "length fr < 200" "0 < n \<or> length fr \<le> 1"
  shows "\<exists>ps. committed now ps as as' \<and> fr' = fr @ recs_text (map (\<lambda>i. rec_of (as ! i)) ps) \<and>
    n' = n + length ps \<and> length ps \<le> k \<and> length fr' < 200 \<and>
    (n' = n \<and> n = 0 \<and> 0 < k \<longrightarrow> first_idx pending as = None)"
  using assms
proof (induction k arbitrary: fr as n)
  case 0
  then show ?case using committed_Nil [of now as] by (auto simp: recs_text_def)
next
  case (Suc k)
  show ?case
  proof (cases "first_idx pending as")
    case None
    then show ?thesis using Suc.prems committed_Nil [of now as] by (intro exI [of _ "[]"]) (auto simp: recs_text_def)
  next
    case (Some i)
    then have i: "i < length as" "pending (as ! i)" by (auto dest: first_idx_SomeD)
    let ?r = "rec_of (as ! i)"
    have good: "rec_good ?r" using Suc.prems(2) i by simp
    have len: "length (rec_core ?r) \<le> 13" using length_rec_core [OF good] by simp
    let ?buf = "int FLEXNET_ADVERT_FRAME_BYTES - int (length fr) - 1"
    have b: "flex_build_route_rec ?buf (a_call (as ! i)) (a_lo (as ! i)) (a_hi (as ! i)) (pending_rtt (as ! i)) =
        (if int (length (rec_core ?r) + 1) \<ge> ?buf then None else Some (rec_core ?r @ [SP]))"
      using build_route_rec_core [of ?buf ?r] by (simp add: rec_of_def)
    show ?thesis
    proof (cases "int (length (rec_core ?r) + 1) \<ge> ?buf")
      case True
      then have n: "0 < n" using Suc.prems(4) len by (auto simp: FLEXNET_ADVERT_FRAME_BYTES_def)
      then have "fr' = fr \<and> as' = as \<and> n' = n" using Suc.prems(1) Some True b by (auto simp: Let_def)
      then show ?thesis using n Suc.prems(3) committed_Nil [of now as]
        by (intro exI [of _ "[]"]) (auto simp: recs_text_def)
    next
      case False
      let ?fr = "fr @ rec_core ?r @ [SP]" and ?as = "as[i := commit now (as ! i)]"
      have step: "pack_frame k now ?fr ?as (n + 1) = (fr', as', n')"
        using Suc.prems(1) Some False b by (simp add: Let_def)
      have good': "\<forall>a \<in> set ?as. pending a \<longrightarrow> rec_good (rec_of a)"
        using Suc.prems(2) set_update_subset_insert [of as i "commit now (as ! i)"] by auto
      have "length ?fr < 200" using False by (simp add: FLEXNET_ADVERT_FRAME_BYTES_def)
      from Suc.IH [OF step good' this] obtain ps where ps: "committed now ps ?as as'"
        "fr' = ?fr @ recs_text (map (\<lambda>i. rec_of (?as ! i)) ps)" "n' = n + 1 + length ps" "length ps \<le> k" "length fr' < 200"
        by auto
      have "committed now ([i] @ ps) as as'" by (rule committed_trans [OF committed_one [OF i] ps(1)])
      moreover
      have "map (\<lambda>i. rec_of (?as ! i)) ps = map (\<lambda>i. rec_of (as ! i)) ps"
      proof (rule map_cong [OF refl])
        fix j
        assume "j \<in> set ps"
        then have "pending (?as ! j)" "j < length as" using ps(1) by (auto simp: committed_def)
        then have "j \<noteq> i" by auto
        then show "rec_of (?as ! j) = rec_of (as ! j)" by simp
      qed
      then have "fr' = fr @ recs_text (map (\<lambda>i. rec_of (as ! i)) (i # ps))"
        by (simp only: ps(2)) (simp add: recs_text_def)
      ultimately show ?thesis using ps(3-5) by (intro exI [of _ "i # ps"]) simp
    qed
  qed
qed

lemma committed_pending_subset:
  "committed now ps as as' \<Longrightarrow> \<forall>a \<in> set as. pending a \<longrightarrow> P a \<Longrightarrow> \<forall>a \<in> set as'. pending a \<longrightarrow> P a"
proof
  fix a
  assume c: "committed now ps as as'" and P: "\<forall>a \<in> set as. pending a \<longrightarrow> P a" and a: "a \<in> set as'"
  obtain i where i: "i < length as'" "a = as' ! i" using a by (metis in_set_conv_nth)
  then have "i < length as" "a = (if i \<in> set ps then commit now (as ! i) else as ! i)"
    using c by (auto simp: committed_def)
  then show "pending a \<longrightarrow> P a" using P by (cases "i \<in> set ps") auto
qed

lemma pack_frame_start:
  assumes "pack_frame m now ''3'' as 0 = (fr, as1, n)" "\<forall>a \<in> set as. pending a \<longrightarrow> rec_good (rec_of a)" "0 < m"
  obtains ps where "committed now ps as as1" "fr = ''3'' @ recs_text (map (\<lambda>i. rec_of (as ! i)) ps)"
      "n = length ps" "length ps \<le> m" "length fr < 200" "n = 0 \<longrightarrow> first_idx pending as = None"
proof -
  have "length ''3'' < 200" "0 < (0 :: nat) \<or> length ''3'' \<le> 1" by simp_all
  from pack_frame_spec [OF assms(1,2) this] obtain ps where
    ps: "committed now ps as as1" "fr = ''3'' @ recs_text (map (\<lambda>i. rec_of (as ! i)) ps)"
      "n = 0 + length ps" "length ps \<le> m" "length fr < 200"
      "n = 0 \<and> (0 :: nat) = 0 \<and> 0 < m \<longrightarrow> first_idx pending as = None" by blast
  show ?thesis by (rule that [OF ps(1,2) _ ps(4,5)]) (use ps(3,6) assms(3) in simp_all)
qed

lemma committed_recs:
  assumes "committed now ps as as1" "committed now qs as1 as2"
  shows "map (\<lambda>i. f (as1 ! i)) qs = map (\<lambda>i. f (as ! i)) qs"
proof (rule map_cong [OF refl])
  fix i
  assume "i \<in> set qs"
  then have "i < length as" "pending (as1 ! i)" using assms by (auto simp: committed_def)
  then show "f (as1 ! i) = f (as ! i)" using assms(1) by (auto simp: committed_def split: if_splits)
qed



section \<open>The frame rate\<close>

text \<open>
  A history of one neighbour's drains, each at a time not before the last, with whatever the rest of
  the node did to the queue and the end-of-batch flags in between: the number of record frames sent.
\<close>

fun bucket_run :: "bool \<Rightarrow> (int \<times> bool \<times> (adv_state \<Rightarrow> adv_state)) list \<Rightarrow> adv_state \<Rightarrow> nat \<times> adv_state" where
  "bucket_run is_pcf [] st = (0, st)"
| "bucket_run is_pcf ((now, quiesced, other) # hs) st =
     (case drain_core is_pcf quiesced now (other st) of
        (frs, eob, st1) \<Rightarrow> case bucket_run is_pcf hs st1 of (n, st2) \<Rightarrow> (length frs + n, st2))"

definition keeps_bucket :: "(adv_state \<Rightarrow> adv_state) \<Rightarrow> bool" where
  "keeps_bucket f \<longleftrightarrow> (\<forall>st. tokens (f st) = tokens st \<and> last_tokens_refill (f st) = last_tokens_refill st)"

fun times_ok :: "int \<Rightarrow> (int \<times> bool \<times> (adv_state \<Rightarrow> adv_state)) list \<Rightarrow> bool" where
  "times_ok t [] = True"
| "times_ok t ((now, q, f) # hs) = (t \<le> now \<and> keeps_bucket f \<and> times_ok now hs)"

definition end_time :: "int \<Rightarrow> (int \<times> bool \<times> (adv_state \<Rightarrow> adv_state)) list \<Rightarrow> int" where
  "end_time t hs = (if hs = [] then t else fst (last hs))"

lemma drain_frames_tokens:
  assumes "drain_frames m now tok as = (tok', as', frs)" "0 \<le> tok"
  shows "tok' = tok - of_nat (length frs) \<and> 0 \<le> tok'"
  using assms
proof (induction m now tok as arbitrary: frs rule: drain_frames.induct)
  case (1 m now tok as)
  obtain fr as1 n where pk: "pack_frame m now ''3'' as 0 = (fr, as1, n)" by (metis surj_pair)
  show ?case
  proof (cases "tok < 1 \<or> n = 0")
    case True
    then show ?thesis using "1.prems" pk by (auto simp: drain_frames.simps split: if_splits)
  next
    case False
    obtain tok2 as2 frs2 where r: "drain_frames m now (tok - 1) as1 = (tok2, as2, frs2)" by (metis surj_pair)
    have "tok' = tok2" "as' = as2" "frs = (fr @ [CR]) # frs2"
      using "1.prems"(1) False pk r by (auto simp: drain_frames.simps [of m now tok as])
    moreover from this r have "drain_frames m now (tok - 1) as1 = (tok', as', frs2)" by simp
    ultimately show ?thesis
      using "1.IH" [OF _ pk [symmetric] refl, of frs2] False by auto
  qed
qed

lemma bucket_size_pos: "0 < bucket_size f" "0 < bucket_refill_s f"
  by (simp_all add: bucket_size_def bucket_refill_s_def FLEXNET_BUCKET_SIZE_PCF_def FLEXNET_BUCKET_SIZE_XNET_def
      FLEXNET_BUCKET_REFILL_PCF_S_def FLEXNET_BUCKET_REFILL_XNET_S_def)

lemma refill_bounds:
  assumes "last_tokens_refill st \<noteq> 0" "0 \<le> tokens st" "last_tokens_refill st \<le> now"
  shows "0 \<le> tokens (bucket_refill f now st)"
    "tokens (bucket_refill f now st) \<le> tokens st + of_int (now - last_tokens_refill st) / of_int (bucket_refill_s f)"
    "last_tokens_refill (bucket_refill f now st) = now"
  using assms bucket_size_pos [of f] by (auto simp: bucket_refill_def min_def)

lemma eob_step_bucket:
  "eob_step f now k st = (b, st') \<Longrightarrow> tokens st' = tokens st \<and> last_tokens_refill st' = last_tokens_refill st"
  by (auto simp: eob_step_def split: if_splits)

lemma drain_core_bucket:
  assumes "drain_core f q now st = (frs, eob, st')" "0 < last_tokens_refill st" "0 \<le> tokens st"
    "last_tokens_refill st \<le> now"
  shows "0 \<le> tokens st' \<and> last_tokens_refill st' \<le> now \<and>
    last_tokens_refill st \<le> last_tokens_refill st' \<and>
    of_nat (length frs) + tokens st' \<le>
      tokens st + of_int (last_tokens_refill st' - last_tokens_refill st) / of_int (bucket_refill_s f)"
proof (cases "\<not> list_ex pending (advs st) \<and> \<not> eob_pending st")
  case True
  then show ?thesis using assms by (simp add: drain_core_def)
next
  case False
  let ?st1 = "bucket_refill f now st"
  have "last_tokens_refill st \<noteq> 0" using assms(2) by simp
  note rf = refill_bounds [OF this assms(3,4), of f]
  obtain tok as frs' where d: "(if q then (tokens ?st1, advs ?st1, [])
      else drain_frames (bucket_recs f) now (tokens ?st1) (advs ?st1)) = (tok, as, frs')" by (metis surj_pair)
  obtain eob' st2 where e: "eob_step f now (length frs') (?st1\<lparr>tokens := tok, advs := as\<rparr>) = (eob', st2)" by fastforce
  have out: "frs' = frs" "st2 = st'"
    using assms(1) False d e by (auto simp: drain_core_def Let_def)
  have st': "tokens st' = tok" "last_tokens_refill st' = now"
    using eob_step_bucket [OF e] rf(3) out by auto
  have "tok = tokens ?st1 - of_nat (length frs') \<and> 0 \<le> tok"
  proof (cases q)
    case True
    then show ?thesis using d rf(1) by auto
  next
    case False
    then show ?thesis using d drain_frames_tokens [OF _ rf(1)] by auto
  qed
  then show ?thesis using st' rf(2,3) assms(2,4) out by auto
qed

lemma bucket_run_bound:
  assumes "bucket_run f hs st = (n, st')" "0 < last_tokens_refill st" "0 \<le> tokens st"
    "last_tokens_refill st \<le> t" "times_ok t hs"
  shows "0 \<le> tokens st' \<and> last_tokens_refill st' \<le> end_time t hs \<and>
    of_nat n + tokens st' \<le> tokens st + of_int (last_tokens_refill st' - last_tokens_refill st) / of_int (bucket_refill_s f)"
  using assms
proof (induction hs arbitrary: st t n)
  case Nil
  then show ?case by (simp add: end_time_def)
next
  case (Cons h hs)
  obtain now q g where h: "h = (now, q, g)" by (cases h)
  obtain frs eob st1 where d: "drain_core f q now (g st) = (frs, eob, st1)" by (metis surj_pair)
  obtain m where r: "bucket_run f hs st1 = (m, st')" "n = length frs + m"
    using Cons.prems(1) d by (auto simp: h split: prod.splits)
  have g: "tokens (g st) = tokens st" "last_tokens_refill (g st) = last_tokens_refill st"
    and t: "t \<le> now" "times_ok now hs"
    using Cons.prems(5) by (auto simp: h keeps_bucket_def)
  have dc: "0 \<le> tokens st1 \<and> last_tokens_refill st1 \<le> now \<and>
      last_tokens_refill st \<le> last_tokens_refill st1 \<and>
      of_nat (length frs) + tokens st1 \<le>
        tokens st + of_int (last_tokens_refill st1 - last_tokens_refill st) / of_int (bucket_refill_s f)"
    using drain_core_bucket [OF d] Cons.prems(2-4) g t(1) by simp
  have ih: "0 \<le> tokens st' \<and> last_tokens_refill st' \<le> end_time now hs \<and>
      of_nat m + tokens st' \<le>
        tokens st1 + of_int (last_tokens_refill st' - last_tokens_refill st1) / of_int (bucket_refill_s f)"
    by (rule Cons.IH [OF r(1)]) (use dc Cons.prems(2) t(2) in auto)
  have "of_int (last_tokens_refill st' - last_tokens_refill st) / of_int (bucket_refill_s f) =
      of_int (last_tokens_refill st' - last_tokens_refill st1) / of_int (bucket_refill_s f) +
      (of_int (last_tokens_refill st1 - last_tokens_refill st) / of_int (bucket_refill_s f) :: rat)"
    by (simp add: add_divide_distrib [symmetric])
  then show ?case using dc ih r(2) by (auto simp: h end_time_def)
qed



end
