(* ===== verification/Flex_Dest.thy ===== *)
theory Flex_Dest
  imports Flex_Advert_Props
begin

text \<open>
  The destination table and the learned routes (FlexNetCode.c): recording what a neighbour reports
  (\<open>flex_learned_add\<close>), choosing the next hop again (\<open>flex_dest_reelect\<close>), merging a
  received record (\<open>flex_dtable_merge\<close>), looking a target up (\<open>flex_find_best_dest\<close>),
  adopting a returning neighbour's routes (\<open>flex_learned_adopt\<close>), and the link time
  filter that feeds the costs (\<open>flex_link_time_sample\<close>).
\<close>

section \<open>Looking up and costing\<close>

type_synonym dkey = "string \<times> int \<times> int"

definition dest_key :: "dest_entry \<Rightarrow> dkey" where
  "dest_key d = (map to_upper (d_callsign d), d_ssid_lo d, d_ssid_hi d)"

definition dkey :: "string \<Rightarrow> int \<Rightarrow> int \<Rightarrow> dkey" where
  "dkey call lo hi = (map to_upper call, lo, hi)"

definition dest_idx :: "dkey \<Rightarrow> dest_entry list \<Rightarrow> nat option" where
  "dest_idx k ds = first_idx (\<lambda>d. dest_key d = k) ds"

interpretation dst: keyed_table dest_key dest_idx FLEXNET_MAX_DESTS
  by unfold_locales (simp add: dest_idx_def)

definition flex_find_dest :: "node \<Rightarrow> string \<Rightarrow> int \<Rightarrow> int \<Rightarrow> nat option" where
  "flex_find_dest nd call lo hi =
     first_idx (\<lambda>d. case_eq (d_callsign d) call \<and> d_ssid_lo d = lo \<and> d_ssid_hi d = hi) (dests nd)"

lemma find_dest_idx: "flex_find_dest nd call lo hi = dest_idx (dkey call lo hi) (dests nd)"
  unfolding flex_find_dest_def dest_idx_def
  by (rule first_idx_cong [OF refl]) (auto simp: dest_key_def dkey_def case_eq_def)

definition flex_dest_cost_here :: "node \<Rightarrow> int \<Rightarrow> int \<Rightarrow> int" where
  "flex_dest_cost_here nd rtt si =
     (if rtt \<ge> FLEXNET_RTT_INFINITY then FLEXNET_RTT_INFINITY
      else if si < 0 \<or> si \<ge> int FLEXNET_MAX_SESSIONS \<or> \<not> s_active (sessions nd ! nat si) then rtt
      else let c = rtt + our_link_time (sessions nd ! nat si)
           in if c < FLEXNET_RTT_INFINITY then c else FLEXNET_RTT_INFINITY - 1)"

definition flex_count_reachable :: "node \<Rightarrow> nat" where
  "flex_count_reachable nd = length (filter (\<lambda>d. d_rtt d < FLEXNET_RTT_INFINITY) (dests nd))"

text \<open>The cheapest finite row that covers the target; \<open>ssid\<close> below 0 means any.\<close>

definition row_covers :: "string \<Rightarrow> int \<Rightarrow> dest_entry \<Rightarrow> bool" where
  "row_covers base ssid d =
     (\<not> d_rtt d \<ge> FLEXNET_RTT_INFINITY \<and> case_eq (d_callsign d) base \<and>
      \<not> (ssid \<ge> 0 \<and> (ssid < d_ssid_lo d \<or> ssid > d_ssid_hi d)))"

definition best_row :: "node \<Rightarrow> string \<Rightarrow> int \<Rightarrow> nat \<Rightarrow> nat option \<times> int \<Rightarrow> nat option \<times> int" where
  "best_row nd base ssid i acc =
     (let d = dests nd ! i; c = flex_dest_cost_here nd (d_rtt d) (d_via_session_idx d)
      in if row_covers base ssid d \<and> c < snd acc then (Some i, c) else acc)"

definition flex_find_best_dest :: "node \<Rightarrow> string \<Rightarrow> int \<Rightarrow> nat option" where
  "flex_find_best_dest nd base ssid =
     fst (fold (best_row nd base ssid) [0..<length (dests nd)] (None, FLEXNET_RTT_INFINITY))"

definition flex_find_dest_for_target :: "node \<Rightarrow> string \<Rightarrow> nat option" where
  "flex_find_dest_for_target nd target =
     (if target = '''' then None
      else let t = take 19 target; b = base_of t; r = drop (length b) t
           in flex_find_best_dest nd b (if r = [] then -1 else atoi (tl r)))"

section \<open>Choosing the next hop again\<close>

text \<open>The offer of session \<open>si\<close>: the route's cost with the '+' penalty, and that cost from here.\<close>

definition reelect_offer :: "node \<Rightarrow> dest_entry \<Rightarrow> nat \<Rightarrow> (int \<times> int) option" where
  "reelect_offer nd d si =
     (if \<not> s_active (sessions nd ! si) then None
      else case learned_idx (rkey (d_callsign d) (d_ssid_lo d) (d_ssid_hi d)) (routes (learned nd ! si)) of
        None \<Rightarrow> None
      | Some ri \<Rightarrow>
          let lr = routes (learned nd ! si) ! ri in
          if l_rtt lr \<le> 0 \<or> l_rtt lr \<ge> FLEXNET_RTT_INFINITY then None
          else let eff = flex_link_opts_cost (flex_sess_link_opts nd (int si)) (l_rtt lr)
               in Some (eff, flex_dest_cost_here nd eff (int si)))"

record election =
  el_si :: "nat option"
  el_eff :: int
  el_here :: int

definition election0 :: election where
  "election0 = \<lparr>el_si = None, el_eff = FLEXNET_RTT_INFINITY, el_here = FLEXNET_RTT_INFINITY\<rparr>"

definition elect_step :: "node \<Rightarrow> dest_entry \<Rightarrow> nat \<Rightarrow> election \<Rightarrow> election" where
  "elect_step nd d si el =
     (case reelect_offer nd d si of
        None \<Rightarrow> el
      | Some (eff, here) \<Rightarrow>
          if here < el_here el \<or> (here = el_here el \<and> int si = d_via_session_idx d)
          then \<lparr>el_si = Some si, el_eff = eff, el_here = here\<rparr> else el)"

definition elect :: "node \<Rightarrow> dest_entry \<Rightarrow> election" where
  "elect nd d = (if transit_enabled nd then fold (elect_step nd d) [0..<FLEXNET_MAX_SESSIONS] election0
                 else election0)"

definition flex_dest_reelect :: "env \<Rightarrow> nat \<Rightarrow> node \<Rightarrow> node" where
  "flex_dest_reelect ev idx nd =
     (let d = dests nd ! idx; el = elect nd d;
          d1 = (case el_si el of
                  None \<Rightarrow> d\<lparr>d_last_updated := e_now ev, d_rtt := FLEXNET_RTT_INFINITY,
                           d_is_infinity := True, d_via_session_idx := -1\<rparr>
                | Some si \<Rightarrow>
                    let via = flex_sess_peer_call ev nd si;
                        d2 = d\<lparr>d_last_updated := e_now ev, d_rtt := el_eff el, d_is_infinity := False,
                               d_via_session_idx := int si, d_port := s_port (sessions nd ! si)\<rparr>
                    in if via = '''' then d2 else d2\<lparr>d_via_callsign := take 9 via\<rparr>)
      in nd\<lparr>dests := (dests nd)[idx := d1]\<rparr>)"

definition flex_dest_reelect_via :: "env \<Rightarrow> nat \<Rightarrow> node \<Rightarrow> node" where
  "flex_dest_reelect_via ev si nd =
     fold (\<lambda>i nd. let d = dests nd ! i in
             if d_via_session_idx d = int si \<or>
                (d_via_session_idx d < 0 \<and> d_rtt d < FLEXNET_RTT_INFINITY)
             then flex_dest_reelect ev i nd else nd)
       [0..<length (dests nd)] nd"

section \<open>Recording what a neighbour reports\<close>

definition check_and_drain_others :: "env \<Rightarrow> nat \<Rightarrow> learned_route \<Rightarrow> node \<Rightarrow> node" where
  "check_and_drain_others ev si r nd =
     fold (\<lambda>p nd. if p = si \<or> \<not> s_active (sessions nd ! p) then nd
                  else flex_advertise_drain ev p
                         (flex_advertise_check ev p (l_call r) (l_lo r) (l_hi r) False nd))
       [0..<FLEXNET_MAX_SESSIONS] nd"

definition set_route :: "nat \<Rightarrow> (learned_route \<Rightarrow> learned_route) \<Rightarrow> learned_state \<Rightarrow> learned_state" where
  "set_route i f st = st\<lparr>routes := (routes st)[i := f (routes st ! i)]\<rparr>"

definition flex_learned_add :: "env \<Rightarrow> int \<Rightarrow> dest_entry \<Rightarrow> node \<Rightarrow> node" where
  "flex_learned_add ev sess_idx route nd =
     (if sess_idx < 0 \<or> sess_idx \<ge> int FLEXNET_MAX_SESSIONS \<or> d_callsign route = '''' then nd
      else
        let si = nat sess_idx; st = learned nd ! si in
        case learned_idx (rkey (d_callsign route) (d_ssid_lo route) (d_ssid_hi route)) (routes st) of
          Some i \<Rightarrow>
            let nd1 = (if l_rtt (routes st ! i) \<noteq> d_rtt route
                       then let nda = upd_learned si (\<lambda>st. (set_route i (\<lambda>r. r\<lparr>l_rtt := d_rtt route\<rparr>) st)
                                                      \<lparr>l_dirty := True\<rparr>) nd
                            in check_and_drain_others ev si (routes (learned nda ! si) ! i) nda
                       else nd)
            in upd_learned si (set_route i (\<lambda>r. r\<lparr>l_last_heard := e_now ev\<rparr>)) nd1
        | None \<Rightarrow>
            if length (routes st) \<ge> FLEXNET_MAX_LEARNED_PER_NEIGHBOUR then nd
            else
              let r = \<lparr>l_call = take 9 (d_callsign route), l_lo = d_ssid_lo route, l_hi = d_ssid_hi route,
                       l_rtt = d_rtt route, l_last_heard = e_now ev, l_direct = False\<rparr>
              in check_and_drain_others ev si r
                   (upd_learned si (\<lambda>st. st\<lparr>routes := routes st @ [r], l_dirty := True\<rparr>) nd))"

section \<open>Merging a received record\<close>

text \<open>
  \<open>flex_dtable_merge\<close> for a session (\<open>Some si\<close>) or none. 0 ignored or table full, 1 new,
  2 known.
\<close>

definition row_update :: "env \<Rightarrow> int \<Rightarrow> int \<Rightarrow> string \<Rightarrow> int \<Rightarrow> bool \<Rightarrow> dest_entry \<Rightarrow> dest_entry" where
  "row_update ev sess_idx port via eff is_inf d =
     (let d1 = d\<lparr>d_rtt := eff, d_is_infinity := is_inf, d_port := port, d_via_session_idx := sess_idx,
                 d_last_updated := e_now ev\<rparr>
      in if via = '''' then d1 else d1\<lparr>d_via_callsign := take 9 via\<rparr>)"

definition flex_dtable_merge :: "env \<Rightarrow> dest_entry \<Rightarrow> nat option \<Rightarrow> node \<Rightarrow> nat \<times> node" where
  "flex_dtable_merge ev inc sess nd =
     (let port = (case sess of None \<Rightarrow> 0 | Some si \<Rightarrow> s_port (sessions nd ! si));
          sess_idx = (case sess of None \<Rightarrow> -1 | Some si \<Rightarrow> int si);
          found = flex_find_dest nd (d_callsign inc) (d_ssid_lo inc) (d_ssid_hi inc)
      in if flex_local_covers nd (d_callsign inc) (d_ssid_lo inc) (d_ssid_hi inc)
         then (0, nd\<lparr>local_echo_skips := local_echo_skips nd + 1\<rparr>)
         else if d_rtt inc = 0 \<and> \<not> d_is_infinity inc
         then (0, (case found of
                     None \<Rightarrow> nd
                   | Some i \<Rightarrow> nd\<lparr>dests := (dests nd)[i := (dests nd ! i)\<lparr>d_last_updated := e_now ev\<rparr>]\<rparr>)
                  \<lparr>rtt0_skips := rtt0_skips nd + 1\<rparr>)
         else
           let via = (case sess of None \<Rightarrow> '''' | Some si \<Rightarrow> flex_sess_peer_call ev nd si);
               eff = flex_link_opts_cost (flex_sess_link_opts nd sess_idx) (d_rtt inc)
           in case found of
             Some i \<Rightarrow>
               let d = dests nd ! i;
                   is_current = (d_via_session_idx d = sess_idx);
                   better = (flex_dest_cost_here nd eff sess_idx <
                             flex_dest_cost_here nd (d_rtt d) (d_via_session_idx d));
                   nd1 = (if is_current \<or> better
                          then nd\<lparr>dests := (dests nd)[i := row_update ev sess_idx port via eff (d_is_infinity inc) d]\<rparr>
                          else nd);
                   nd2 = (if transit_enabled nd
                          then let nd3 = flex_learned_add ev sess_idx inc nd1
                               in if is_current then flex_dest_reelect ev i nd3 else nd3
                          else nd1)
               in (2, nd2)
           | None \<Rightarrow>
               if length (dests nd) < FLEXNET_MAX_DESTS
               then
                 let d = (inc\<lparr>d_rtt := eff, d_port := port, d_via_session_idx := sess_idx,
                              d_last_updated := e_now ev\<rparr>);
                     d1 = (if via = '''' then d else d\<lparr>d_via_callsign := take 9 via\<rparr>);
                     nd1 = nd\<lparr>dests := dests nd @ [d1]\<rparr>
                 in (1, if transit_enabled nd then flex_learned_add ev sess_idx inc nd1 else nd1)
               else (0, nd))"

text \<open>The records of one received frame (at most 64), merged in order.\<close>

definition merge_entries :: "env \<Rightarrow> nat \<Rightarrow> dest_entry list \<Rightarrow> node \<Rightarrow> node" where
  "merge_entries ev si es nd = fold (\<lambda>e nd. snd (flex_dtable_merge ev e (Some si) nd)) es nd"

definition rx_compact :: "bool \<Rightarrow> env \<Rightarrow> nat \<Rightarrow> string \<Rightarrow> node \<Rightarrow> node" where
  "rx_compact schar ev si data nd = merge_entries ev si (flex_parse_compact_records schar data 64) nd"

section \<open>Adopting a returning neighbour's routes\<close>

definition FLEXNET_LEARNED_ADOPT_MAX_AGE :: int where "FLEXNET_LEARNED_ADOPT_MAX_AGE = 600"

definition adoptable :: "env \<Rightarrow> nat \<Rightarrow> string \<Rightarrow> node \<Rightarrow> nat \<Rightarrow> bool" where
  "adoptable ev fresh call nd si =
     (let old = learned nd ! si in
      \<not> (si \<noteq> fresh \<and> s_active (sessions nd ! si)) \<and> routes old \<noteq> [] \<and> case_eq (l_peer_call old) call \<and>
      \<not> (died_at old \<noteq> 0 \<and> e_now ev - died_at old > FLEXNET_LEARNED_ADOPT_MAX_AGE))"

definition flex_learned_adopt :: "env \<Rightarrow> nat \<Rightarrow> string \<Rightarrow> node \<Rightarrow> bool \<times> node" where
  "flex_learned_adopt ev fresh call nd =
     (if call = '''' then (False, nd)
      else case first_idx (adoptable ev fresh call nd) [0..<FLEXNET_MAX_SESSIONS] of
        None \<Rightarrow> (False, nd)
      | Some si \<Rightarrow>
          if si = fresh then (True, upd_learned si (\<lambda>st. st\<lparr>died_at := 0\<rparr>) nd)
          else (True, upd_learned si (\<lambda>_. learned0)
                        (upd_learned fresh (\<lambda>_. (learned nd ! si)\<lparr>died_at := 0\<rparr>) nd)))"

section \<open>Link time\<close>

definition FLEXNET_LT_INTERVAL_PCF :: int where "FLEXNET_LT_INTERVAL_PCF = 320"
definition FLEXNET_LT_INTERVAL_XNET :: int where "FLEXNET_LT_INTERVAL_XNET = 20"

text \<open>\<open>flex_send_link_time\<close>: the reply is rate limited by the neighbour's family.\<close>

definition flex_send_link_time :: "env \<Rightarrow> nat \<Rightarrow> nat \<Rightarrow> node \<Rightarrow> int \<times> node" where
  "flex_send_link_time ev l si nd =
     (let s = sessions nd ! si;
          interval = (if peer_ka_term s = CR then FLEXNET_LT_INTERVAL_PCF else FLEXNET_LT_INTERVAL_XNET)
      in if last_lt_tx s \<noteq> 0 \<and> e_now ev - last_lt_tx s < interval then (0, nd)
         else case flex_build_link_time 16
                     (flex_wire_lt_value (flex_peer_is_pcf (Some s)) (unat (lt_sample_count s)) (our_link_time s)) of
           None \<Rightarrow> (-1, nd)
         | Some fr \<Rightarrow>
             (int (length fr),
              upd_sess si (\<lambda>s. s\<lparr>last_lt_tx := e_now ev, lt_tx_tick := e_ticks ev, lt_tx_pending := True\<rparr>)
                (flex_send_frame ev l FLEXNET_PID_CE fr nd)))"

text \<open>One sample folded into the session: the 3:1 filter on \<open>uint32_t\<close>, rounded to 100 ms and clamped.\<close>

definition lt_fold :: "32 word \<Rightarrow> session \<Rightarrow> session" where
  "lt_fold sample s =
     (let sm = (if lt_sample_count s = 0 then sample else (lt_smoothed_10ms s * 3 + sample) div 4);
          wire0 = (sm + 5) div 10;
          wire1 = (if wire0 < 1 then 1 else wire0);
          wire = (if wire1 > 4095 then 4095 else wire1)
      in s\<lparr>lt_smoothed_10ms := sm, lt_sample_count := lt_sample_count s + 1,
           our_link_time := uint wire, lt_tx_pending := False\<rparr>)"

definition lt_trigger :: "env \<Rightarrow> nat \<Rightarrow> node \<Rightarrow> node" where
  "lt_trigger ev si nd =
     (if \<not> transit_enabled nd then nd
      else
        let st = learned nd ! si; t = our_link_time (sessions nd ! si); anchor = lt_anchor st;
            moved = (if t > anchor then t - anchor else anchor - t)
        in if moved < FLEXNET_REFRESH_THRESHOLD_ABS then nd
           else
             let nd1 = upd_learned si (\<lambda>st. st\<lparr>lt_anchor := t\<rparr>) nd in
             if routes st = [] then nd1
             else fold (\<lambda>p nd. if p = si \<or> \<not> s_active (sessions nd ! p) then nd
                     else flex_advertise_drain ev p
                            (fold (\<lambda>lr. flex_advertise_check ev p (l_call lr) (l_lo lr) (l_hi lr) False)
                                  (routes st) nd))
                   [0..<FLEXNET_MAX_SESSIONS] nd1)"

definition flex_link_time_sample :: "env \<Rightarrow> nat \<Rightarrow> node \<Rightarrow> node" where
  "flex_link_time_sample ev si nd =
     (let s = sessions nd ! si; sample = e_ticks ev - lt_tx_tick s in
      if \<not> lt_tx_pending s then nd
      else if sample = 0 \<or> sample > 6000 then upd_sess si (\<lambda>s. s\<lparr>lt_tx_pending := False\<rparr>) nd
      else lt_trigger ev si (upd_sess si (lt_fold sample) nd))"

end
