(* ===== verification/Flex_L2.thy ===== *)
theory Flex_L2
  imports Flex_Dest
begin

unbundle bit_operations_syntax

text \<open>
  Layer 2 forwarding (FlexNetCode.c, \<open>FlexNet_L2Transit\<close> and what it calls): a frame that
  names this node as its next digipeater is extended by the next hop on its way out, and the hop is
  taken out again when the answer comes back. A message is the buffer from DEST onward with its
  length, \<open>LENGTH - MSGHDDRLEN\<close>; a pointer into it is an offset. The circuit table
  \<open>FlexNetL2Transit[]\<close> and the counters are the state, next to the node.
\<close>

section \<open>Messages and addresses\<close>

definition FLEXNET_MAX_L2_TRANSIT :: nat where "FLEXNET_MAX_L2_TRANSIT = 128"
definition FLEXNET_L2_TRANSIT_LINGER :: int where "FLEXNET_L2_TRANSIT_LINGER = 120"
definition FLEXNET_L2_TRANSIT_EVICT :: int where "FLEXNET_L2_TRANSIT_EVICT = 900"
definition FLEXNET_L2_TRANSIT_IDLE :: int where "FLEXNET_L2_TRANSIT_IDLE = 7200"
definition FLEXNET_L2_MAX_FRAME :: int where "FLEXNET_L2_MAX_FRAME = 330"

record l2_msg =
  m_buf :: "byte list"
  m_len :: int

text \<open>The seven bytes of the address entry at an offset, and the flags in its last byte.\<close>

definition entry_at :: "l2_msg \<Rightarrow> nat \<Rightarrow> byte list" where
  "entry_at m off = take 7 (drop off (m_buf m))"

definition end_bit :: "l2_msg \<Rightarrow> nat \<Rightarrow> bool" where
  "end_bit m off \<longleftrightarrow> m_buf m ! (off + 6) AND 0x01 \<noteq> 0"

text \<open>A copy into the buffer. The callers check the length first.\<close>

definition overlay :: "nat \<Rightarrow> byte list \<Rightarrow> byte list \<Rightarrow> byte list" where
  "overlay off src buf = take off buf @ src @ drop (off + length src) buf"



definition flex_l2_addr_last :: "l2_msg \<Rightarrow> nat option" where
  "flex_l2_addr_last m =
     map_option (\<lambda>n. 7 * n) (first_idx (\<lambda>n. end_bit m (7 * n)) [0..<2 + FLEXNET_L2_MAX_DIGIS])"

definition flex_l2_digi_count :: "l2_msg \<Rightarrow> nat" where
  "flex_l2_digi_count m =
     (if end_bit m 7 then 0
      else case first_idx (\<lambda>n. end_bit m (14 + 7 * n)) [0..<FLEXNET_L2_MAX_DIGIS] of
             Some n \<Rightarrow> n + 1
           | None \<Rightarrow> FLEXNET_L2_MAX_DIGIS)"

fun digi_scan :: "l2_msg \<Rightarrow> byte list \<Rightarrow> nat \<Rightarrow> nat \<Rightarrow> bool" where
  "digi_scan m call 0 off = False"
| "digi_scan m call (Suc k) off =
     (flex_l2_same_call (entry_at m off) call \<or> (\<not> end_bit m off \<and> digi_scan m call k (off + 7)))"

definition flex_l2_call_in_chain :: "l2_msg \<Rightarrow> byte list \<Rightarrow> bool" where
  "flex_l2_call_in_chain m call =
     (if flex_l2_same_call (entry_at m 0) call \<or> flex_l2_same_call (entry_at m 7) call then True
      else if end_bit m 7 then False
      else digi_scan m call FLEXNET_L2_MAX_DIGIS 14)"

text \<open>\<open>None\<close> is \<open>FALSE\<close> with the message untouched.\<close>

definition flex_l2_append_digi :: "l2_msg \<Rightarrow> byte list \<Rightarrow> l2_msg option" where
  "flex_l2_append_digi m call =
     (case flex_l2_addr_last m of
        None \<Rightarrow> None
      | Some l \<Rightarrow>
          let addr_len = l + 7 in
          if m_len m < int addr_len \<or> m_len m + 7 > FLEXNET_L2_MAX_FRAME then None
          else
            let b0 = m_buf m;
                b1 = overlay (addr_len + 7) (take (nat (m_len m) - addr_len) (drop addr_len b0)) b0;
                b2 = b1[l + 6 := (b1 ! (l + 6)) AND 0xFE];
                b3 = overlay addr_len (take 6 call) b2;
                b4 = b3[addr_len + 6 := ((call ! 6) AND 0x7E) OR 0x01]
            in Some (m\<lparr>m_buf := b4, m_len := m_len m + 7\<rparr>))"

definition flex_l2_remove_digi :: "l2_msg \<Rightarrow> nat \<Rightarrow> l2_msg option" where
  "flex_l2_remove_digi m off =
     (if off < 14 \<or> int off + 7 > m_len m then None
      else
        let was_last = end_bit m off; b0 = m_buf m;
            b1 = overlay off (take (nat (m_len m) - off - 7) (drop (off + 7) b0)) b0;
            b2 = (if was_last \<and> off \<ge> 21 then b1[off - 1 := (b1 ! (off - 1)) OR 0x01]
                  else if was_last then b1[13 := (b1 ! 13) OR 0x01] else b1)
        in Some (m\<lparr>m_buf := b2, m_len := m_len m - 7\<rparr>))"

text \<open>Has this frame been through us already: our call, repeated, before the entry at \<open>our\<close>.\<close>

definition flex_l2_self_repeated :: "l2_msg \<Rightarrow> nat \<Rightarrow> bool" where
  "flex_l2_self_repeated m our =
     list_ex (\<lambda>k. (m_buf m ! (14 + 7 * k + 6)) AND 0x80 \<noteq> 0 \<and>
                  flex_l2_same_call (entry_at m (14 + 7 * k)) (entry_at m our))
       [0..<(our - 14) div 7]"

section \<open>The life of a circuit\<close>

datatype l2_kind = K_OTHER | K_SABM | K_DISC | K_UA | K_DM

definition flex_l2_ctl_kind :: "byte \<Rightarrow> l2_kind" where
  "flex_l2_ctl_kind ctl =
     (if ctl AND 0x01 = 0 then K_OTHER
      else if ctl AND 0x03 = 0x01 then K_OTHER
      else let c = ctl AND 0xEF in
        if c = 0x2F \<or> c = 0x6F then K_SABM
        else if c = 0x43 then K_DISC
        else if c = 0x63 then K_UA
        else if c = 0x0F then K_DM
        else K_OTHER)"

datatype l2_slot = S_LIVE | S_EVICTABLE | S_EXPIRED

definition flex_l2_slot_state :: "int \<Rightarrow> int \<Rightarrow> int \<Rightarrow> l2_slot" where
  "flex_l2_slot_state now last_used closed_at =
     (if closed_at \<noteq> 0 \<and> now - closed_at > FLEXNET_L2_TRANSIT_LINGER then S_EXPIRED
      else if now - last_used > FLEXNET_L2_TRANSIT_IDLE then S_EXPIRED
      else if closed_at \<noteq> 0 \<or> now - last_used > FLEXNET_L2_TRANSIT_EVICT then S_EVICTABLE
      else S_LIVE)"

definition flex_l2_must_repin :: "bool \<Rightarrow> l2_kind \<Rightarrow> bool \<Rightarrow> bool" where
  "flex_l2_must_repin is_closed kind pinned_live =
     (if \<not> pinned_live then True else is_closed \<and> kind = K_SABM)"

record l2_circuit =
  x_active :: bool
  x_user :: "byte list"
  x_dest :: "byte list"
  x_appended :: "byte list"
  x_prev :: "byte list"
  x_port :: int
  x_out_port :: int
  x_prev_out :: int
  x_closing :: bool
  x_closed_at :: int
  x_last_used :: int

definition l2_circuit0 :: l2_circuit where
  "l2_circuit0 = \<lparr>x_active = False, x_user = replicate 7 0, x_dest = replicate 7 0,
     x_appended = replicate 7 0, x_prev = replicate 7 0, x_port = 0, x_out_port = 0, x_prev_out = 0,
     x_closing = False, x_closed_at = 0, x_last_used = 0\<rparr>"

record l2_state =
  circuits :: "l2_circuit list"
  fwd_extended :: nat
  fwd_contracted :: nat
  fwd_declined :: nat
  fwd_repinned :: nat
  fwd_looped :: nat
  fwd_evicted :: nat
  fwd_crossport :: nat

definition l2_state0 :: l2_state where
  "l2_state0 = \<lparr>circuits = replicate FLEXNET_MAX_L2_TRANSIT l2_circuit0, fwd_extended = 0,
     fwd_contracted = 0, fwd_declined = 0, fwd_repinned = 0, fwd_looped = 0, fwd_evicted = 0,
     fwd_crossport = 0\<rparr>"

definition flex_l2_is_our_hop :: "l2_circuit \<Rightarrow> byte list \<Rightarrow> bool" where
  "flex_l2_is_our_hop e prev =
     (if (prev ! 6) AND 0x80 = 0 then False
      else if pinned_call (x_appended e) \<and> flex_l2_same_call prev (x_appended e) then True
      else pinned_call (x_prev e) \<and> flex_l2_same_call prev (x_prev e))"

fun flex_l2_note_ctl :: "l2_circuit \<Rightarrow> l2_kind \<Rightarrow> int \<Rightarrow> l2_circuit" where
  "flex_l2_note_ctl e K_SABM now = e\<lparr>x_closing := False, x_closed_at := 0\<rparr>"
| "flex_l2_note_ctl e K_DISC now = e\<lparr>x_closing := True\<rparr>"
| "flex_l2_note_ctl e K_UA now =
     (if x_closing e \<and> x_closed_at e = 0 then e\<lparr>x_closed_at := now\<rparr> else e)"
| "flex_l2_note_ctl e K_DM now = (if x_closed_at e = 0 then e\<lparr>x_closed_at := now\<rparr> else e)"
| "flex_l2_note_ctl e K_OTHER now = e"

definition circuit_state :: "int \<Rightarrow> l2_circuit \<Rightarrow> l2_slot" where
  "circuit_state now e = flex_l2_slot_state now (x_last_used e) (x_closed_at e)"

definition flex_l2_active_circuits :: "int \<Rightarrow> l2_circuit list \<Rightarrow> nat" where
  "flex_l2_active_circuits now cs =
     length (filter (\<lambda>e. x_active e \<and> circuit_state now e \<noteq> S_EXPIRED) cs)"

section \<open>Finding a circuit\<close>

text \<open>The candidates \<open>spare\<close>, \<open>closed\<close> and \<open>oldest\<close> of the scan, with the times they compare by.\<close>

record l2_pick =
  k_spare :: "nat option"
  k_closed :: "(nat \<times> int) option"
  k_oldest :: "(nat \<times> int) option"

definition l2_pick0 :: l2_pick where
  "l2_pick0 = \<lparr>k_spare = None, k_closed = None, k_oldest = None\<rparr>"

definition older :: "nat \<Rightarrow> int \<Rightarrow> (nat \<times> int) option \<Rightarrow> (nat \<times> int) option" where
  "older i t b = (case b of None \<Rightarrow> Some (i, t) | Some (j, u) \<Rightarrow> if t < u then Some (i, t) else b)"

definition circuit_matches :: "byte list \<Rightarrow> byte list \<Rightarrow> int \<Rightarrow> l2_circuit \<Rightarrow> bool" where
  "circuit_matches user dest port e \<longleftrightarrow> x_active e \<and> x_port e = port \<and>
     flex_l2_same_call (x_user e) user \<and> flex_l2_same_call (x_dest e) dest"

definition expire :: "int \<Rightarrow> l2_circuit \<Rightarrow> l2_circuit" where
  "expire now e = (if x_active e \<and> circuit_state now e = S_EXPIRED then e\<lparr>x_active := False\<rparr> else e)"

definition consider_slot :: "int \<Rightarrow> nat \<Rightarrow> l2_circuit \<Rightarrow> l2_pick \<Rightarrow> l2_pick" where
  "consider_slot now i e pk =
     (if \<not> x_active e then (if k_spare pk = None then pk\<lparr>k_spare := Some i\<rparr> else pk)
      else if circuit_state now e \<noteq> S_EVICTABLE then pk
      else if x_closed_at e \<noteq> 0 then pk\<lparr>k_closed := older i (x_closed_at e) (k_closed pk)\<rparr>
      else pk\<lparr>k_oldest := older i (x_last_used e) (k_oldest pk)\<rparr>)"

text \<open>The scan stops at a match; slots it has passed are expired, later ones are not looked at.\<close>

fun l2_scan :: "int \<Rightarrow> byte list \<Rightarrow> byte list \<Rightarrow> int \<Rightarrow> nat \<Rightarrow> l2_circuit list \<Rightarrow> l2_pick \<Rightarrow>
    l2_circuit list \<times> nat option \<times> l2_pick" where
  "l2_scan now user dest port i [] pk = ([], None, pk)"
| "l2_scan now user dest port i (e # es) pk =
     (let e1 = expire now e in
      if circuit_matches user dest port e1 then (e1 # es, Some i, pk)
      else case l2_scan now user dest port (i + 1) es (consider_slot now i e1 pk) of
             (es1, r, pk1) \<Rightarrow> (e1 # es1, r, pk1))"

definition new_circuit :: "int \<Rightarrow> byte list \<Rightarrow> byte list \<Rightarrow> int \<Rightarrow> l2_circuit" where
  "new_circuit now user dest port =
     l2_circuit0\<lparr>x_active := True, x_user := user, x_dest := dest, x_port := port, x_last_used := now\<rparr>"

definition flex_l2_find ::
  "int \<Rightarrow> byte list \<Rightarrow> byte list \<Rightarrow> int \<Rightarrow> bool \<Rightarrow> l2_state \<Rightarrow> nat option \<times> l2_state" where
  "flex_l2_find now user dest port create st =
     (case l2_scan now user dest port 0 (circuits st) l2_pick0 of
        (cs, Some i, pk) \<Rightarrow> (Some i, st\<lparr>circuits := cs\<rparr>)
      | (cs, None, pk) \<Rightarrow>
          if \<not> create then (None, st\<lparr>circuits := cs\<rparr>)
          else case k_spare pk of
            Some i \<Rightarrow> (Some i, st\<lparr>circuits := cs[i := new_circuit now user dest port]\<rparr>)
          | None \<Rightarrow>
              (case (if k_closed pk \<noteq> None then k_closed pk else k_oldest pk) of
                 None \<Rightarrow> (None, st\<lparr>circuits := cs\<rparr>)
               | Some (i, t) \<Rightarrow>
                   (Some i, st\<lparr>circuits := cs[i := new_circuit now user dest port],
                               fwd_evicted := fwd_evicted st + 1\<rparr>)))"

definition flex_l2_out_eff :: "l2_circuit \<Rightarrow> int" where
  "flex_l2_out_eff e = (if x_out_port e \<noteq> 0 then x_out_port e else x_port e)"

definition flex_l2_find_rev :: "int \<Rightarrow> byte list \<Rightarrow> byte list \<Rightarrow> int \<Rightarrow> l2_circuit list \<Rightarrow> nat option" where
  "flex_l2_find_rev now user dest port cs =
     first_idx (\<lambda>e. x_active e \<and> circuit_state now e \<noteq> S_EXPIRED \<and>
         flex_l2_same_call (x_user e) user \<and> flex_l2_same_call (x_dest e) dest \<and>
         (flex_l2_out_eff e = port \<or> (pinned_call (x_prev e) \<and> x_prev_out e = port))) cs"

definition flex_l2_out_port :: "int \<Rightarrow> int \<Rightarrow> int \<Rightarrow> int \<Rightarrow> int \<Rightarrow> int" where
  "flex_l2_out_port arrive rev_port fwd_out ext_port peer_port =
     (if rev_port \<noteq> 0 then rev_port else if fwd_out \<noteq> 0 then fwd_out
      else if ext_port \<noteq> 0 then ext_port else if peer_port \<noteq> 0 then peer_port else arrive)"

section \<open>The next hop\<close>

text \<open>
  The port of the frame, and what LinBPQ answers: the links declared FlexNet (the MAP entries and
  port links) and the port table.
\<close>

record l2_port =
  p_num :: int
  p_digiflag :: int
  p_maxdigis :: nat

definition l2_call :: "env \<Rightarrow> byte list \<Rightarrow> string" where
  "l2_call ev ax = flex_normalize_callsign (e_conv ev) ax 20"

datatype l2_hop = HopDeclined | HopAdjacent int | HopVia "byte list" int

text \<open>The session a destination row points to, healed from its neighbour's call when it is stale.\<close>

definition session_live :: "node \<Rightarrow> int \<Rightarrow> bool" where
  "session_live nd via \<longleftrightarrow>
     \<not> (via < 0 \<or> via \<ge> int FLEXNET_MAX_SESSIONS) \<and> s_active (sessions nd ! nat via)"

definition heal_via :: "env \<Rightarrow> nat \<Rightarrow> node \<Rightarrow> node" where
  "heal_via ev di nd =
     (let d = dests nd ! di in
      if session_live nd (d_via_session_idx d) then nd
      else case flex_session_for_call ev nd (d_via_callsign d) of
             None \<Rightarrow> nd
           | Some h \<Rightarrow> nd\<lparr>dests := (dests nd)[di := d\<lparr>d_via_session_idx := int h\<rparr>]\<rparr>)"

definition decline :: "l2_state \<Rightarrow> l2_state" where
  "decline st = st\<lparr>fwd_declined := fwd_declined st + 1\<rparr>"

definition flex_l2_resolve_hop ::
  "env \<Rightarrow> byte list \<Rightarrow> string \<Rightarrow> node \<Rightarrow> l2_state \<Rightarrow> l2_hop \<times> node \<times> l2_state" where
  "flex_l2_resolve_hop ev dest_ax dest_s nd st =
     (let ext = flex_external_port nd dest_s in
      if ext \<noteq> 0 then (HopAdjacent ext, nd, st)
      else case flex_find_dest_for_target nd dest_s of
        None \<Rightarrow> (HopDeclined, nd, decline st)
      | Some di \<Rightarrow>
          let nd1 = heal_via ev di nd; via = d_via_session_idx (dests nd1 ! di) in
          if \<not> session_live nd1 via then (HopDeclined, nd1, decline st)
          else
            let s = sessions nd1 ! nat via; nh = peer_callsign s in
            if \<not> pinned_call nh then (HopDeclined, nd1, decline st)
            else if flex_l2_same_call nh dest_ax then (HopAdjacent (s_port s), nd1, st)
            else (HopVia nh (s_port s), nd1, st))"

definition upd_circuit :: "nat \<Rightarrow> (l2_circuit \<Rightarrow> l2_circuit) \<Rightarrow> l2_state \<Rightarrow> l2_state" where
  "upd_circuit i f st = st\<lparr>circuits := (circuits st)[i := f (circuits st ! i)]\<rparr>"

text \<open>\<open>flex_l2_contract\<close>: the new offset of our own entry.\<close>

definition flex_l2_contract ::
  "env \<Rightarrow> l2_port \<Rightarrow> l2_msg \<Rightarrow> nat \<Rightarrow> l2_kind \<Rightarrow> l2_state \<Rightarrow> (nat \<times> l2_msg \<times> l2_state) option" where
  "flex_l2_contract ev port m our kind st =
     (let prev = our - 7 in
      case flex_l2_find_rev (e_now ev) (entry_at m 0) (entry_at m 7) (p_num port) (circuits st) of
        None \<Rightarrow> None
      | Some i \<Rightarrow>
          if \<not> flex_l2_is_our_hop (circuits st ! i) (entry_at m prev) then None
          else case flex_l2_remove_digi m prev of
            None \<Rightarrow> None
          | Some m1 \<Rightarrow>
              Some (our - 7, m1,
                (upd_circuit i (\<lambda>e. flex_l2_note_ctl (e\<lparr>x_last_used := e_now ev\<rparr>) kind (e_now ev)) st)
                  \<lparr>fwd_contracted := fwd_contracted st + 1\<rparr>))"

text \<open>The hop, with \<open>pinned\<close>.\<close>

definition flex_l2_pick_hop ::
  "env \<Rightarrow> l2_circuit option \<Rightarrow> l2_kind \<Rightarrow> byte list \<Rightarrow> string \<Rightarrow> node \<Rightarrow> l2_state \<Rightarrow>
     l2_hop \<times> bool \<times> node \<times> l2_state" where
  "flex_l2_pick_hop ev eo kind dest_ax dest_s nd st =
     (let fresh = (case flex_l2_resolve_hop ev dest_ax dest_s nd st of (h, nd1, st1) \<Rightarrow> (h, False, nd1, st1))
      in case eo of
           None \<Rightarrow> fresh
         | Some e \<Rightarrow>
             if pinned_call (x_appended e) \<and>
                \<not> flex_l2_must_repin (x_closed_at e \<noteq> 0) kind
                    (flex_session_for_call ev nd (l2_call ev (x_appended e)) \<noteq> None)
             then (HopVia (x_appended e) (flex_l2_out_eff e), True, nd, st)
             else fresh)"

text \<open>The circuit's entry after a frame was extended: the old pin is kept when it changes.\<close>

definition pin_hop :: "bool \<Rightarrow> bool \<Rightarrow> byte list \<Rightarrow> int \<Rightarrow> l2_circuit \<Rightarrow> l2_circuit" where
  "pin_hop pinned fresh nexthop hop_port e =
     (if pinned then e
      else
        let e1 = (if \<not> fresh \<and> \<not> flex_l2_same_call (x_appended e) nexthop
                  then e\<lparr>x_prev := x_appended e, x_prev_out := flex_l2_out_eff e\<rparr> else e)
        in e1\<lparr>x_appended := nexthop, x_out_port := hop_port\<rparr>)"

definition flex_l2_extend ::
  "env \<Rightarrow> l2_port \<Rightarrow> l2_msg \<Rightarrow> nat option \<Rightarrow> byte list \<Rightarrow> bool \<Rightarrow> int \<Rightarrow> l2_kind \<Rightarrow> l2_state \<Rightarrow>
     bool \<times> l2_msg \<times> l2_state" where
  "flex_l2_extend ev port m ei nexthop pinned hop_port kind st =
     (case (case ei of
              Some i \<Rightarrow> (Some i, st)
            | None \<Rightarrow> flex_l2_find (e_now ev) (entry_at m 7) (entry_at m 0) (p_num port) True st) of
        (None, st1) \<Rightarrow> (False, m, decline st1)
      | (Some i, st1) \<Rightarrow>
          let fresh = (ei = None \<or> \<not> pinned_call (x_appended (circuits st1 ! i))) in
          case flex_l2_append_digi m nexthop of
            None \<Rightarrow>
              (False, m, decline (if fresh then upd_circuit i (\<lambda>e. e\<lparr>x_active := False\<rparr>) st1 else st1))
          | Some m1 \<Rightarrow>
              let repinned = (\<not> pinned \<and> \<not> fresh \<and> \<not> flex_l2_same_call (x_appended (circuits st1 ! i)) nexthop);
                  st2 = upd_circuit i (\<lambda>e. flex_l2_note_ctl ((pin_hop pinned fresh nexthop hop_port e)
                                             \<lparr>x_last_used := e_now ev\<rparr>) kind (e_now ev)) st1
              in (True, m1, st2\<lparr>fwd_extended := fwd_extended st2 + 1,
                               fwd_repinned := fwd_repinned st2 + (if repinned then 1 else 0)\<rparr>))"

section \<open>The port to leave on\<close>

definition flex_l2_external_port :: "env \<Rightarrow> node \<Rightarrow> byte list \<Rightarrow> int" where
  "flex_l2_external_port ev nd ax = flex_external_port nd (l2_call ev ax)"

text \<open>\<open>flex_l2_peer_port\<close>: the arrival port at once, else the port of the cheapest link.\<close>

fun peer_port_scan :: "byte list \<Rightarrow> int \<Rightarrow> session list \<Rightarrow> int \<Rightarrow> int \<Rightarrow> int" where
  "peer_port_scan ax arrive [] best best_lt = best"
| "peer_port_scan ax arrive (s # ss) best best_lt =
     (if \<not> s_active s \<or> \<not> pinned_call (peer_callsign s) \<or> \<not> flex_l2_same_call (peer_callsign s) ax
      then peer_port_scan ax arrive ss best best_lt
      else if s_port s = arrive then arrive
      else
        let lt = (if our_link_time s > 0 then our_link_time s else FLEXNET_RTT_INFINITY)
        in if best = 0 \<or> lt < best_lt then peer_port_scan ax arrive ss (s_port s) lt
           else peer_port_scan ax arrive ss best best_lt)"

definition flex_l2_peer_port :: "node \<Rightarrow> byte list \<Rightarrow> int \<Rightarrow> int" where
  "flex_l2_peer_port nd ax arrive = peer_port_scan ax arrive (sessions nd) 0 0"

definition flex_port_carries_flexnet :: "node \<Rightarrow> int \<Rightarrow> bool" where
  "flex_port_carries_flexnet nd port =
     (flex_port_is_flexnet nd port \<or> list_ex (\<lambda>s. s_active s \<and> s_port s = port) (sessions nd))"

definition flex_l2_note_adjacent ::
  "env \<Rightarrow> int \<Rightarrow> l2_msg \<Rightarrow> nat option \<Rightarrow> int \<Rightarrow> l2_kind \<Rightarrow> l2_state \<Rightarrow> l2_state" where
  "flex_l2_note_adjacent ev arrive m ei hop_port kind st =
     (case (case ei of
              Some i \<Rightarrow> (Some i, st)
            | None \<Rightarrow> flex_l2_find (e_now ev) (entry_at m 7) (entry_at m 0) arrive True st) of
        (None, st1) \<Rightarrow> st1
      | (Some i, st1) \<Rightarrow>
          upd_circuit i (\<lambda>e. flex_l2_note_ctl (e\<lparr>x_out_port := hop_port, x_last_used := e_now ev\<rparr>)
                               kind (e_now ev)) st1)"

text \<open>The result is the port, 0 for the arrival port.\<close>

definition flex_l2_choose_port ::
  "env \<Rightarrow> l2_port \<Rightarrow> l2_msg \<Rightarrow> nat \<Rightarrow> node \<Rightarrow> l2_state \<Rightarrow> int \<times> l2_state" where
  "flex_l2_choose_port ev port m our nd st =
     (let arrive = p_num port;
          next_ent = (if end_bit m our then entry_at m 0 else entry_at m (our + 7));
          ext_next = flex_l2_external_port ev nd next_ent
      in if \<not> (flex_crossport_active nd \<or> ext_next \<noteq> 0 \<or> flex_l2_external_port ev nd (entry_at m 0) \<noteq> 0 \<or>
                flex_l2_external_port ev nd (entry_at m 7) \<noteq> 0)
         then (0, st)
         else
           case flex_l2_find (e_now ev) (entry_at m 7) (entry_at m 0) arrive False st of
             (fwd, st1) \<Rightarrow>
               let out = flex_l2_out_port arrive
                     (case flex_l2_find_rev (e_now ev) (entry_at m 0) (entry_at m 7) arrive (circuits st) of
                        None \<Rightarrow> 0 | Some i \<Rightarrow> x_port (circuits st ! i))
                     (case fwd of None \<Rightarrow> 0 | Some i \<Rightarrow> flex_l2_out_eff (circuits st1 ! i))
                     ext_next (flex_l2_peer_port nd next_ent arrive)
               in if out = arrive then (0, st1)
                  else if p_digiflag port = 0 \<or> e_ports ev out = None then (0, st1)
                  else (out, st1\<lparr>fwd_crossport := fwd_crossport st1 + 1\<rparr>))"

section \<open>The hook\<close>

text \<open>What the caller does with the frame: drop it, or digipeat it from an entry on a port.\<close>

datatype l2_verdict = L2Drop | L2Send nat int

record l2_out =
  o_verdict :: l2_verdict
  o_msg :: l2_msg
  o_node :: node
  o_st :: l2_state

definition send_from :: "env \<Rightarrow> l2_port \<Rightarrow> nat \<Rightarrow> l2_msg \<Rightarrow> node \<Rightarrow> l2_state \<Rightarrow> l2_out" where
  "send_from ev port our m nd st =
     (case flex_l2_choose_port ev port m our nd st of
        (p, st1) \<Rightarrow> \<lparr>o_verdict = L2Send our p, o_msg = m, o_node = nd, o_st = st1\<rparr>)"

definition leave_alone :: "nat \<Rightarrow> l2_msg \<Rightarrow> node \<Rightarrow> l2_state \<Rightarrow> l2_out" where
  "leave_alone our m nd st = \<lparr>o_verdict = L2Send our 0, o_msg = m, o_node = nd, o_st = st\<rparr>"

definition digi_cap :: "l2_port \<Rightarrow> nat" where
  "digi_cap port = min (if p_maxdigis port \<noteq> 0 then p_maxdigis port else FLEXNET_L2_MAX_DIGIS) FLEXNET_L2_MAX_DIGIS"

text \<open>The last part of the hook: a next hop is known.\<close>

definition l2_forward ::
  "env \<Rightarrow> l2_port \<Rightarrow> l2_msg \<Rightarrow> nat \<Rightarrow> nat option \<Rightarrow> byte list \<Rightarrow> bool \<Rightarrow> int \<Rightarrow> l2_kind \<Rightarrow> node \<Rightarrow>
     l2_state \<Rightarrow> l2_out" where
  "l2_forward ev port m our ei nexthop pinned hop_port kind nd st =
     (if flex_l2_call_in_chain m nexthop then leave_alone our m nd (decline st)
      else if hop_port \<noteq> p_num port \<and> \<not> flex_crossport_active nd then leave_alone our m nd (decline st)
      else if flex_l2_digi_count m \<ge> digi_cap port then leave_alone our m nd (decline st)
      else case flex_l2_extend ev port m ei nexthop pinned hop_port kind st of
        (True, m1, st1) \<Rightarrow> send_from ev port our m1 nd st1
      | (False, m1, st1) \<Rightarrow> leave_alone our m1 nd st1)"

text \<open>The forward path, when we are the last entry of the chain.\<close>

definition l2_outbound ::
  "env \<Rightarrow> l2_port \<Rightarrow> l2_msg \<Rightarrow> nat \<Rightarrow> l2_kind \<Rightarrow> node \<Rightarrow> l2_state \<Rightarrow> l2_out" where
  "l2_outbound ev port m our kind nd st =
     (case flex_l2_find (e_now ev) (entry_at m 7) (entry_at m 0) (p_num port) False st of
        (ei, st1) \<Rightarrow>
          if ei \<noteq> None \<and> flex_l2_self_repeated m our
          then \<lparr>o_verdict = L2Drop, o_msg = m, o_node = nd, o_st = st1\<lparr>fwd_looped := fwd_looped st1 + 1\<rparr>\<rparr>
          else case flex_l2_pick_hop ev (map_option (\<lambda>i. circuits st1 ! i) ei) kind (entry_at m 0)
                      (l2_call ev (entry_at m 0)) nd st1 of
            (HopDeclined, pinned, nd1, st2) \<Rightarrow> send_from ev port our m nd1 st2
          | (HopAdjacent hp, pinned, nd1, st2) \<Rightarrow>
              send_from ev port our m nd1
                (if hp \<noteq> 0 \<and> hp \<noteq> p_num port \<and>
                    (flex_crossport_active nd1 \<or> flex_l2_external_port ev nd1 (entry_at m 0) \<noteq> 0)
                 then flex_l2_note_adjacent ev (p_num port) m ei hp kind st2 else st2)
          | (HopVia nexthop hp, pinned, nd1, st2) \<Rightarrow>
              l2_forward ev port m our ei nexthop pinned hp kind nd1 st2)"

text \<open>The conditions under which the hook leaves a frame to stock digipeating.\<close>

definition l2_not_ours :: "env \<Rightarrow> l2_port \<Rightarrow> l2_msg \<Rightarrow> nat \<Rightarrow> node \<Rightarrow> bool" where
  "l2_not_ours ev port m our nd =
     (\<not> transit_enabled nd \<or> \<not> l2_transit_enabled nd \<or> our < 14 \<or> (our - 14) mod 7 \<noteq> 0 \<or>
      (\<not> FlexNet_IsPeerFlexNetMapped ev nd (entry_at m 7) (p_num port) \<and> flex_l2_digi_count m < 2 \<and>
       flex_l2_external_port ev nd (entry_at m 0) = 0 \<and> flex_l2_external_port ev nd (entry_at m 7) = 0 \<and>
       \<not> (flex_crossport_active nd \<and> flex_port_carries_flexnet nd (p_num port))))"

definition FlexNet_L2Transit :: "env \<Rightarrow> l2_port \<Rightarrow> l2_msg \<Rightarrow> nat \<Rightarrow> node \<Rightarrow> l2_state \<Rightarrow> l2_out" where
  "FlexNet_L2Transit ev port m our nd st =
     (if l2_not_ours ev port m our nd then leave_alone our m nd st
      else case flex_l2_addr_last m of
        None \<Rightarrow> leave_alone our m nd st
      | Some l \<Rightarrow>
          if int l + 8 > m_len m then leave_alone our m nd st
          else
            let kind = flex_l2_ctl_kind (m_buf m ! (l + 7)) in
            case (if our \<ge> 21 then flex_l2_contract ev port m our kind st else None) of
              Some (our1, m1, st1) \<Rightarrow> send_from ev port our1 m1 nd st1
            | None \<Rightarrow>
                if \<not> end_bit m our then send_from ev port our m nd st
                else l2_outbound ev port m our kind nd st)"

end
