(* ===== verification/Flex_Dest_Props.thy ===== *)
theory Flex_Dest_Props
  imports Flex_Dest
begin

text \<open>
  Correctness of the destination table: what advertisement leaves untouched (the frame lemmas), the
  invariant of the three tables, the choice of the next hop, lookups, adoption and the link time
  filter.
\<close>

section \<open>What advertising leaves untouched\<close>

definition sess_core :: "session \<Rightarrow> session" where
  "sess_core s = s\<lparr>pcf_quiesced := False, quiesced_since := 0\<rparr>"

text \<open>The slot bookkeeping beside the session table.\<close>

definition slot_aux :: "node \<Rightarrow> nat \<times> int list \<times> int list \<times> bool list" where
  "slot_aux nd = (session_count nd, ka_echo_at nd, reap_bad_since nd, nbr_entered nd)"

text \<open>No neighbour's table of advertised routes outgrows its array.\<close>

definition adv_fits :: "adv_state \<Rightarrow> bool" where
  "adv_fits st \<longleftrightarrow> length (advs st) \<le> FLEXNET_MAX_ADVERTISED_PER_PEER"

definition adverts_ok :: "node \<Rightarrow> bool" where
  "adverts_ok nd \<longleftrightarrow> (\<forall>st \<in> set (advertised nd). adv_fits st)"

definition adv_frame :: "node \<Rightarrow> node \<Rightarrow> bool" where
  "adv_frame nd nd' \<longleftrightarrow> flex_config.truncate nd' = flex_config.truncate nd \<and> learned nd' = learned nd \<and>
     dests nd' = dests nd \<and> links nd' = links nd \<and> link_opts nd' = link_opts nd \<and>
     map sess_core (sessions nd') = map sess_core (sessions nd) \<and>
     length (advertised nd') = length (advertised nd) \<and> adverts_ok nd' = adverts_ok nd \<and> slot_aux nd' = slot_aux nd"

lemma adv_frame_refl [simp]: "adv_frame nd nd"
  by (simp add: adv_frame_def)

lemma adv_frame_trans [trans]: "adv_frame a b \<Longrightarrow> adv_frame b c \<Longrightarrow> adv_frame a c"
  by (simp add: adv_frame_def)

lemma adverts_ok_update:
  assumes "adv_fits st = adv_fits (advertised nd ! p)"
  shows "adverts_ok (nd\<lparr>advertised := (advertised nd)[p := st]\<rparr>) = adverts_ok nd"
proof -
  have "map adv_fits ((advertised nd)[p := st]) = map adv_fits (advertised nd)"
    using assms by (cases "p < length (advertised nd)") (simp_all add: map_update list_update_same_conv list_update_beyond)
  from arg_cong [OF this, of "list_all id"] show ?thesis by (auto simp: adverts_ok_def list_all_iff)
qed

lemma adv_frame_set_advs:
  "adv_fits st = adv_fits (advertised nd ! p) \<Longrightarrow> adv_frame nd (set_advs p st nd)"
  by (simp add: adv_frame_def set_advs_def adverts_ok_update slot_aux_def flex_config.truncate_def)

text \<open>An entry is created only where there is room for it.\<close>

lemma adv_find_fits: "flex_adv_find st dest lo hi c = (r, st1) \<Longrightarrow> adv_fits st1 = adv_fits st"
  by (auto simp: flex_adv_find_def adv_fits_def split: option.splits if_splits)

lemma adv_frame_check: "adv_frame nd (flex_advertise_check ev p dest lo hi force nd)"
proof -
  have "adv_fits (st\<lparr>advs := (advs st)[i := a]\<rparr>) = adv_fits st" for st i a by (simp add: adv_fits_def)
  then show ?thesis
    by (auto simp: flex_advertise_check_def Let_def adv_find_fits intro!: adv_frame_set_advs
      split: gate.split option.split prod.split)
qed

lemma adv_frame_send: "adv_frame nd (flex_send_frame ev l pid fr nd)"
  by (simp add: adv_frame_def flex_send_frame_def Let_def slot_aux_def adverts_ok_def flex_config.truncate_def)

lemma adv_frame_sends: "adv_frame nd (flex_send_frames ev l frs nd)"
  by (induction frs arbitrary: nd) (auto intro: adv_frame_trans [OF adv_frame_send])

lemma adv_frame_quiesce:
  "adv_frame nd (upd_sess p (\<lambda>s. s\<lparr>pcf_quiesced := a, quiesced_since := b\<rparr>) nd)"
proof -
  have "map sess_core ((sessions nd)[p := (sessions nd ! p)\<lparr>pcf_quiesced := a, quiesced_since := b\<rparr>]) =
      map sess_core (sessions nd)"
    by (cases "p < length (sessions nd)")
      (auto simp: map_update sess_core_def list_update_same_conv list_update_beyond)
  then show ?thesis by (simp add: adv_frame_def upd_sess_def slot_aux_def adverts_ok_def flex_config.truncate_def)
qed

lemma pack_frame_length: "length (fst (snd (pack_frame k now fr as n))) = length as"
  by (induction k now fr as n rule: pack_frame.induct) (auto simp: Let_def split: option.split)

lemma drain_frames_length: "length (fst (snd (drain_frames k now tok as))) = length as"
proof (induction k now tok as rule: drain_frames.induct)
  case (1 k now tok as)
  obtain fr as1 n where p: "pack_frame k now ''3'' as 0 = (fr, as1, n)" by (rule prod_cases3)
  then have "length as1 = length as" using pack_frame_length [of k now "''3''" as 0] by simp
  then show ?case using 1 [OF _ p [symmetric] refl]
    by (subst drain_frames.simps) (auto simp: p split: prod.split)
qed

lemma drain_core_fits:
  assumes "drain_core pcf q now st = (frs, eob, st1)"
  shows "adv_fits st1 = adv_fits st"
proof -
  have r: "advs (bucket_refill pcf now st) = advs st" by (simp add: bucket_refill_def)
  have e: "advs (snd (eob_step pcf now n st2)) = advs st2" for n st2 by (simp add: eob_step_def)
  have d: "length as1 = length (advs st)" if "drain_frames k now tok (advs st) = (tok1, as1, fs)" for k tok tok1 as1 fs
    using drain_frames_length [of k now tok "advs st"] that by simp
  have f: "advs st1 = advs x" if "eob_step pcf now n x = (b, st1)" for n x b using e [of n x] that by simp
  show ?thesis using assms
    by (auto simp: drain_core_def Let_def r adv_fits_def dest!: f d split: if_splits prod.splits)
qed

lemma adv_frame_drain: "adv_frame nd (flex_advertise_drain ev p nd)"
proof -
  have s: "adv_frame nd (flex_send_frames ev l frs (set_advs p st nd))"
    if "drain_core pcf q now (advertised nd ! p) = (frs, eob, st)" for l frs st pcf q now eob
    by (rule adv_frame_trans [OF adv_frame_set_advs [OF drain_core_fits [OF that]] adv_frame_sends])
  note t = adv_frame_trans [OF s adv_frame_send]
  note u = adv_frame_trans [OF t adv_frame_quiesce]
  show ?thesis
    by (auto simp: flex_advertise_drain_def Let_def intro: s t u split: option.split prod.split)
qed

lemma adv_frame_fold:
  "(\<And>x nd. adv_frame nd (f x nd)) \<Longrightarrow> adv_frame nd (fold f xs nd)"
  by (induction xs arbitrary: nd) (auto intro: adv_frame_trans)

lemma adv_frame_others: "adv_frame nd (check_and_drain_others ev si r nd)"
  unfolding check_and_drain_others_def
  by (rule adv_frame_fold) (auto intro: adv_frame_trans [OF adv_frame_check adv_frame_drain])

lemma sess_core_eq:
  assumes "map sess_core ss' = map sess_core ss"
  shows "length ss' = length ss" "i < length ss \<Longrightarrow> sess_core (ss' ! i) = sess_core (ss ! i)"
proof -
  show l: "length ss' = length ss" using map_eq_imp_length_eq [OF assms] .
  show "i < length ss \<Longrightarrow> sess_core (ss' ! i) = sess_core (ss ! i)" using assms l by (metis nth_map)
qed

lemma sess_core_fields:
  assumes "sess_core s' = sess_core s"
  shows "s_active s' = s_active s" "our_link_time s' = our_link_time s" "s_port s' = s_port s"
    "s_LINK s' = s_LINK s"
  using arg_cong [OF assms, of s_active] arg_cong [OF assms, of our_link_time]
    arg_cong [OF assms, of s_port] arg_cong [OF assms, of s_LINK]
  by (simp_all add: sess_core_def)

lemma adv_frame_sess:
  assumes "adv_frame nd nd'" "length (sessions nd) = FLEXNET_MAX_SESSIONS" "i < FLEXNET_MAX_SESSIONS"
  shows "s_active (sessions nd' ! i) = s_active (sessions nd ! i)"
    "our_link_time (sessions nd' ! i) = our_link_time (sessions nd ! i)"
    "s_port (sessions nd' ! i) = s_port (sessions nd ! i)" "s_LINK (sessions nd' ! i) = s_LINK (sessions nd ! i)"
proof -
  have "map sess_core (sessions nd') = map sess_core (sessions nd)" using assms(1) by (simp add: adv_frame_def)
  then have "sess_core (sessions nd' ! i) = sess_core (sessions nd ! i)"
    using sess_core_eq(2) assms(2,3) by metis
  from sess_core_fields [OF this] show "s_active (sessions nd' ! i) = s_active (sessions nd ! i)"
    "our_link_time (sessions nd' ! i) = our_link_time (sessions nd ! i)"
    "s_port (sessions nd' ! i) = s_port (sessions nd ! i)" "s_LINK (sessions nd' ! i) = s_LINK (sessions nd ! i)"
    by auto
qed

lemma adv_frame_cost_here:
  assumes "adv_frame nd nd'" "length (sessions nd) = FLEXNET_MAX_SESSIONS"
  shows "flex_dest_cost_here nd' rtt si = flex_dest_cost_here nd rtt si"
proof (cases "si < 0 \<or> si \<ge> int FLEXNET_MAX_SESSIONS")
  case True
  then show ?thesis by (auto simp: flex_dest_cost_here_def)
next
  case False
  then have "nat si < FLEXNET_MAX_SESSIONS" by auto
  from adv_frame_sess [OF assms this] show ?thesis by (simp add: flex_dest_cost_here_def)
qed

section \<open>Recording a route changes one session's table\<close>

text \<open>What \<open>flex_learned_add\<close> leaves untouched: everything of the frame but the learned table.\<close>

definition learn_frame :: "node \<Rightarrow> node \<Rightarrow> bool" where
  "learn_frame nd nd' \<longleftrightarrow> flex_config.truncate nd' = flex_config.truncate nd \<and> dests nd' = dests nd \<and>
     links nd' = links nd \<and> link_opts nd' = link_opts nd \<and>
     map sess_core (sessions nd') = map sess_core (sessions nd) \<and>
     length (advertised nd') = length (advertised nd) \<and> adverts_ok nd' = adverts_ok nd \<and> length (learned nd') = length (learned nd) \<and>
     slot_aux nd' = slot_aux nd"

lemma adv_learn_frame: "adv_frame nd nd' \<Longrightarrow> learn_frame nd nd'"
  by (simp add: adv_frame_def learn_frame_def)

lemma learn_frame_trans [trans]: "learn_frame a b \<Longrightarrow> learn_frame b c \<Longrightarrow> learn_frame a c"
  by (simp add: learn_frame_def)

lemma learn_frame_refl [simp]: "learn_frame nd nd"
  by (simp add: learn_frame_def)

lemma learn_frame_upd [simp]: "learn_frame nd (upd_learned si f nd)"
  by (simp add: learn_frame_def upd_learned_def slot_aux_def adverts_ok_def flex_config.truncate_def)

lemma learn_frame_add: "learn_frame nd (flex_learned_add ev si inc nd)"
proof -
  have o: "learn_frame nd (check_and_drain_others ev s r (upd_learned t f nd))" for nd s r t f
    by (rule learn_frame_trans [OF learn_frame_upd adv_learn_frame [OF adv_frame_others]])
  have u: "learn_frame nd (upd_learned t' g (check_and_drain_others ev s r (upd_learned t f nd)))" for nd s r t f t' g
    by (rule learn_frame_trans [OF o learn_frame_upd])
  let ?s = "nat si" and ?k = "rkey (d_callsign inc) (d_ssid_lo inc) (d_ssid_hi inc)"
  show ?thesis
  proof (cases "si < 0 \<or> si \<ge> int FLEXNET_MAX_SESSIONS \<or> d_callsign inc = ''''")
    case True
    then show ?thesis by (simp add: flex_learned_add_def)
  next
    case False
    show ?thesis
    proof (cases "learned_idx ?k (routes (learned nd ! ?s))")
      case None
      show ?thesis unfolding flex_learned_add_def Let_def None option.case if_not_P [OF False]
        by (cases "length (routes (learned nd ! ?s)) \<ge> FLEXNET_MAX_LEARNED_PER_NEIGHBOUR") (simp_all add: o)
    next
      case (Some i)
      show ?thesis unfolding flex_learned_add_def Let_def Some option.case if_not_P [OF False]
        by (cases "l_rtt (routes (learned nd ! ?s) ! i) = d_rtt inc") (simp_all add: u)
    qed
  qed
qed

lemma learn_frame_cost_here:
  assumes "learn_frame nd nd'" "length (sessions nd) = FLEXNET_MAX_SESSIONS"
  shows "flex_dest_cost_here nd' rtt si = flex_dest_cost_here nd rtt si"
proof (cases "si < 0 \<or> si \<ge> int FLEXNET_MAX_SESSIONS")
  case True
  then show ?thesis by (auto simp: flex_dest_cost_here_def)
next
  case False
  then have "nat si < length (sessions nd)" using assms(2) by auto
  moreover have "map sess_core (sessions nd') = map sess_core (sessions nd)"
    using assms(1) by (simp add: learn_frame_def)
  ultimately have "sess_core (sessions nd' ! nat si) = sess_core (sessions nd ! nat si)"
    using sess_core_eq(2) by blast
  from sess_core_fields [OF this] show ?thesis by (simp add: flex_dest_cost_here_def)
qed

section \<open>The learned tables stay keyed and bounded\<close>

lemma learned_ok_upd:
  assumes "learned_ok nd" "keys_ok learned_key FLEXNET_MAX_LEARNED_PER_NEIGHBOUR (routes (f (learned nd ! si)))"
  shows "learned_ok (upd_learned si f nd)"
  using assms set_update_subset_insert [of "learned nd" si "f (learned nd ! si)"]
  by (auto simp: learned_ok_def upd_learned_def)

lemma learned_ok_slot:
  "learned_ok nd \<Longrightarrow> si < FLEXNET_MAX_SESSIONS \<Longrightarrow>
    keys_ok learned_key FLEXNET_MAX_LEARNED_PER_NEIGHBOUR (routes (learned nd ! si))"
  by (simp add: learned_ok_def)

lemma keys_ok_set_route:
  assumes "keys_ok learned_key FLEXNET_MAX_LEARNED_PER_NEIGHBOUR (routes st)"
    and "learned_key (f (routes st ! i)) = learned_key (routes st ! i)"
  shows "keys_ok learned_key FLEXNET_MAX_LEARNED_PER_NEIGHBOUR (routes (set_route i f st))"
  using lrn.update_ok [OF assms] by (simp add: set_route_def)

lemma learned_ok_frame: "adv_frame nd nd' \<Longrightarrow> learned_ok nd' = learned_ok nd"
  by (simp add: adv_frame_def learned_ok_def)

lemma learned_ok_route:
  assumes "learned_ok nd" "si < FLEXNET_MAX_SESSIONS"
    and "\<And>r. learned_key (f r) = learned_key r"
  shows "learned_ok (upd_learned si (set_route i f) nd)"
  by (rule learned_ok_upd [OF assms(1)], rule keys_ok_set_route [OF learned_ok_slot [OF assms(1,2)]]) (rule assms(3))

lemma learned_ok_route':
  assumes "learned_ok nd" "si < FLEXNET_MAX_SESSIONS"
    and "\<And>r. learned_key (f r) = learned_key r"
  shows "learned_ok (upd_learned si (\<lambda>st. (set_route i f st)\<lparr>l_dirty := True\<rparr>) nd)"
  by (rule learned_ok_upd [OF assms(1)])
    (use keys_ok_set_route [OF learned_ok_slot [OF assms(1,2)], of f i] assms(3) in simp)

lemma learned_add_ok:
  assumes "learned_ok nd" "length (d_callsign inc) \<le> 9"
  shows "learned_ok (flex_learned_add ev si inc nd)"
proof -
  let ?s = "nat si" and ?k = "rkey (d_callsign inc) (d_ssid_lo inc) (d_ssid_hi inc)"
  show ?thesis
  proof (cases "si < 0 \<or> si \<ge> int FLEXNET_MAX_SESSIONS \<or> d_callsign inc = ''''")
    case True
    then show ?thesis using assms(1) by (simp add: flex_learned_add_def)
  next
    case False
    then have s: "?s < FLEXNET_MAX_SESSIONS" by auto
    show ?thesis
    proof (cases "learned_idx ?k (routes (learned nd ! ?s))")
      case (Some i)
      have rtt: "learned_key (r\<lparr>l_rtt := v\<rparr>) = learned_key r" and heard: "learned_key (r\<lparr>l_last_heard := w\<rparr>) = learned_key r"
        for r v w by (simp_all add: learned_key_def)
      let ?nda = "upd_learned ?s (\<lambda>st. (set_route i (\<lambda>r. r\<lparr>l_rtt := d_rtt inc\<rparr>) st)\<lparr>l_dirty := True\<rparr>) nd"
      have a: "learned_ok ?nda" by (rule learned_ok_route' [OF assms(1) s rtt])
      have b: "learned_ok (check_and_drain_others ev ?s r ?nda)" for r
        using learned_ok_frame [OF adv_frame_others] a by blast
      show ?thesis unfolding flex_learned_add_def Let_def Some option.case if_not_P [OF False]
        by (cases "l_rtt (routes (learned nd ! ?s) ! i) = d_rtt inc")
          (simp_all add: learned_ok_route [OF assms(1) s heard] learned_ok_route [OF b s heard])
    next
      case None
      let ?r = "\<lparr>l_call = take 9 (d_callsign inc), l_lo = d_ssid_lo inc, l_hi = d_ssid_hi inc,
                 l_rtt = d_rtt inc, l_last_heard = e_now ev, l_direct = False\<rparr>"
      have k: "learned_key ?r = ?k" using assms(2) by (simp add: learned_key_def rkey_def)
      show ?thesis
      proof (cases "length (routes (learned nd ! ?s)) \<ge> FLEXNET_MAX_LEARNED_PER_NEIGHBOUR")
        case True
        then show ?thesis using False None assms(1) by (simp add: flex_learned_add_def Let_def)
      next
        case room: False
        have "keys_ok learned_key FLEXNET_MAX_LEARNED_PER_NEIGHBOUR (routes (learned nd ! ?s) @ [?r])"
          using lrn.append_ok [OF learned_ok_slot [OF assms(1) s], of ?r] None room k by simp
        then have "learned_ok (upd_learned ?s (\<lambda>st. st\<lparr>routes := routes st @ [?r], l_dirty := True\<rparr>) nd)"
          by (intro learned_ok_upd [OF assms(1)]) simp
        then have "learned_ok (check_and_drain_others ev ?s ?r
            (upd_learned ?s (\<lambda>st. st\<lparr>routes := routes st @ [?r], l_dirty := True\<rparr>) nd))"
          using learned_ok_frame [OF adv_frame_others] by blast
        then show ?thesis using room
          unfolding flex_learned_add_def Let_def None option.case if_not_P [OF False] by simp
      qed
    qed
  qed
qed

lemma dests_reelect: "dests (flex_dest_reelect ev i nd) = (dests nd)[i := dests (flex_dest_reelect ev i nd) ! i]"
  by (cases "i < length (dests nd)") (simp_all add: flex_dest_reelect_def Let_def list_update_beyond)

lemma reelect_frame:
  "learned (flex_dest_reelect ev i nd) = learned nd" "sessions (flex_dest_reelect ev i nd) = sessions nd"
  "link_opts (flex_dest_reelect ev i nd) = link_opts nd"
  "transit_enabled (flex_dest_reelect ev i nd) = transit_enabled nd"
  "adverts_ok (flex_dest_reelect ev i nd) = adverts_ok nd"
  by (simp_all add: flex_dest_reelect_def Let_def adverts_ok_def)

lemma reelect_key:
  assumes "i < length (dests nd)"
  shows "dest_key (dests (flex_dest_reelect ev i nd) ! i) = dest_key (dests nd ! i)"
  using assms by (simp add: flex_dest_reelect_def Let_def dest_key_def split: option.split)

text \<open>The tables a received record touches: destinations, learned routes, and what the other neighbours are told.\<close>

definition tables_ok :: "node \<Rightarrow> bool" where
  "tables_ok nd \<longleftrightarrow> learned_ok nd \<and> adverts_ok nd \<and> keys_ok dest_key FLEXNET_MAX_DESTS (dests nd)"

lemma learn_frame_dests: "learn_frame nd nd' \<Longrightarrow> dests nd' = dests nd"
  by (simp add: learn_frame_def)

lemma reelect_tables_ok:
  assumes "tables_ok nd" "i < length (dests nd)"
  shows "tables_ok (flex_dest_reelect ev i nd)"
proof -
  have "keys_ok dest_key FLEXNET_MAX_DESTS ((dests nd)[i := dests (flex_dest_reelect ev i nd) ! i])"
    by (rule dst.update_ok) (use assms reelect_key in \<open>simp_all add: tables_ok_def\<close>)
  then show ?thesis using assms(1) dests_reelect [of ev i nd]
    by (simp add: tables_ok_def learned_ok_def reelect_frame)
qed

lemma row_update_key: "dest_key (row_update ev si port via eff b d) = dest_key d"
  by (simp add: row_update_def Let_def dest_key_def)

lemma learned_ok_dests [simp]: "learned_ok (nd\<lparr>dests := ds\<rparr>) = learned_ok nd"
  "learned_ok (nd\<lparr>rtt0_skips := n\<rparr>) = learned_ok nd" "learned_ok (nd\<lparr>local_echo_skips := n\<rparr>) = learned_ok nd"
  "adverts_ok (nd\<lparr>dests := ds\<rparr>) = adverts_ok nd" "adverts_ok (nd\<lparr>rtt0_skips := n\<rparr>) = adverts_ok nd"
  "adverts_ok (nd\<lparr>local_echo_skips := n\<rparr>) = adverts_ok nd"
  by (simp_all add: learned_ok_def adverts_ok_def)

lemma learn_frame_adverts: "learn_frame nd nd' \<Longrightarrow> adverts_ok nd' = adverts_ok nd"
  by (simp add: learn_frame_def)

lemma merge_tables_ok:
  assumes ok: "tables_ok nd" and len: "length (d_callsign inc) \<le> 9"
  shows "tables_ok (snd (flex_dtable_merge ev inc sess nd))"
proof -
  let ?found = "flex_find_dest nd (d_callsign inc) (d_ssid_lo inc) (d_ssid_hi inc)"
  have dk: "keys_ok dest_key FLEXNET_MAX_DESTS (dests nd)" and lk: "learned_ok nd" "adverts_ok nd" using ok by (auto simp: tables_ok_def)
  have add: "tables_ok (flex_learned_add ev si inc nd')" if "tables_ok nd'" for nd' si
    using that learned_add_ok [of nd' inc ev si] len learn_frame_dests [OF learn_frame_add, of ev si inc nd']
      learn_frame_adverts [OF learn_frame_add, of ev si inc nd']
    by (simp add: tables_ok_def)
  have upd: "tables_ok (nd\<lparr>dests := (dests nd)[i := d]\<rparr>)" if "dest_key d = dest_key (dests nd ! i)" for i d
    using dst.update_ok [OF dk that] lk by (simp add: tables_ok_def)
  have skip: "tables_ok (nd'\<lparr>rtt0_skips := n\<rparr>) = tables_ok nd'" "tables_ok (nd'\<lparr>local_echo_skips := n\<rparr>) = tables_ok nd'" for nd' n
    by (simp_all add: tables_ok_def)
  have hk: "dest_key (d\<lparr>d_last_updated := v\<rparr>) = dest_key d" for d v by (simp add: dest_key_def)
  show ?thesis
  proof (cases ?found)
    case (Some i)
    then have i: "i < length (dests nd)" using dst.find_key by (simp add: find_dest_idx)
    have re: "tables_ok (flex_dest_reelect ev i (flex_learned_add ev si inc nd'))"
      if "tables_ok nd'" "length (dests nd') = length (dests nd)" for nd' si
      by (rule reelect_tables_ok [OF add [OF that(1)]])
        (use that(2) i learn_frame_dests [OF learn_frame_add, of ev si inc nd'] in simp)
    show ?thesis using ok
      by (simp add: flex_dtable_merge_def Let_def Some skip upd hk row_update_key add re)
  next
    case None
    let ?si = "case sess of None \<Rightarrow> -1 | Some si \<Rightarrow> int si"
    have new: "tables_ok (nd\<lparr>dests := dests nd @ [d]\<rparr>)"
      if "dest_key d = dkey (d_callsign inc) (d_ssid_lo inc) (d_ssid_hi inc)" "length (dests nd) < FLEXNET_MAX_DESTS" for d
      using dst.append_ok [OF dk, of d] that None lk by (simp add: tables_ok_def find_dest_idx)
    have k: "dest_key (inc\<lparr>d_rtt := a, d_port := b, d_via_session_idx := c, d_last_updated := e\<rparr>) =
        dkey (d_callsign inc) (d_ssid_lo inc) (d_ssid_hi inc)"
      "dest_key (inc\<lparr>d_rtt := a, d_port := b, d_via_session_idx := c, d_last_updated := e, d_via_callsign := v\<rparr>) =
        dkey (d_callsign inc) (d_ssid_lo inc) (d_ssid_hi inc)" for a b c e v
      by (simp_all add: dest_key_def dkey_def)
    show ?thesis using ok
      by (simp add: flex_dtable_merge_def Let_def None skip add new k)
  qed
qed

lemma parsed_calls_short:
  "e \<in> set (flex_parse_compact_records schar data n) \<Longrightarrow> length (d_callsign e) \<le> 9"
  using parsed_entries_sane [of schar data n] unfolding list_all_iff entry_sane_def by fastforce

lemma merge_entries_ok:
  "tables_ok nd \<Longrightarrow> \<forall>e \<in> set es. length (d_callsign e) \<le> 9 \<Longrightarrow> tables_ok (merge_entries ev si es nd)"
  unfolding merge_entries_def by (induction es arbitrary: nd) (simp_all add: merge_tables_ok)

lemma rx_compact_ok: "tables_ok nd \<Longrightarrow> tables_ok (rx_compact schar ev si data nd)"
  unfolding rx_compact_def by (rule merge_entries_ok) (auto dest: parsed_calls_short)

interpretation rx: inv_machine "\<lambda>nd (ev, si, data). rx_compact schar ev si data nd" tables_ok for schar
  by unfold_locales (auto simp: rx_compact_ok)

text \<open>C5: no sequence of received record frames, whatever their bytes, breaks the tables: no destination
  is listed twice, no neighbour's learned table holds a key twice, and neither the destinations nor what
  a neighbour taught us nor what one has been told outgrows its array (2000, 256 and 256 entries).\<close>

theorem received_frames_keep_tables:
  assumes "tables_ok nd"
  shows "tables_ok (foldl (\<lambda>nd (ev, si, data). rx_compact schar ev si data nd) nd frames)"
  by (rule rx.run_inv [OF assms])

lemma demo_tables_ok: "tables_ok demo_node"
proof -
  have "adverts_ok demo_node" by (simp add: adverts_ok_def adv_fits_def adv_state0_def demo_node_def node0_def flex_config.defs)
  then show ?thesis using demo_learned_ok by (simp add: tables_ok_def demo_node_def node0_def flex_config.defs)
qed

theorem received_frames_keep_tables_witness:
  "tables_ok (foldl (\<lambda>nd (ev, si, data). rx_compact True ev si data nd) demo_node
     [(demo_env, 0, ''3DB0FAA0?12 ''), (demo_env, 1, ''3DB0FAA0?-'')])"
  by (rule received_frames_keep_tables [OF demo_tables_ok])

section \<open>The next hop\<close>

text \<open>Specification: session \<open>s\<close> offers its route \<open>r\<close> for the row \<open>d\<close> at the given cost from here.\<close>

definition row_offer :: "node \<Rightarrow> dest_entry \<Rightarrow> nat \<Rightarrow> learned_route \<Rightarrow> int \<Rightarrow> bool" where
  "row_offer nd d s r c \<longleftrightarrow> s < FLEXNET_MAX_SESSIONS \<and> s_active (sessions nd ! s) \<and>
     r \<in> set (routes (learned nd ! s)) \<and> learned_key r = rkey (d_callsign d) (d_ssid_lo d) (d_ssid_hi d) \<and>
     0 < l_rtt r \<and> l_rtt r < FLEXNET_RTT_INFINITY \<and>
     c = flex_dest_cost_here nd (flex_link_opts_cost (flex_sess_link_opts nd (int s)) (l_rtt r)) (int s)"

lemma cost_here_finite: "rtt < FLEXNET_RTT_INFINITY \<Longrightarrow> flex_dest_cost_here nd rtt s < FLEXNET_RTT_INFINITY"
  by (simp add: flex_dest_cost_here_def Let_def)

lemma reelect_offer_iff:
  assumes "learned_ok nd" "s < FLEXNET_MAX_SESSIONS"
  shows "reelect_offer nd d s = Some (eff, c) \<longleftrightarrow>
    (\<exists>r. row_offer nd d s r c \<and> eff = flex_link_opts_cost (flex_sess_link_opts nd (int s)) (l_rtt r))"
proof
  assume L: "reelect_offer nd d s = Some (eff, c)"
  then obtain ri where ri: "learned_idx (rkey (d_callsign d) (d_ssid_lo d) (d_ssid_hi d)) (routes (learned nd ! s)) = Some ri"
    by (auto simp: reelect_offer_def split: if_splits option.splits)
  show "\<exists>r. row_offer nd d s r c \<and> eff = flex_link_opts_cost (flex_sess_link_opts nd (int s)) (l_rtt r)"
    using L ri lrn.find_key [OF ri] assms(2)
    by (intro exI [of _ "routes (learned nd ! s) ! ri"])
      (auto simp: reelect_offer_def row_offer_def Let_def split: if_splits)
next
  assume "\<exists>r. row_offer nd d s r c \<and> eff = flex_link_opts_cost (flex_sess_link_opts nd (int s)) (l_rtt r)"
  then obtain r where r: "row_offer nd d s r c" "eff = flex_link_opts_cost (flex_sess_link_opts nd (int s)) (l_rtt r)"
    by blast
  obtain i where "learned_idx (learned_key r) (routes (learned nd ! s)) = Some i" "routes (learned nd ! s) ! i = r"
    using learned_idx_mem [OF assms, of r] r(1) by (auto simp: row_offer_def)
  then show "reelect_offer nd d s = Some (eff, c)" using r
    by (auto simp: reelect_offer_def row_offer_def Let_def)
qed

text \<open>The state of the election after the first \<open>n\<close> slots.\<close>

definition elected :: "node \<Rightarrow> dest_entry \<Rightarrow> nat \<Rightarrow> election \<Rightarrow> bool" where
  "elected nd d n el = (case el_si el of
      None \<Rightarrow> el = election0 \<and> (\<forall>s < n. reelect_offer nd d s = None)
    | Some s \<Rightarrow> s < n \<and> reelect_offer nd d s = Some (el_eff el, el_here el) \<and>
        (\<forall>t < n. \<forall>eff c. reelect_offer nd d t = Some (eff, c) \<longrightarrow>
           el_here el < c \<or> el_here el = c \<and> (int t = d_via_session_idx d \<longrightarrow> s = t)))"

lemma elected_step:
  assumes el: "elected nd d n el"
    and fin: "\<And>eff c. reelect_offer nd d n = Some (eff, c) \<Longrightarrow> c < FLEXNET_RTT_INFINITY"
  shows "elected nd d (Suc n) (elect_step nd d n el)"
proof (cases "reelect_offer nd d n")
  case None
  then have "elect_step nd d n el = el" by (simp add: elect_step_def)
  with el None show ?thesis by (cases "el_si el") (simp_all add: elected_def less_Suc_eq)
next
  case (Some o')
  obtain eff c where o: "reelect_offer nd d n = Some (eff, c)" using Some by (cases o') simp
  show ?thesis
  proof (cases "c < el_here el \<or> (c = el_here el \<and> int n = d_via_session_idx d)")
    case True
    then have e: "elect_step nd d n el = \<lparr>el_si = Some n, el_eff = eff, el_here = c\<rparr>"
      by (simp add: elect_step_def o)
    have "\<forall>t < n. \<forall>eff' c'. reelect_offer nd d t = Some (eff', c') \<longrightarrow> c < c' \<or> c = c' \<and> int t \<noteq> d_via_session_idx d"
    proof (cases "el_si el")
      case None
      with el show ?thesis by (simp add: elected_def)
    next
      case (Some s)
      then have "\<forall>t < n. \<forall>eff' c'. reelect_offer nd d t = Some (eff', c') \<longrightarrow> el_here el < c' \<or> el_here el = c'"
        using el by (auto simp: elected_def)
      with True show ?thesis by (metis less_trans nat_less_le of_nat_eq_iff)
    qed
    then show ?thesis unfolding e by (auto simp: elected_def less_Suc_eq o)
  next
    case False
    then have e: "elect_step nd d n el = el" by (auto simp: elect_step_def o)
    have "el_si el \<noteq> None"
    proof
      assume "el_si el = None"
      with el have "el = election0" by (simp add: elected_def)
      with False fin [OF o] show False by (simp add: election0_def)
    qed
    then obtain s where s: "el_si el = Some s" by blast
    with el have "s < n" "reelect_offer nd d s = Some (el_eff el, el_here el)"
      "\<forall>t < n. \<forall>eff c. reelect_offer nd d t = Some (eff, c) \<longrightarrow>
           el_here el < c \<or> el_here el = c \<and> (int t = d_via_session_idx d \<longrightarrow> s = t)"
      by (simp_all add: elected_def)
    with False show ?thesis unfolding e by (auto simp: elected_def less_Suc_eq o s)
  qed
qed

lemma elect_fold:
  assumes "\<And>s eff c. s < n \<Longrightarrow> reelect_offer nd d s = Some (eff, c) \<Longrightarrow> c < FLEXNET_RTT_INFINITY"
  shows "elected nd d n (fold (elect_step nd d) [0..<n] election0)"
  using assms
proof (induction n)
  case 0
  then show ?case by (simp add: elected_def election0_def)
next
  case (Suc n)
  have "elected nd d n (fold (elect_step nd d) [0..<n] election0)"
    using Suc.IH Suc.prems less_SucI by blast
  then show ?case using elected_step Suc.prems [OF lessI] by simp
qed

text \<open>C4: choosing again takes the cheapest route there is. After \<open>flex_dest_reelect\<close> a row is reached
  through an active session whose offer costs least from here, the present next hop being kept when
  it is among the cheapest; when no active session offers the destination the row is unreachable and
  points to no session.\<close>

theorem reelect_takes_cheapest:
  assumes "learned_ok nd" "transit_enabled nd" "i < length (dests nd)"
    and "d = dests nd ! i" "d' = dests (flex_dest_reelect ev i nd) ! i"
  shows "if (\<exists>s r c. row_offer nd d s r c)
    then \<exists>s r c. row_offer nd d s r c \<and> d_via_session_idx d' = int s \<and> d_port d' = s_port (sessions nd ! s) \<and>
      d_rtt d' = flex_link_opts_cost (flex_sess_link_opts nd (int s)) (l_rtt r) \<and> \<not> d_is_infinity d' \<and>
      (\<forall>t r' c'. row_offer nd d t r' c' \<longrightarrow> c < c' \<or> c = c' \<and> (int t = d_via_session_idx d \<longrightarrow> s = t))
    else d_rtt d' = FLEXNET_RTT_INFINITY \<and> d_is_infinity d' \<and> d_via_session_idx d' = -1"
proof -
  have off: "reelect_offer nd d s = Some (eff, c) \<longleftrightarrow>
    (\<exists>r. row_offer nd d s r c \<and> eff = flex_link_opts_cost (flex_sess_link_opts nd (int s)) (l_rtt r))"
    if "s < FLEXNET_MAX_SESSIONS" for s eff c
    by (rule reelect_offer_iff [OF assms(1) that])
  have s8: "s < FLEXNET_MAX_SESSIONS" if "row_offer nd d s r c" for s r c
    using that by (simp add: row_offer_def)
  have fin: "c < FLEXNET_RTT_INFINITY" if "s < FLEXNET_MAX_SESSIONS" "reelect_offer nd d s = Some (eff, c)" for s eff c
    using off [OF that(1), of eff c] that(2) cost_here_finite link_opts_cost_finite
    by (auto simp: row_offer_def)
  have el: "elect nd d = fold (elect_step nd d) [0..<FLEXNET_MAX_SESSIONS] election0"
    by (simp add: elect_def assms(2))
  have best: "elected nd d FLEXNET_MAX_SESSIONS (elect nd d)"
    unfolding el by (rule elect_fold [OF fin])
  show ?thesis
  proof (cases "el_si (elect nd d)")
    case None
    then have "\<forall>s < FLEXNET_MAX_SESSIONS. reelect_offer nd d s = None" using best by (simp add: elected_def)
    then have "\<not> row_offer nd d s r c" for s r c using off [of s] s8 [of s r c] by fastforce
    then show ?thesis using None assms(3-5) by (simp add: flex_dest_reelect_def Let_def)
  next
    case (Some s)
    then have s: "s < FLEXNET_MAX_SESSIONS" "reelect_offer nd d s = Some (el_eff (elect nd d), el_here (elect nd d))"
      and min: "\<And>t eff c. t < FLEXNET_MAX_SESSIONS \<Longrightarrow> reelect_offer nd d t = Some (eff, c) \<Longrightarrow>
        el_here (elect nd d) < c \<or> el_here (elect nd d) = c \<and> (int t = d_via_session_idx d \<longrightarrow> s = t)"
      using best by (auto simp: elected_def)
    obtain r where r: "row_offer nd d s r (el_here (elect nd d))"
      "el_eff (elect nd d) = flex_link_opts_cost (flex_sess_link_opts nd (int s)) (l_rtt r)"
      using off [OF s(1)] s(2) by blast
    have d': "d_via_session_idx d' = int s" "d_port d' = s_port (sessions nd ! s)"
      "d_rtt d' = el_eff (elect nd d)" "\<not> d_is_infinity d'"
      using Some assms(3-5) by (simp_all add: flex_dest_reelect_def Let_def)
    have "el_here (elect nd d) < c' \<or> el_here (elect nd d) = c' \<and> (int t = d_via_session_idx d \<longrightarrow> s = t)"
      if "row_offer nd d t r' c'" for t r' c'
      using min [OF s8 [OF that], of "flex_link_opts_cost (flex_sess_link_opts nd (int t)) (l_rtt r')" c']
        off [OF s8 [OF that], of "flex_link_opts_cost (flex_sess_link_opts nd (int t)) (l_rtt r')" c'] that
      by blast
    then show ?thesis using r d' by auto
  qed
qed

definition demo_row :: dest_entry where
  "demo_row = dest_entry0\<lparr>d_callsign := ''DB0FAA'', d_ssid_lo := 0, d_ssid_hi := 15, d_rtt := 500,
     d_port := 3, d_via_session_idx := 1\<rparr>"

definition demo_node_row :: node where
  "demo_node_row = demo_node\<lparr>dests := [demo_row]\<rparr>"

lemma demo_node_row_simps:
  "sessions demo_node_row = [demo_session 0, demo_session 1] @ replicate 6 session0"
  "learned demo_node_row = [learned0\<lparr>routes := [demo_route]\<rparr>] @ replicate 7 learned0"
  "dests demo_node_row = [demo_row]" "link_opts demo_node_row = replicate 8 0"
  "transit_enabled demo_node_row" "links demo_node_row = [demo_link 1, demo_link 2]"
  by (simp_all add: demo_node_row_def demo_node_def node0_def flex_config.defs default_config_def FLEXNET_MAX_SESSIONS_def)

lemma demo_offer: "row_offer demo_node_row demo_row 0 demo_route 12"
  by (simp add: row_offer_def demo_node_row_simps demo_row_def demo_route_def learned_key_def rkey_def
      flex_dest_cost_here_def Let_def demo_session_def session0_def learned0_def dest_entry0_def
      FLEXNET_MAX_SESSIONS_def FLEXNET_RTT_INFINITY_def flex_sess_link_opts_def flex_link_opts_cost_def FLEXNET_LINK_PENALTY_def has_opt_def)

lemma demo_row_tables_ok: "tables_ok demo_node_row"
  using demo_tables_ok
  by (simp add: tables_ok_def demo_node_row_def keys_ok_def FLEXNET_MAX_DESTS_def learned_ok_def adverts_ok_def)

theorem reelect_takes_cheapest_witness:
  "\<exists>s r c. row_offer demo_node_row demo_row s r c \<and>
     d_via_session_idx (dests (flex_dest_reelect demo_env 0 demo_node_row) ! 0) = int s"
proof -
  have "learned_ok demo_node_row" using demo_row_tables_ok by (simp add: tables_ok_def)
  note t = reelect_takes_cheapest [OF this demo_node_row_simps(5), of 0 demo_row _ demo_env]
  have e: "\<exists>s r c. row_offer demo_node_row demo_row s r c" using demo_offer by blast
  show ?thesis using t e by (simp add: demo_node_row_simps) blast
qed

section \<open>Looking a target up\<close>

text \<open>The scan's state after the first \<open>n\<close> rows.\<close>

definition best_so_far :: "node \<Rightarrow> string \<Rightarrow> int \<Rightarrow> nat \<Rightarrow> nat option \<times> int \<Rightarrow> bool" where
  "best_so_far nd base ssid n acc = (case fst acc of
      None \<Rightarrow> snd acc = FLEXNET_RTT_INFINITY \<and> (\<forall>j < n. \<not> row_covers base ssid (dests nd ! j))
    | Some i \<Rightarrow> i < n \<and> row_covers base ssid (dests nd ! i) \<and>
        snd acc = flex_dest_cost_here nd (d_rtt (dests nd ! i)) (d_via_session_idx (dests nd ! i)) \<and>
        (\<forall>j < n. row_covers base ssid (dests nd ! j) \<longrightarrow>
           snd acc \<le> flex_dest_cost_here nd (d_rtt (dests nd ! j)) (d_via_session_idx (dests nd ! j))))"

lemma best_row_step:
  assumes "best_so_far nd base ssid n acc"
  shows "best_so_far nd base ssid (Suc n) (best_row nd base ssid n acc)"
proof -
  let ?d = "dests nd ! n"
  let ?c = "flex_dest_cost_here nd (d_rtt ?d) (d_via_session_idx ?d)"
  have fin: "row_covers base ssid ?d \<Longrightarrow> ?c < FLEXNET_RTT_INFINITY"
    by (simp add: row_covers_def cost_here_finite)
  show ?thesis
  proof (cases "row_covers base ssid ?d \<and> ?c < snd acc")
    case True
    then show ?thesis using assms
      by (cases "fst acc") (fastforce simp: best_so_far_def best_row_def Let_def less_Suc_eq)+
  next
    case False
    then have e: "best_row nd base ssid n acc = acc" by (auto simp: best_row_def Let_def)
    show ?thesis unfolding e using False fin assms
      by (cases "fst acc") (auto simp: best_so_far_def less_Suc_eq)
  qed
qed

lemma best_row_fold: "best_so_far nd base ssid n (fold (best_row nd base ssid) [0..<n] (None, FLEXNET_RTT_INFINITY))"
proof (induction n)
  case 0
  then show ?case by (simp add: best_so_far_def)
next
  case (Suc n)
  then show ?case using best_row_step by simp
qed

text \<open>C13: a lookup answers with a finite row that covers the target and costs least from here among all
  that do, and it answers nothing only when no finite row covers the target.\<close>

theorem find_best_dest_is_cheapest:
  "case flex_find_best_dest nd base ssid of
     None \<Rightarrow> \<forall>d \<in> set (dests nd). \<not> row_covers base ssid d
   | Some i \<Rightarrow> i < length (dests nd) \<and> row_covers base ssid (dests nd ! i) \<and>
       (\<forall>d \<in> set (dests nd). row_covers base ssid d \<longrightarrow>
          flex_dest_cost_here nd (d_rtt (dests nd ! i)) (d_via_session_idx (dests nd ! i)) \<le>
          flex_dest_cost_here nd (d_rtt d) (d_via_session_idx d))"
  using best_row_fold [of nd base ssid "length (dests nd)"]
  by (auto simp: flex_find_best_dest_def best_so_far_def in_set_conv_nth split: option.splits)

theorem find_best_dest_is_cheapest_witness:
  "flex_find_best_dest demo_node_row ''db0faa'' 3 \<noteq> None"
proof
  assume "flex_find_best_dest demo_node_row ''db0faa'' 3 = None"
  moreover have "row_covers ''db0faa'' 3 demo_row" by code_simp
  ultimately show False using find_best_dest_is_cheapest [of demo_node_row "''db0faa''" 3]
    by (simp add: demo_node_row_simps)
qed

section \<open>Merging keeps the cheaper route\<close>

lemma reelect_not_touched: "i \<noteq> j \<Longrightarrow> dests (flex_dest_reelect ev j nd) ! i = dests nd ! i"
  by (simp add: flex_dest_reelect_def Let_def)


definition demo_inc :: "int \<Rightarrow> dest_entry" where
  "demo_inc rtt = dest_entry0\<lparr>d_callsign := ''DB0FAA'', d_ssid_hi := 15, d_rtt := rtt\<rparr>"


section \<open>A returning neighbour\<close>

lemma first_idx_upt: "first_idx P [0..<n] = Some i \<longleftrightarrow> i < n \<and> P i \<and> (\<forall>j < i. \<not> P j)"
proof
  assume f: "first_idx P [0..<n] = Some i"
  then have "i < n" using first_idx_less by fastforce
  then show "i < n \<and> P i \<and> (\<forall>j < i. \<not> P j)" using first_idx_SomeD [OF f] by auto
qed (auto intro!: first_idx_eqI)

text \<open>C17: adoption moves a table, it never copies one. \<open>flex_learned_adopt\<close> succeeds exactly when some
  slot may be adopted; then the new slot holds that slot's routes with the death mark cleared, the old
  slot, if it is another one, is empty afterwards, and no other slot changes; otherwise nothing does.
  A table is never taken from another active session, from another station or after 600 s.\<close>

theorem adoption_moves_the_table:
  assumes "length (learned nd) = FLEXNET_MAX_SESSIONS" "fresh < FLEXNET_MAX_SESSIONS" "call \<noteq> ''''"
    and "flex_learned_adopt ev fresh call nd = (ok, nd')"
  shows "if \<exists>si < FLEXNET_MAX_SESSIONS. adoptable ev fresh call nd si
    then ok \<and> (\<exists>si < FLEXNET_MAX_SESSIONS. adoptable ev fresh call nd si \<and>
        learned nd' ! fresh = (learned nd ! si)\<lparr>died_at := 0\<rparr> \<and>
        (si \<noteq> fresh \<longrightarrow> \<not> s_active (sessions nd ! si) \<and> learned nd' ! si = learned0) \<and>
        case_eq (l_peer_call (learned nd ! si)) call \<and>
        (died_at (learned nd ! si) \<noteq> 0 \<longrightarrow> e_now ev - died_at (learned nd ! si) \<le> 600) \<and>
        (\<forall>t. t \<noteq> si \<and> t \<noteq> fresh \<longrightarrow> learned nd' ! t = learned nd ! t))
    else \<not> ok \<and> nd' = nd"
proof (cases "first_idx (adoptable ev fresh call nd) [0..<FLEXNET_MAX_SESSIONS]")
  case None
  then have "\<forall>si < FLEXNET_MAX_SESSIONS. \<not> adoptable ev fresh call nd si" by (auto simp: first_idx_None_iff)
  then show ?thesis using None assms(3,4) by (auto simp: flex_learned_adopt_def)
next
  case (Some si)
  then have si: "si < FLEXNET_MAX_SESSIONS" "adoptable ev fresh call nd si" by (auto simp: first_idx_upt)
  have nd': "ok" "nd' = (if si = fresh then upd_learned si (\<lambda>st. st\<lparr>died_at := 0\<rparr>) nd
      else upd_learned si (\<lambda>_. learned0) (upd_learned fresh (\<lambda>_. (learned nd ! si)\<lparr>died_at := 0\<rparr>) nd))"
    using Some assms(3,4) by (auto simp: flex_learned_adopt_def split: if_splits)
  have "learned nd' ! fresh = (learned nd ! si)\<lparr>died_at := 0\<rparr>"
    "si \<noteq> fresh \<Longrightarrow> learned nd' ! si = learned0"
    "\<forall>t. t \<noteq> si \<and> t \<noteq> fresh \<longrightarrow> learned nd' ! t = learned nd ! t"
    using si(1) assms(1,2) by (auto simp: nd'(2) upd_learned_def)
  moreover have "si \<noteq> fresh \<Longrightarrow> \<not> s_active (sessions nd ! si)" "case_eq (l_peer_call (learned nd ! si)) call"
    "died_at (learned nd ! si) \<noteq> 0 \<Longrightarrow> e_now ev - died_at (learned nd ! si) \<le> 600"
    using si(2) by (auto simp: adoptable_def Let_def FLEXNET_LEARNED_ADOPT_MAX_AGE_def)
  ultimately show ?thesis using si nd'(1) by (auto intro!: exI [of _ si])
qed

definition demo_gone :: node where
  "demo_gone = demo_node_row\<lparr>sessions := replicate 8 session0,
     learned := [learned0\<lparr>routes := [demo_route], l_peer_call := ''IW2OHX-14'', died_at := 700\<rparr>] @ replicate 7 learned0\<rparr>"

theorem adoption_moves_the_table_witness:
  "fst (flex_learned_adopt demo_env 2 ''iw2ohx-14'' demo_gone)"
proof -
  have "length (learned demo_gone) = FLEXNET_MAX_SESSIONS" "(2::nat) < FLEXNET_MAX_SESSIONS" "''iw2ohx-14'' \<noteq> ''''"
    by (simp_all add: demo_gone_def FLEXNET_MAX_SESSIONS_def)
  note t = adoption_moves_the_table [OF this surjective_pairing, of demo_env]
  have "adoptable demo_env 2 ''iw2ohx-14'' demo_gone 0" "0 < FLEXNET_MAX_SESSIONS" by code_simp+
  then have "\<exists>si < FLEXNET_MAX_SESSIONS. adoptable demo_env 2 ''iw2ohx-14'' demo_gone si" by blast
  with t show ?thesis by (auto split: if_splits)
qed

section \<open>The link time filter\<close>

text \<open>The state of one session's measurement that the handlers may rely on: 60 s at most.\<close>

definition lt_ok :: "session \<Rightarrow> bool" where
  "lt_ok s \<longleftrightarrow> unat (lt_smoothed_10ms s) \<le> 6000 \<and> 0 \<le> our_link_time s \<and> our_link_time s \<le> 600"

lemma lt_fold_smoothed:
  assumes "unat (lt_smoothed_10ms s) \<le> 6000" "1 \<le> unat sample" "unat sample \<le> 6000"
  shows "unat (lt_smoothed_10ms (lt_fold sample s)) =
    (if lt_sample_count s = 0 then unat sample else (unat (lt_smoothed_10ms s) * 3 + unat sample) div 4)"
proof -
  have "unat (lt_smoothed_10ms s * 3) = unat (lt_smoothed_10ms s) * 3"
    using assms(1) by (subst unat_mult_lem [THEN iffD1]) simp_all
  then have "unat (lt_smoothed_10ms s * 3 + sample) = unat (lt_smoothed_10ms s) * 3 + unat sample"
    using assms by (subst unat_add_lem [THEN iffD1]) simp_all
  then show ?thesis by (simp add: lt_fold_def Let_def unat_div)
qed

lemma lt_fold_wire:
  assumes "unat (lt_smoothed_10ms (lt_fold sample s)) \<le> 6000"
  shows "our_link_time (lt_fold sample s) = max 1 ((int (unat (lt_smoothed_10ms (lt_fold sample s))) + 5) div 10)"
proof -
  define sm where "sm = lt_smoothed_10ms (lt_fold sample s)"
  have sm: "unat sm \<le> 6000" using assms by (simp add: sm_def)
  have a: "unat (sm + 5) = unat sm + 5" using sm by (subst unat_add_lem [THEN iffD1]) simp_all
  then have b: "unat ((sm + 5) div 10) = (unat sm + 5) div 10" by (simp add: unat_div)
  have l: "(sm + 5) div 10 < 1 \<longleftrightarrow> (unat sm + 5) div 10 < 1" "\<not> (sm + 5) div 10 > 4095"
    using b sm by (simp_all add: word_less_nat_alt)
  have "our_link_time (lt_fold sample s) = uint (if (sm + 5) div 10 < 1 then 1 else (sm + 5) div 10)"
    using l by (simp add: lt_fold_def Let_def sm_def)
  also have "\<dots> = (if (unat sm + 5) div 10 < 1 then 1 else int ((unat sm + 5) div 10))"
    unfolding uint_nat if_distrib [of unat] b l(1) by simp
  also have "\<dots> = max 1 (int ((unat sm + 5) div 10))" by (simp add: max_def not_less del: of_nat_div)
  finally show ?thesis by (simp add: sm_def zdiv_int)
qed

lemma lt_fold_ok:
  assumes "lt_ok s" "1 \<le> unat sample" "unat sample \<le> 6000"
  shows "lt_ok (lt_fold sample s)" "1 \<le> our_link_time (lt_fold sample s)"
proof -
  have s: "unat (lt_smoothed_10ms s) \<le> 6000" using assms(1) by (simp add: lt_ok_def)
  have sm: "unat (lt_smoothed_10ms (lt_fold sample s)) \<le> 6000"
    using lt_fold_smoothed [OF s assms(2,3)] s assms(3) by (auto split: if_splits)
  have "(int (unat (lt_smoothed_10ms (lt_fold sample s))) + 5) div 10 \<le> 600" using sm by linarith
  then show "lt_ok (lt_fold sample s)" "1 \<le> our_link_time (lt_fold sample s)"
    using sm lt_fold_wire [OF sm] by (auto simp: lt_ok_def)
qed

lemma adv_frame_trigger: "lt_trigger ev si nd = nd' \<Longrightarrow> map sess_core (sessions nd') = map sess_core (sessions nd)"
proof -
  assume nd': "lt_trigger ev si nd = nd'"
  define loop where "loop = fold (\<lambda>p nd'. if p = si \<or> \<not> s_active (sessions nd' ! p) then nd'
      else flex_advertise_drain ev p
        (fold (\<lambda>lr. flex_advertise_check ev p (l_call lr) (l_lo lr) (l_hi lr) False) (routes (learned nd ! si)) nd'))
    [0..<FLEXNET_MAX_SESSIONS]"
  have "adv_frame nd1 (loop nd1)" for nd1 unfolding loop_def
    by (rule adv_frame_fold)
      (auto intro: adv_frame_trans [OF adv_frame_fold adv_frame_drain] adv_frame_check)
  then have l: "map sess_core (sessions (loop nd1)) = map sess_core (sessions nd1)" for nd1
    by (simp add: adv_frame_def)
  show ?thesis unfolding nd' [symmetric]
    using l [of "upd_learned si (\<lambda>st. st\<lparr>lt_anchor := our_link_time (sessions nd ! si)\<rparr>) nd"]
    by (simp add: lt_trigger_def Let_def loop_def upd_learned_def)
qed

lemma sess_core_lt:
  assumes "sess_core s' = sess_core s"
  shows "lt_smoothed_10ms s' = lt_smoothed_10ms s" "lt_sample_count s' = lt_sample_count s"
    "our_link_time s' = our_link_time s" "lt_tx_pending s' = lt_tx_pending s"
  using arg_cong [OF assms, of lt_smoothed_10ms] arg_cong [OF assms, of lt_sample_count]
    arg_cong [OF assms, of our_link_time] arg_cong [OF assms, of lt_tx_pending]
  by (simp_all add: sess_core_def)

text \<open>C16: what one link time echo does. A sample that was not asked for changes nothing; a sample of
  0 or of more than 60 s is thrown away; any other sample enters the 3:1 filter, whose 32-bit sum never
  wraps, the filtered value stays within 60 s and the link time put into every cost stays between
  1 and 600 units, far below the 4095 of the wire field.\<close>

theorem link_time_sample_exact:
  assumes "si < length (sessions nd)" "lt_ok (sessions nd ! si)"
    and "s = sessions nd ! si" "s' = sessions (flex_link_time_sample ev si nd) ! si"
    and "sample = unat (e_ticks ev - lt_tx_tick s)"
  shows "lt_ok s' \<and>
    (if \<not> lt_tx_pending s then s' = s
     else \<not> lt_tx_pending s' \<and>
       (if sample = 0 \<or> 6000 < sample
        then lt_smoothed_10ms s' = lt_smoothed_10ms s \<and> our_link_time s' = our_link_time s
        else unat (lt_smoothed_10ms s') = (if lt_sample_count s = 0 then sample
               else (unat (lt_smoothed_10ms s) * 3 + sample) div 4) \<and>
             our_link_time s' = max 1 ((int (unat (lt_smoothed_10ms s')) + 5) div 10) \<and>
             our_link_time s' \<le> 600))"
proof -
  let ?w = "e_ticks ev - lt_tx_tick s"
  have z: "?w = 0 \<longleftrightarrow> sample = 0" "?w > 6000 \<longleftrightarrow> 6000 < sample"
    by (simp_all add: assms(5) unat_eq_0 word_less_nat_alt)
  show ?thesis
  proof (cases "\<not> lt_tx_pending s \<or> sample = 0 \<or> 6000 < sample")
    case True
    then show ?thesis using assms(1,2) z
      by (auto simp: flex_link_time_sample_def Let_def assms(3,4) upd_sess_def lt_ok_def)
  next
    case False
    let ?nd1 = "upd_sess si (lt_fold ?w) nd"
    have e: "flex_link_time_sample ev si nd = lt_trigger ev si ?nd1"
      using False z by (simp add: flex_link_time_sample_def Let_def assms(3))
    have f: "sessions ?nd1 ! si = lt_fold ?w s" "si < length (sessions ?nd1)"
      using assms(1,3) by (simp_all add: upd_sess_def)
    have "sess_core s' = sess_core (lt_fold ?w s)"
      using sess_core_eq(2) [OF adv_frame_trigger [OF refl, of ev si ?nd1] f(2)] f(1) e assms(4) by simp
    note c = sess_core_lt [OF this]
    have g: "lt_ok s" "1 \<le> unat ?w" "unat ?w \<le> 6000" using False assms(2,3,5) by auto
    have sm: "unat (lt_smoothed_10ms s) \<le> 6000" using g(1) by (simp add: lt_ok_def)
    note ok = lt_fold_ok [OF g]
    have sm': "unat (lt_smoothed_10ms (lt_fold ?w s)) \<le> 6000" using ok(1) by (simp add: lt_ok_def)
    have "\<not> lt_tx_pending (lt_fold ?w s)" by (simp add: lt_fold_def Let_def)
    then show ?thesis using False ok lt_fold_smoothed [OF sm g(2,3)] lt_fold_wire [OF sm'] c assms(5)
      by (simp add: lt_ok_def)
  qed
qed

theorem link_time_sample_exact_witness:
  "lt_ok (sessions (flex_link_time_sample (demo_env\<lparr>e_ticks := 50\<rparr>) 0
      (upd_sess 0 (\<lambda>s. s\<lparr>lt_tx_tick := 10, lt_tx_pending := True\<rparr>) demo_node_row)) ! 0)"
proof -
  let ?nd = "upd_sess 0 (\<lambda>s. s\<lparr>lt_tx_tick := 10, lt_tx_pending := True\<rparr>) demo_node_row"
  have "0 < length (sessions ?nd)" "lt_ok (sessions ?nd ! 0)"
    by (simp_all add: upd_sess_def demo_node_row_simps lt_ok_def demo_session_def session0_def)
  from link_time_sample_exact [OF this refl refl refl] show ?thesis by blast
qed

end
