(* ===== verification/Flex_L2_Props.thy ===== *)
theory Flex_L2_Props
  imports Flex_L2 Flex_Dest_Props
begin

unbundle bit_operations_syntax

text \<open>
  Correctness of layer 2 forwarding. The specification of a message is its list of address entries
  and the bytes after them (control, PID, information); the byte-level rewriting refines list
  operations on it. Then the circuit table and the hook as a whole.
\<close>

section \<open>A message as a list of addresses\<close>

definition set_end :: "byte list \<Rightarrow> byte list" where
  "set_end a = a[6 := (a ! 6) OR 0x01]"

definition mark_end :: "byte list list \<Rightarrow> byte list list" where
  "mark_end as = butlast as @ [set_end (last as)]"

text \<open>Seven bytes with the E bit clear; only the last entry on the wire has it set.\<close>

definition plain_entry :: "byte list \<Rightarrow> bool" where
  "plain_entry a \<longleftrightarrow> length a = 7 \<and> (a ! 6) AND 0x01 = 0"

text \<open>
  \<open>frame_is m as t\<close>: the message holds the addresses \<open>as\<close> (DEST, ORIGIN, digis) and the tail
  \<open>t\<close>, in a buffer that can take the longest frame the code builds.
\<close>

definition frame_is :: "l2_msg \<Rightarrow> byte list list \<Rightarrow> byte list \<Rightarrow> bool" where
  "frame_is m as t \<longleftrightarrow> 2 \<le> length as \<and> length as \<le> 10 \<and> list_all plain_entry as \<and>
     m_len m = int (7 * length as + length t) \<and> int (length (m_buf m)) \<ge> m_len m \<and>
     int (length (m_buf m)) \<ge> FLEXNET_L2_MAX_FRAME \<and>
     take (7 * length as + length t) (m_buf m) = concat (mark_end as) @ t"

lemma length_concat7: "\<forall>a \<in> set as. length a = 7 \<Longrightarrow> length (concat as) = 7 * length as"
  by (induction as) auto

lemma entry_concat7:
  "\<forall>a \<in> set as. length a = 7 \<Longrightarrow> k < length as \<Longrightarrow> take 7 (drop (7 * k) (concat as @ t)) = as ! k"
proof (induction as arbitrary: k)
  case Nil
  then show ?case by simp
next
  case (Cons a as)
  show ?case
  proof (cases k)
    case 0
    with Cons.prems show ?thesis by simp
  next
    case (Suc j)
    with Cons.prems have "drop (7 * k) (concat (a # as) @ t) = drop (7 * j) (concat as @ t)"
      by (simp add: drop_append)
    with Cons.IH [of j] Cons.prems Suc show ?thesis by simp
  qed
qed

lemma plain_entryE:
  assumes "plain_entry a"
  obtains z x where "a = z @ [x]" "length z = 6" "x AND 0x01 = 0"
proof -
  have a: "length a = 7" "(a ! 6) AND 0x01 = 0" using assms by (simp_all add: plain_entry_def)
  then have "a = take 6 a @ [a ! 6]" by (metis One_nat_def Suc_1 append_take_drop_id eval_nat_numeral(3)
        lessI numeral_3_eq_3 numeral_Bit0 numeral_Bit1 take_Suc_conv_app_nth take_all_iff order_refl
        semiring_norm(26) semiring_norm(27) semiring_norm(28) Suc_numeral)
  with that [of "take 6 a" "a ! 6"] a show ?thesis by simp
qed

lemma byte_end_bits:
  fixes x :: byte
  shows "x AND 0x01 = 0 \<Longrightarrow> (x OR 0x01) AND 0xFE = x" "(x OR 0x01) AND 0x01 \<noteq> 0"
    "(x OR 0x01) AND 0x1E = x AND 0x1E" "(x OR 0x01) AND 0x80 = x AND 0x80"
    "(x AND 0x7E) AND 0x01 = 0" "(x AND 0x7E) AND 0x1E = x AND 0x1E"
proof -
  have "(0xFF :: byte) = -1" by simp
  then have m: "x AND 0xFF = x" by (simp only: and.right_neutral)
  show "x AND 0x01 = 0 \<Longrightarrow> (x OR 0x01) AND 0xFE = x"
    using m bit.conj_disj_distrib [of x "0xFE" 1] by (simp add: bit.conj_disj_distrib2)
  show "(x OR 0x01) AND 0x01 \<noteq> 0" by (simp add: bit.conj_disj_distrib2)
  show "(x OR 0x01) AND 0x1E = x AND 0x1E" "(x OR 0x01) AND 0x80 = x AND 0x80"
    by (simp_all add: bit.conj_disj_distrib2)
  show "(x AND 0x7E) AND 0x01 = 0" "(x AND 0x7E) AND 0x1E = x AND 0x1E"
    by (simp_all add: and.assoc)
qed

lemma length_mark_end [simp]: "as \<noteq> [] \<Longrightarrow> length (mark_end as) = length as"
  by (simp add: mark_end_def)

lemma mark_end_nth:
  assumes "k < length as"
  shows "mark_end as ! k = (if k = length as - 1 then set_end (as ! k) else as ! k)"
proof -
  have "last as = as ! (length as - 1)" using assms by (intro last_conv_nth) auto
  with assms show ?thesis by (auto simp: mark_end_def nth_append nth_butlast)
qed

lemma mark_end_snoc [simp]: "mark_end (as @ [a]) = as @ [set_end a]"
  by (simp add: mark_end_def)

lemma length_set_end [simp]: "length (set_end a) = length a"
  by (simp add: set_end_def)

lemma mark_end_len7: "as \<noteq> [] \<Longrightarrow> list_all plain_entry as \<Longrightarrow> \<forall>a \<in> set (mark_end as). length a = 7"
  by (auto simp: mark_end_def list_all_iff plain_entry_def dest: in_set_butlastD)

lemma same_call_set_end [simp]:
  assumes "plain_entry a"
  shows "flex_l2_same_call (set_end a) c = flex_l2_same_call a c"
  using assms by (simp add: flex_l2_same_call_def set_end_def plain_entry_def byte_end_bits)

lemma set_end_h_bit [simp]: "plain_entry a \<Longrightarrow> (set_end a ! 6) AND 0x80 = (a ! 6) AND 0x80"
  by (simp add: set_end_def plain_entry_def byte_end_bits)

lemma frame_entry:
  assumes "frame_is m as t" "k < length as"
  shows "entry_at m (7 * k) = mark_end as ! k"
proof -
  have ne: "as \<noteq> []" using assms(2) by auto
  have l: "7 * k + 7 \<le> 7 * length as + length t" using assms(2) by linarith
  have "entry_at m (7 * k) = take 7 (drop (7 * k) (take (7 * length as + length t) (m_buf m)))"
    using l by (simp add: entry_at_def drop_take min_def)
  also have "take (7 * length as + length t) (m_buf m) = concat (mark_end as) @ t"
    using assms(1) by (simp add: frame_is_def)
  also have "take 7 (drop (7 * k) (concat (mark_end as) @ t)) = mark_end as ! k"
    using assms mark_end_len7 [OF ne] ne by (intro entry_concat7) (simp_all add: frame_is_def)
  finally show ?thesis .
qed

lemma frame_byte6:
  assumes "frame_is m as t" "k < length as"
  shows "m_buf m ! (7 * k + 6) = mark_end as ! k ! 6"
proof -
  have "int (7 * k + 7) \<le> m_len m" using assms by (simp add: frame_is_def)
  then have "7 * k + 7 \<le> length (m_buf m)" using assms(1) by (simp add: frame_is_def)
  then show ?thesis unfolding frame_entry [OF assms, symmetric]
    by (simp add: entry_at_def add.commute)
qed

lemma frame_end_bit:
  assumes "frame_is m as t" "k < length as"
  shows "end_bit m (7 * k) \<longleftrightarrow> k = length as - 1"
proof -
  have "plain_entry (as ! k)" using assms by (simp add: frame_is_def list_all_length)
  then show ?thesis unfolding end_bit_def frame_byte6 [OF assms] mark_end_nth [OF assms(2)]
    by (cases "k = length as - 1") (simp_all add: set_end_def plain_entry_def byte_end_bits)
qed

lemma frame_plain: "frame_is m as t \<Longrightarrow> k < length as \<Longrightarrow> plain_entry (as ! k)"
  by (simp add: frame_is_def list_all_length)

lemma frame_same_call:
  assumes "frame_is m as t" "k < length as"
  shows "flex_l2_same_call (entry_at m (7 * k)) c = flex_l2_same_call (as ! k) c"
  unfolding frame_entry [OF assms] mark_end_nth [OF assms(2)]
  using same_call_set_end [OF frame_plain [OF assms], of c] by presburger

lemma frame_addr_last:
  assumes "frame_is m as t"
  shows "flex_l2_addr_last m = Some (7 * (length as - 1))"
proof -
  have n: "2 \<le> length as" "length as \<le> 10" using assms by (simp_all add: frame_is_def)
  have "first_idx (\<lambda>n. end_bit m (7 * n)) [0..<2 + FLEXNET_L2_MAX_DIGIS] = Some (length as - 1)"
    using n frame_end_bit [OF assms] by (auto intro!: first_idx_eqI simp: FLEXNET_L2_MAX_DIGIS_def)
  then show ?thesis by (simp add: flex_l2_addr_last_def)
qed

lemma frame_digi_count:
  assumes "frame_is m as t"
  shows "flex_l2_digi_count m = length as - 2"
proof (cases "length as = 2")
  case True
  with frame_end_bit [OF assms, of 1] show ?thesis by (simp add: flex_l2_digi_count_def)
next
  case False
  then have n: "3 \<le> length as" "length as \<le> 10" using assms by (auto simp: frame_is_def)
  have e: "end_bit m (14 + 7 * k) \<longleftrightarrow> k = length as - 3" if "k + 2 < length as" for k
    using frame_end_bit [OF assms that] n that by (simp add: add_mult_distrib2 add.commute) arith
  have "first_idx (\<lambda>n. end_bit m (14 + 7 * n)) [0..<FLEXNET_L2_MAX_DIGIS] = Some (length as - 3)"
    using n e by (auto intro!: first_idx_eqI simp: FLEXNET_L2_MAX_DIGIS_def)
  moreover have "\<not> end_bit m 7" using frame_end_bit [OF assms, of 1] n by simp
  ultimately show ?thesis using n by (simp add: flex_l2_digi_count_def)
qed

lemma frame_digi_scan:
  assumes "frame_is m as t"
  shows "k < length as \<Longrightarrow> length as \<le> k + n \<Longrightarrow>
    digi_scan m call n (7 * k) \<longleftrightarrow> (\<exists>a \<in> set (drop k as). flex_l2_same_call a call)"
proof (induction n arbitrary: k)
  case 0
  then show ?case by simp
next
  case (Suc n)
  have d: "drop k as = as ! k # drop (Suc k) as" using Suc.prems(1) by (simp add: Cons_nth_drop_Suc)
  have s: "7 * k + 7 = 7 * Suc k" by simp
  show ?case
  proof (cases "k = length as - 1")
    case True
    then have "drop k as = [as ! k]" unfolding d using Suc.prems by simp
    moreover have "end_bit m (7 * k)" using True frame_end_bit [OF assms Suc.prems(1)] by simp
    ultimately show ?thesis using frame_same_call [OF assms Suc.prems(1)] by simp
  next
    case False
    then have k: "Suc k < length as" using Suc.prems by linarith
    have "digi_scan m call n (7 * Suc k) \<longleftrightarrow> (\<exists>a \<in> set (drop (Suc k) as). flex_l2_same_call a call)"
      using Suc.IH [OF k] Suc.prems by simp
    with False Suc.prems show ?thesis
      by (simp add: d s frame_same_call [OF assms] frame_end_bit [OF assms] del: mult_Suc_right)
  qed
qed

lemma frame_in_chain:
  assumes "frame_is m as t"
  shows "flex_l2_call_in_chain m call \<longleftrightarrow> (\<exists>a \<in> set as. flex_l2_same_call a call)"
proof -
  have n: "2 \<le> length as" "length as \<le> 10" using assms by (auto simp: frame_is_def)
  obtain d o' r where as: "as = d # o' # r"
    using n by (metis One_nat_def Suc_1 Suc_le_length_iff)
  have f: "flex_l2_same_call (entry_at m 0) call = flex_l2_same_call d call"
    "flex_l2_same_call (entry_at m 7) call = flex_l2_same_call o' call"
    using frame_same_call [OF assms, of 0] frame_same_call [OF assms, of 1] as by auto
  show ?thesis
  proof (cases "r = []")
    case True
    then show ?thesis using frame_end_bit [OF assms, of 1] as by (simp add: flex_l2_call_in_chain_def f)
  next
    case False
    then have "\<not> end_bit m 7" using frame_end_bit [OF assms, of 1] as by simp
    moreover have "digi_scan m call FLEXNET_L2_MAX_DIGIS 14 \<longleftrightarrow> (\<exists>a \<in> set r. flex_l2_same_call a call)"
      using frame_digi_scan [OF assms, of 2 FLEXNET_L2_MAX_DIGIS] n as False
      by (simp add: FLEXNET_L2_MAX_DIGIS_def)
    ultimately show ?thesis by (simp add: flex_l2_call_in_chain_def f as)
  qed
qed

section \<open>Rewriting the chain refines list operations\<close>

text \<open>The new entry: the hop's call and SSID, H clear.\<close>

definition hop_entry :: "byte list \<Rightarrow> byte list" where
  "hop_entry call = take 6 call @ [(call ! 6) AND 0x7E]"

lemma plain_hop_entry [simp]: "7 \<le> length call \<Longrightarrow> plain_entry (hop_entry call)"
  by (simp add: hop_entry_def plain_entry_def nth_append byte_end_bits)

lemma same_call_hop_entry [simp]:
  "7 \<le> length call \<Longrightarrow> flex_l2_same_call (hop_entry call) c = flex_l2_same_call call c"
  by (simp add: hop_entry_def flex_l2_same_call_def nth_append byte_end_bits)

lemma frame_split:
  assumes "frame_is m as t"
  obtains bs z x R where "as = bs @ [z @ [x]]" "length z = 6" "x AND 0x01 = 0"
    "m_buf m = (concat bs @ z) @ [x OR 0x01] @ t @ R" "length (concat bs) = 7 * (length as - 1)"
    "int (length R) = int (length (m_buf m)) - m_len m"
proof -
  have n: "2 \<le> length as" using assms by (simp add: frame_is_def)
  then obtain bs a where as: "as = bs @ [a]" by (cases as rule: rev_cases) auto
  have "plain_entry a" using assms as by (simp add: frame_is_def)
  then obtain z x where a: "a = z @ [x]" "length z = 6" "x AND 0x01 = 0" by (rule plain_entryE)
  have l: "\<forall>b \<in> set bs. length b = 7" using assms as by (auto simp: frame_is_def list_all_iff plain_entry_def)
  let ?n = "7 * length as + length t"
  have "m_buf m = take ?n (m_buf m) @ drop ?n (m_buf m)" by simp
  also have "take ?n (m_buf m) = (concat bs @ z) @ [x OR 0x01] @ t"
    using assms as a by (simp add: frame_is_def set_end_def nth_append list_update_append)
  finally have "m_buf m = (concat bs @ z) @ [x OR 0x01] @ t @ drop ?n (m_buf m)" by simp
  moreover have "int (length (drop ?n (m_buf m))) = int (length (m_buf m)) - m_len m"
    using assms by (simp add: frame_is_def)
  moreover have "length (concat bs) = 7 * (length as - 1)" using length_concat7 [OF l] as by simp
  ultimately show ?thesis using as a by (intro that [of bs z x "drop ?n (m_buf m)"]) (simp_all del: length_drop)
qed

lemma append_bytes:
  fixes t R C call :: "byte list" and x y :: byte and f :: "byte \<Rightarrow> byte"
  assumes "length C = l + 6" "7 \<le> length R" "6 \<le> length call"
  defines "b0 \<equiv> C @ [x] @ t @ R"
  defines "b1 \<equiv> overlay (l + 14) (take (length t) (drop (l + 7) b0)) b0"
  defines "b2 \<equiv> b1[l + 6 := f (b1 ! (l + 6))]"
  shows "(overlay (l + 7) (take 6 call) b2)[l + 13 := y] = C @ [f x] @ take 6 call @ [y] @ t @ drop 7 R"
proof -
  obtain g0 g1 R' where R: "take 7 (t @ R) = g0 @ [g1]" "length g0 = 6"
  proof -
    have "length (take 7 (t @ R)) = 7" using assms(2) by simp
    then show ?thesis using that by (metis One_nat_def add_diff_cancel_left' append_butlast_last_id length_butlast
          length_greater_0_conv numeral_eq_one_iff plus_1_eq_Suc semiring_norm(163) zero_less_numeral
          diff_Suc_1 eval_nat_numeral(3) numeral_2_eq_2 numeral_3_eq_3)
  qed
  have "take (length t) (drop (l + 7) b0) = t" using assms(1) by (simp add: b0_def)
  moreover have "take (l + 14) b0 = C @ [x] @ g0 @ [g1]" using assms(1) R by (simp add: b0_def)
  moreover have "drop (l + 14 + length t) ((C @ [x] @ t) @ R) = drop 7 R"
    unfolding drop_append using assms(1) by simp
  then have "drop (l + 14 + length t) b0 = drop 7 R" by (simp add: b0_def)
  ultimately have b1: "b1 = C @ [x] @ g0 @ [g1] @ t @ drop 7 R" by (simp add: b1_def overlay_def)
  have "b2 = C @ [f x] @ g0 @ [g1] @ t @ drop 7 R"
    using assms(1) by (simp add: b2_def b1 nth_append list_update_append)
  moreover have "take (l + 7) (C @ [f x] @ g0 @ [g1] @ t @ drop 7 R) = C @ [f x]"
    "drop (l + 7 + 6) (C @ [f x] @ g0 @ [g1] @ t @ drop 7 R) = [g1] @ t @ drop 7 R"
    using assms(1) R(2) by simp_all
  ultimately have "overlay (l + 7) (take 6 call) b2 = C @ [f x] @ take 6 call @ [g1] @ t @ drop 7 R"
    using assms(3) by (simp add: overlay_def)
  then show ?thesis using assms(1,3) by (simp add: list_update_append)
qed

lemma append_digi_frame:
  assumes f: "frame_is m as t" and n: "length as \<le> 9" and c: "7 \<le> length call"
  shows "if m_len m + 7 > FLEXNET_L2_MAX_FRAME then flex_l2_append_digi m call = None
    else \<exists>m'. flex_l2_append_digi m call = Some m' \<and> frame_is m' (as @ [hop_entry call]) t \<and>
      m_len m' = m_len m + 7 \<and> length (m_buf m') = length (m_buf m)"
proof (cases "m_len m + 7 > FLEXNET_L2_MAX_FRAME")
  case True
  then show ?thesis by (simp add: flex_l2_append_digi_def frame_addr_last [OF f] Let_def)
next
  case False
  obtain bs z x R where s: "as = bs @ [z @ [x]]" "length z = 6" "x AND 0x01 = 0"
    "m_buf m = (concat bs @ z) @ [x OR 0x01] @ t @ R" "length (concat bs) = 7 * (length as - 1)"
    "int (length R) = int (length (m_buf m)) - m_len m"
    using f by (rule frame_split)
  have ml: "m_len m = int (7 * length as + length t)" and n2: "2 \<le> length as" using f by (simp_all add: frame_is_def)
  define l where "l = 7 * (length as - 1)"
  have l7: "l + 7 = 7 * length as" using n2 by (simp add: l_def)
  have "int (length (m_buf m)) \<ge> FLEXNET_L2_MAX_FRAME" using f by (simp add: frame_is_def)
  then have R: "7 \<le> length R" using s(6) False by linarith
  have C: "length (concat bs @ z) = l + 6" using s(2,5) by (simp add: l_def)
  have tk: "nat (m_len m) - (l + 7) = length t" using ml l7 by simp
  define b where "b = (concat bs @ z) @ [x] @ take 6 call @ [((call ! 6) AND 0x7E) OR 0x01] @ t @ drop 7 R"
  have e: "flex_l2_append_digi m call = Some (m\<lparr>m_buf := b, m_len := m_len m + 7\<rparr>)"
  proof -
    have al: "flex_l2_addr_last m = Some l" by (simp add: frame_addr_last [OF f] l_def)
    have g: "\<not> (m_len m < int (l + 7) \<or> m_len m + 7 > FLEXNET_L2_MAX_FRAME)" using False ml l7 by simp
    have o: "l + 7 + 7 = l + 14" "l + 7 + 6 = l + 13" by simp_all
    have "6 \<le> length call" using c by simp
    note append_bytes [OF C R this, where f = "\<lambda>v. v AND 0xFE" and x = "x OR 0x01" and t = t
        and y = "((call ! 6) AND 0x7E) OR 0x01", folded s(4), unfolded byte_end_bits(1) [OF s(3)], folded b_def]
    then show ?thesis unfolding flex_l2_append_digi_def al option.case Let_def if_not_P [OF g] tk o by simp
  qed
  have len: "length b = length (m_buf m)" using R c s(2) by (simp add: b_def s(4))
  have "concat (mark_end (as @ [hop_entry call])) = (concat bs @ z) @ [x] @ take 6 call @ [((call ! 6) AND 0x7E) OR 0x01]"
    unfolding mark_end_snoc using c by (simp add: s(1) hop_entry_def set_end_def nth_append list_update_append)
  moreover have "take (7 * length (as @ [hop_entry call]) + length t) b =
      (concat bs @ z) @ [x] @ take 6 call @ [((call ! 6) AND 0x7E) OR 0x01] @ t" (is "_ = ?X")
  proof -
    have "7 * length (as @ [hop_entry call]) + length t = length ?X" using C c l7 by simp
    moreover have "b = ?X @ drop 7 R" by (simp add: b_def)
    ultimately show ?thesis by (metis append_eq_conv_conj)
  qed
  ultimately have "frame_is (m\<lparr>m_buf := b, m_len := m_len m + 7\<rparr>) (as @ [hop_entry call]) t"
    using f n c len False ml by (simp add: frame_is_def)
  with e len False show ?thesis by simp
qed

text \<open>Taking entry \<open>k\<close> out.\<close>

definition without :: "nat \<Rightarrow> 'a list \<Rightarrow> 'a list" where
  "without k xs = take k xs @ drop (Suc k) xs"

lemma concat_split7:
  assumes "\<forall>a \<in> set as. length a = 7" "k < length as"
  shows "concat as = concat (take k as) @ as ! k @ concat (drop (Suc k) as)"
    "length (concat (take k as)) = 7 * k" "length (concat (drop (Suc k) as)) = 7 * (length as - Suc k)"
proof -
  have "as = take k as @ as ! k # drop (Suc k) as" using assms(2) by (rule id_take_nth_drop)
  then show "concat as = concat (take k as) @ as ! k @ concat (drop (Suc k) as)"
    by (metis concat.simps(2) concat_append)
  show "length (concat (take k as)) = 7 * k" "length (concat (drop (Suc k) as)) = 7 * (length as - Suc k)"
    using assms by (subst length_concat7; auto dest: in_set_takeD in_set_dropD)+
qed

lemma remove_digi_frame:
  assumes f: "frame_is m as t" and k: "2 \<le> k" "k < length as"
  shows "\<exists>m'. flex_l2_remove_digi m (7 * k) = Some m' \<and> frame_is m' (without k as) t \<and>
    m_len m' = m_len m - 7 \<and> length (m_buf m') = length (m_buf m)"
proof -
  let ?ms = "mark_end as" and ?n = "7 * length as + length t"
  have ne: "as \<noteq> []" using k by auto
  have l7: "\<forall>a \<in> set ?ms. length a = 7" using f ne mark_end_len7 by (simp add: frame_is_def)
  have km: "k < length ?ms" using k ne by simp
  note c = concat_split7 [OF l7 km]
  define P where "P = concat (take k ?ms)"
  define E where "E = ?ms ! k"
  define Q where "Q = concat (drop (Suc k) ?ms)"
  define R where "R = drop ?n (m_buf m)"
  have ml: "m_len m = int ?n" using f by (simp add: frame_is_def)
  have len: "length P = 7 * k" "length E = 7" "length Q = 7 * (length as - Suc k)"
    using c(2,3) l7 km ne by (simp_all add: P_def E_def Q_def)
  have buf: "m_buf m = P @ E @ Q @ t @ R"
  proof -
    have "m_buf m = take ?n (m_buf m) @ R" by (simp add: R_def)
    also have "take ?n (m_buf m) = concat ?ms @ t" using f by (simp add: frame_is_def)
    finally show ?thesis by (simp add: c(1) P_def E_def Q_def)
  qed
  have tl: "nat (m_len m) - 7 * k - 7 = length Q + length t" using ml len(3) k by simp
  have b1: "overlay (7 * k) (take (nat (m_len m) - 7 * k - 7) (drop (7 * k + 7) (m_buf m))) (m_buf m) =
      P @ Q @ t @ drop (length Q + length t) (E @ Q @ t @ R)" (is "?b1 = _ @ _ @ _ @ ?X")
  proof -
    have "drop (7 * k + 7) (m_buf m) = Q @ t @ R" using len by (simp add: buf)
    then have "take (nat (m_len m) - 7 * k - 7) (drop (7 * k + 7) (m_buf m)) = Q @ t" unfolding tl by simp
    moreover have "take (7 * k) (m_buf m) = P" using len by (simp add: buf)
    moreover have "drop (7 * k + length (Q @ t)) (m_buf m) = ?X" using len by (simp add: buf)
    ultimately show ?thesis by (simp add: overlay_def)
  qed
  define X where "X = ?X"
  note b1 = b1 [folded X_def]
  have lX: "length X = 7 + length R" unfolding X_def by (simp only: length_drop length_append len)
  have g: "\<not> (7 * k < 14 \<or> int (7 * k) + 7 > m_len m)" using k ml by simp
  let ?last = "k = length as - 1"
  let ?b2 = "if ?last then ?b1[7 * k - 1 := (?b1 ! (7 * k - 1)) OR 0x01] else ?b1"
  have "7 * k \<ge> 21 \<or> 7 * k - 1 = 13" using k by (cases "k = 2") auto
  then have r: "flex_l2_remove_digi m (7 * k) = Some (m\<lparr>m_buf := ?b2, m_len := m_len m - 7\<rparr>)"
    using frame_end_bit [OF f k(2)] g by (auto simp: flex_l2_remove_digi_def Let_def)
  have b2: "take (length P + length Q + length t) ?b2 = concat (mark_end (without k as)) @ t"
  proof (cases ?last)
    case True
    then have Q: "Q = []" using len(3) k by simp
    obtain cs a where as': "take k as = cs @ [a]" using k by (metis append_butlast_last_id length_take min.absorb4 not_numeral_le_zero take_eq_Nil2 list.size(3))
    have "plain_entry a" using f as' by (metis frame_is_def in_set_takeD last_in_set last_snoc list_all_iff snoc_eq_iff_butlast)
    then obtain z x where a: "a = z @ [x]" "length z = 6" by (rule plain_entryE)
    have "take k ?ms = take k as" using True ne by (simp add: mark_end_def butlast_conv_take)
    then have P: "P = (concat cs @ z) @ [x]" by (simp add: P_def as' a)
    then have i: "7 * k - 1 = length (concat cs @ z)" using len(1) by simp
    have e: "?b1 = (concat cs @ z) @ x # t @ X" unfolding b1 by (simp add: P Q)
    have "?b2 = (concat cs @ z) @ (x OR 0x01) # t @ X"
      unfolding if_P [OF True] e i list_update_length nth_append_length by (rule refl)
    moreover have "without k as = cs @ [a]" using True k as' by (simp add: without_def)
    moreover have "concat (mark_end (cs @ [a])) = (concat cs @ z) @ [x OR 0x01]"
      unfolding mark_end_snoc using a by (simp add: set_end_def nth_append list_update_append)
    ultimately show ?thesis by (simp add: Q P)
  next
    case False
    then have "\<not> length as \<le> Suc k" using k by linarith
    then have "mark_end (without k as) = without k ?ms"
      using k by (simp add: mark_end_def without_def butlast_append last_append take_butlast drop_butlast)
    then have "concat (mark_end (without k as)) = P @ Q" by (simp add: without_def P_def Q_def)
    then show ?thesis unfolding if_not_P [OF False] b1 by simp
  qed
  have "length ?b1 = length (m_buf m)" unfolding b1 by (simp add: lX buf len)
  then have "length ?b2 = length (m_buf m)" by (simp only: if_distrib [of length] length_list_update if_cancel)
  moreover have "list_all plain_entry (without k as)" "length (without k as) = length as - 1"
    using f k by (auto simp: without_def frame_is_def list_all_iff dest: in_set_takeD in_set_dropD)
  moreover have "length P + length Q + length t = 7 * (length as - 1) + length t" using len k by simp
  moreover have "length as \<le> 10" using f by (simp add: frame_is_def)
  then have "2 \<le> length as - 1" "length as - 1 \<le> 10" using k by linarith+
  moreover define B where "B = ?b2"
  ultimately have fr: "frame_is (m\<lparr>m_buf := B, m_len := m_len m - 7\<rparr>) (without k as) t"
    and len': "length B = length (m_buf m)"
    using b2 [folded B_def] f k ml by (simp_all add: frame_is_def)
  show ?thesis unfolding r B_def [symmetric] using fr len' by simp
qed

text \<open>C21: appending the next hop is, on the list of addresses, appending one entry. For any well-formed
  message with at most seven digipeaters the rewriting either refuses, exactly when the frame would
  grow beyond 330 bytes, or yields a well-formed message with the same DEST, ORIGIN, digipeaters and
  tail and the hop as new last digipeater, not yet repeated, without leaving the buffer.\<close>

theorem append_digi_refines:
  assumes "frame_is m as t" "length as \<le> 9" "7 \<le> length call"
  shows "if m_len m + 7 > FLEXNET_L2_MAX_FRAME then flex_l2_append_digi m call = None
    else \<exists>m'. flex_l2_append_digi m call = Some m' \<and> frame_is m' (as @ [hop_entry call]) t \<and>
      m_len m' = m_len m + 7 \<and> length (m_buf m') = length (m_buf m)"
  by (rule append_digi_frame [OF assms])

text \<open>C22: taking the hop out undoes appending it: the message is again the one before, byte for byte
  over its whole length, so the originator sees the chain it sent.\<close>

theorem remove_undoes_append:
  assumes "frame_is m as t" "length as \<le> 9" "7 \<le> length call" "m_len m + 7 \<le> FLEXNET_L2_MAX_FRAME"
  shows "\<exists>m' m''. flex_l2_append_digi m call = Some m' \<and>
    flex_l2_remove_digi m' (7 * length as) = Some m'' \<and> m_len m'' = m_len m \<and>
    take (nat (m_len m)) (m_buf m'') = take (nat (m_len m)) (m_buf m)"
proof -
  obtain m' where a: "flex_l2_append_digi m call = Some m'" "frame_is m' (as @ [hop_entry call]) t"
    "m_len m' = m_len m + 7"
    using append_digi_frame [OF assms(1-3)] assms(4) by auto
  have n: "2 \<le> length as" using assms(1) by (simp add: frame_is_def)
  then obtain m'' where r: "flex_l2_remove_digi m' (7 * length as) = Some m''" "frame_is m'' (without (length as) (as @ [hop_entry call])) t"
    "m_len m'' = m_len m' - 7"
    using remove_digi_frame [OF a(2), of "length as"] by auto
  then have "frame_is m'' as t" by (simp add: without_def)
  then have "take (nat (m_len m)) (m_buf m'') = take (nat (m_len m)) (m_buf m)"
    using assms(1) by (simp add: frame_is_def nat_add_distrib nat_mult_distrib)
  with a r show ?thesis by auto
qed

definition demo_frame :: "byte list list \<Rightarrow> byte list \<Rightarrow> l2_msg" where
  "demo_frame as t = \<lparr>m_buf = concat (mark_end as) @ t @ replicate (350 - 7 * length as - length t) 0,
     m_len = int (7 * length as + length t)\<rparr>"

lemma demo_frame_is:
  assumes "2 \<le> length as" "length as \<le> 10" "list_all plain_entry as" "7 * length as + length t \<le> 350"
  shows "frame_is (demo_frame as t) as t"
proof -
  have "as \<noteq> []" using assms(1) by auto
  then have "length (concat (mark_end as)) = 7 * length as"
    using mark_end_len7 [of as] assms(3) length_concat7 [of "mark_end as"] by simp
  then show ?thesis using assms
    by (simp add: frame_is_def demo_frame_def FLEXNET_L2_MAX_FRAME_def)
qed

definition demo_call :: "byte \<Rightarrow> byte list" where
  "demo_call b = [b, 0x40, 0x40, 0x40, 0x40, 0x40, 0x60]"

lemma demo_chain_is: "frame_is (demo_frame [demo_call 0x80, demo_call 0x82, demo_call 0x84] [0x3F]) [demo_call 0x80, demo_call 0x82, demo_call 0x84] [0x3F]"
  by (rule demo_frame_is) (simp_all add: demo_call_def plain_entry_def)

theorem append_digi_refines_witness:
  "\<exists>m'. flex_l2_append_digi (demo_frame [demo_call 0x80, demo_call 0x82, demo_call 0x84] [0x3F]) (demo_call 0x86) = Some m' \<and>
     m_len m' = 29"
  using append_digi_refines [OF demo_chain_is, of "demo_call 0x86"]
  by (auto simp: demo_call_def demo_frame_def FLEXNET_L2_MAX_FRAME_def)

theorem remove_undoes_append_witness:
  "\<exists>m' m''. flex_l2_append_digi (demo_frame [demo_call 0x80, demo_call 0x82, demo_call 0x84] [0x3F]) (demo_call 0x86) = Some m' \<and>
     flex_l2_remove_digi m' 21 = Some m'' \<and> m_len m'' = 22"
  using remove_undoes_append [OF demo_chain_is, of "demo_call 0x86"]
  by (auto simp: demo_call_def demo_frame_def FLEXNET_L2_MAX_FRAME_def)

section \<open>The circuit table\<close>

lemma same_call_equiv:
  "flex_l2_same_call a a" "flex_l2_same_call a b \<Longrightarrow> flex_l2_same_call b a"
  "flex_l2_same_call a b \<Longrightarrow> flex_l2_same_call b c \<Longrightarrow> flex_l2_same_call a c"
  by (simp_all add: flex_l2_same_call_def)

text \<open>No two open circuits have the same ends and port.\<close>

definition same_circuit :: "l2_circuit \<Rightarrow> l2_circuit \<Rightarrow> bool" where
  "same_circuit e f \<longleftrightarrow> x_port e = x_port f \<and> flex_l2_same_call (x_user e) (x_user f) \<and>
     flex_l2_same_call (x_dest e) (x_dest f)"

definition circuits_ok :: "l2_circuit list \<Rightarrow> bool" where
  "circuits_ok cs \<longleftrightarrow> length cs = FLEXNET_MAX_L2_TRANSIT \<and>
     (\<forall>i < length cs. \<forall>j < length cs. i \<noteq> j \<longrightarrow> x_active (cs ! i) \<longrightarrow> x_active (cs ! j) \<longrightarrow>
        \<not> same_circuit (cs ! i) (cs ! j)) \<and>
     (\<forall>e \<in> set cs. length (x_appended e) = 7)"

lemma circuits_ok_update:
  assumes ok: "circuits_ok cs" and i: "i < length cs" and l7: "length (x_appended e) = 7"
    and new: "x_active e \<Longrightarrow> \<forall>j < length cs. j \<noteq> i \<longrightarrow> x_active (cs ! j) \<longrightarrow> \<not> same_circuit e (cs ! j)"
  shows "circuits_ok (cs[i := e])"
proof -
  have sym: "same_circuit a b = same_circuit b a" for a b
    by (auto simp: same_circuit_def flex_l2_same_call_def)
  have "\<not> same_circuit (cs[i := e] ! a) (cs[i := e] ! b)"
    if ab: "a < length cs" "b < length cs" "a \<noteq> b" "x_active (cs[i := e] ! a)" "x_active (cs[i := e] ! b)" for a b
  proof -
    consider "a = i" "b \<noteq> i" | "b = i" "a \<noteq> i" | "a \<noteq> i" "b \<noteq> i" using ab(3) by blast
    then show ?thesis
    proof cases
      case 1
      then show ?thesis using ab i new by simp
    next
      case 2
      then have "\<not> same_circuit e (cs ! a)" using ab i new by simp
      then show ?thesis using 2 ab i sym [of e "cs ! a"] by simp
    next
      case 3
      then show ?thesis using ab ok by (simp add: circuits_ok_def)
    qed
  qed
  moreover have "\<forall>f \<in> set (cs[i := e]). length (x_appended f) = 7"
    using ok l7 set_update_subset_insert [of cs i e] by (auto simp: circuits_ok_def)
  ultimately show ?thesis using ok by (simp add: circuits_ok_def)
qed

text \<open>An update that keeps the key, and never opens a circuit.\<close>

definition keeps_key :: "l2_circuit \<Rightarrow> l2_circuit \<Rightarrow> bool" where
  "keeps_key e f \<longleftrightarrow> x_port f = x_port e \<and> x_user f = x_user e \<and> x_dest f = x_dest e \<and>
     (x_active f \<longrightarrow> x_active e) \<and> (length (x_appended e) = 7 \<longrightarrow> length (x_appended f) = 7)"

lemma keeps_key_note [simp]: "keeps_key e (flex_l2_note_ctl f k now) = keeps_key e f"
  by (cases k) (auto simp: keeps_key_def)

lemma keeps_key_expire [simp]: "keeps_key e (expire now e)"
  by (simp add: keeps_key_def expire_def)

lemma circuits_ok_pointwise:
  assumes "circuits_ok cs" "length cs' = length cs" "\<And>i. i < length cs \<Longrightarrow> keeps_key (cs ! i) (cs' ! i)"
  shows "circuits_ok cs'"
proof -
  have "same_circuit (cs' ! i) (cs' ! j) = same_circuit (cs ! i) (cs ! j)" "x_active (cs' ! i) \<Longrightarrow> x_active (cs ! i)"
    if "i < length cs" "j < length cs" for i j
    using assms(3) [of i] assms(3) [of j] that by (auto simp: keeps_key_def same_circuit_def)
  moreover have "\<forall>f \<in> set cs'. length (x_appended f) = 7"
  proof
    fix f assume "f \<in> set cs'"
    then obtain i where i: "i < length cs" "f = cs' ! i" using assms(2) by (metis in_set_conv_nth)
    then have "length (x_appended (cs ! i)) = 7" using assms(1) by (simp add: circuits_ok_def)
    with i assms(3) [OF i(1)] show "length (x_appended f) = 7" by (simp add: keeps_key_def)
  qed
  ultimately show ?thesis using assms(1,2) unfolding circuits_ok_def by metis
qed

lemma upd_circuit_ok:
  assumes "circuits_ok (circuits st)" "i < length (circuits st)"
    "keeps_key (circuits st ! i) (f (circuits st ! i))"
  shows "circuits_ok (circuits (upd_circuit i f st))"
proof (rule circuits_ok_pointwise [OF assms(1)])
  show "keeps_key (circuits st ! j) (circuits (upd_circuit i f st) ! j)" if "j < length (circuits st)" for j
    using that assms by (cases "i = j") (simp_all add: upd_circuit_def keeps_key_def)
qed (simp add: upd_circuit_def)

section \<open>The scan\<close>

definition pick_best :: "l2_circuit list \<Rightarrow> (l2_circuit \<Rightarrow> bool) \<Rightarrow> (l2_circuit \<Rightarrow> int) \<Rightarrow> (nat \<times> int) option \<Rightarrow> bool" where
  "pick_best es P key b = (case b of
      None \<Rightarrow> \<forall>e \<in> set es. \<not> P e
    | Some (j, t) \<Rightarrow> j < length es \<and> P (es ! j) \<and> key (es ! j) = t \<and> (\<forall>e \<in> set es. P e \<longrightarrow> t \<le> key e))"

lemma pick_best_older:
  "pick_best es P key b \<Longrightarrow> P e \<Longrightarrow> pick_best (es @ [e]) P key (older (length es) (key e) b)"
  by (auto simp: pick_best_def older_def nth_append split: option.splits)

lemma pick_best_skip: "pick_best es P key b \<Longrightarrow> \<not> P e \<Longrightarrow> pick_best (es @ [e]) P key b"
  by (auto simp: pick_best_def nth_append split: option.splits)

definition evictable :: "int \<Rightarrow> bool \<Rightarrow> l2_circuit \<Rightarrow> bool" where
  "evictable now c e \<longleftrightarrow> x_active e \<and> circuit_state now e = S_EVICTABLE \<and> (x_closed_at e \<noteq> 0) = c"

definition pick_ok :: "int \<Rightarrow> l2_circuit list \<Rightarrow> l2_pick \<Rightarrow> bool" where
  "pick_ok now es pk \<longleftrightarrow> k_spare pk = first_idx (\<lambda>e. \<not> x_active e) es \<and>
     pick_best es (evictable now True) x_closed_at (k_closed pk) \<and>
     pick_best es (evictable now False) x_last_used (k_oldest pk)"

lemma pick_ok_step:
  assumes "pick_ok now es pk"
  shows "pick_ok now (es @ [e]) (consider_slot now (length es) e pk)"
proof -
  have s: "first_idx (\<lambda>e. \<not> x_active e) (es @ [e]) =
      (if k_spare pk \<noteq> None then k_spare pk else if x_active e then None else Some (length es))"
    using assms by (auto simp: pick_ok_def first_idx_append split: option.splits)
  show ?thesis using assms pick_best_older [of es "evictable now True" x_closed_at "k_closed pk" e]
      pick_best_older [of es "evictable now False" x_last_used "k_oldest pk" e]
    unfolding pick_ok_def s
    by (auto simp: consider_slot_def evictable_def intro!: pick_best_skip)
qed

lemma l2_scan_length: "l2_scan now u d p i cs pk = (cs', r, pk') \<Longrightarrow> length cs' = length cs"
  by (induction cs arbitrary: i pk cs' pk') (auto simp: Let_def split: if_splits prod.splits)

lemma l2_scan_nth:
  "l2_scan now u d p i cs pk = (cs', r, pk') \<Longrightarrow> j < length cs \<Longrightarrow> cs' ! j \<in> {cs ! j, expire now (cs ! j)}"
proof (induction cs arbitrary: i pk cs' pk' j)
  case Nil
  then show ?case by simp
next
  case (Cons e cs)
  show ?case
  proof (cases "circuit_matches u d p (expire now e)")
    case True
    with Cons.prems(1) show ?thesis by (cases j) (auto simp: Let_def)
  next
    case False
    with Cons.prems(1) obtain es1 where "l2_scan now u d p (i + 1) cs (consider_slot now i (expire now e) pk) = (es1, r, pk')"
      "cs' = expire now e # es1" by (auto simp: Let_def split: prod.splits)
    with Cons.IH Cons.prems(2) show ?thesis by (cases j) auto
  qed
qed

lemma l2_scan_hit:
  "l2_scan now u d p i cs pk = (cs', Some k, pk') \<Longrightarrow> i \<le> k \<and> k < i + length cs \<and> circuit_matches u d p (cs' ! (k - i))"
proof (induction cs arbitrary: i pk cs' pk')
  case Nil
  then show ?case by simp
next
  case (Cons e cs)
  show ?case
  proof (cases "circuit_matches u d p (expire now e)")
    case True
    with Cons.prems show ?thesis by (auto simp: Let_def)
  next
    case False
    with Cons.prems obtain es1 where s: "l2_scan now u d p (i + 1) cs (consider_slot now i (expire now e) pk) = (es1, Some k, pk')"
      "cs' = expire now e # es1" by (auto simp: Let_def split: prod.splits)
    from Cons.IH [OF s(1)] s(2) show ?thesis by (auto simp: nth_Cons')
  qed
qed

lemma l2_scan_miss:
  "l2_scan now u d p (length es) cs pk = (cs', None, pk') \<Longrightarrow> pick_ok now es pk \<Longrightarrow>
    cs' = map (expire now) cs \<and> (\<forall>e \<in> set cs'. \<not> circuit_matches u d p e) \<and> pick_ok now (es @ cs') pk'"
proof (induction cs arbitrary: es pk cs' pk')
  case Nil
  then show ?case by simp
next
  case (Cons e cs)
  then have n: "\<not> circuit_matches u d p (expire now e)" by (auto simp: Let_def split: if_splits)
  with Cons.prems(1) obtain es1 where s: "l2_scan now u d p (length (es @ [expire now e])) cs
      (consider_slot now (length es) (expire now e) pk) = (es1, None, pk')" "cs' = expire now e # es1"
    by (auto simp: Let_def split: prod.splits)
  from Cons.IH [OF s(1) pick_ok_step [OF Cons.prems(2)]] s(2) n show ?case by auto
qed

lemma pick_ok_start: "pick_ok now [] l2_pick0"
  by (simp add: pick_ok_def l2_pick0_def pick_best_def)

text \<open>What one call of \<open>flex_l2_find\<close> does to the table.\<close>

lemma l2_find_cases:
  assumes "flex_l2_find now u d p create st = (r, st')"
  obtains (hit) cs pk i where "l2_scan now u d p 0 (circuits st) l2_pick0 = (cs, Some i, pk)" "r = Some i" "circuits st' = cs"
    | (none) "r = None" "circuits st' = map (expire now) (circuits st)"
        "\<forall>e \<in> set (circuits st'). \<not> circuit_matches u d p e"
        "create \<Longrightarrow> \<forall>e \<in> set (circuits st'). x_active e \<and> circuit_state now e = S_LIVE"
    | (new) i where "create" "r = Some i" "i < length (circuits st)"
        "\<forall>e \<in> set (map (expire now) (circuits st)). \<not> circuit_matches u d p e"
        "\<not> (x_active (map (expire now) (circuits st) ! i) \<and> circuit_state now (map (expire now) (circuits st) ! i) = S_LIVE)"
        "circuits st' = (map (expire now) (circuits st))[i := new_circuit now u d p]"
proof -
  obtain cs k pk where s: "l2_scan now u d p 0 (circuits st) l2_pick0 = (cs, k, pk)" by (metis prod_cases3)
  show ?thesis
  proof (cases k)
    case (Some i)
    with s assms show ?thesis by (intro hit [of cs i pk]) (auto simp: flex_l2_find_def)
  next
    case None
    have m: "cs = map (expire now) (circuits st)" "\<forall>e \<in> set cs. \<not> circuit_matches u d p e" "pick_ok now cs pk"
      using l2_scan_miss [of now u d p "[]" "circuits st" l2_pick0 cs pk] s None pick_ok_start by auto
    have live: "circuit_state now e = S_LIVE" if "e \<in> set cs" "x_active e" "circuit_state now e \<noteq> S_EVICTABLE" for e
      using that m(1) by (cases "circuit_state now e") (auto simp: expire_def split: if_splits)
    show ?thesis
    proof (cases "k_spare pk")
      case (Some i)
      then have "first_idx (\<lambda>e. \<not> x_active e) cs = Some i" using m(3) by (simp add: pick_ok_def)
      from first_idx_SomeD [OF this] have "i < length cs" "\<not> x_active (cs ! i)" by simp_all
      with Some s None assms m(1,2) show ?thesis
        by (cases create; intro none new [of i]) (auto simp: flex_l2_find_def)
    next
      case nospare: None
      then have "first_idx (\<lambda>e. \<not> x_active e) cs = None" using m(3) by (simp add: pick_ok_def)
      then have act: "\<forall>e \<in> set cs. x_active e" by (simp add: first_idx_None_iff)
      let ?b = "if k_closed pk \<noteq> None then k_closed pk else k_oldest pk"
      show ?thesis
      proof (cases ?b)
        case None
        then have "k_closed pk = None" "k_oldest pk = None" by (metis option.distinct(1))+
        then have "\<forall>e \<in> set cs. \<not> evictable now True e \<and> \<not> evictable now False e"
          using m(3) by (simp add: pick_ok_def pick_best_def)
        then have "\<forall>e \<in> set cs. x_active e \<and> circuit_state now e = S_LIVE"
          using act live by (auto simp: evictable_def)
        moreover have "flex_l2_find now u d p create st = (None, st\<lparr>circuits := cs\<rparr>)"
          using s \<open>k = None\<close> nospare \<open>k_closed pk = None\<close> \<open>k_oldest pk = None\<close> by (simp add: flex_l2_find_def)
        ultimately show ?thesis using assms m(1,2) by (intro none) auto
      next
        case (Some b)
        obtain i t where b: "b = (i, t)" by (cases b)
        have "i < length cs \<and> circuit_state now (cs ! i) = S_EVICTABLE"
          using Some b m(3) by (auto simp: pick_ok_def pick_best_def evictable_def split: if_splits)
        with nospare Some b s \<open>k = None\<close> assms m(1,2) show ?thesis
          by (cases create; intro none new [of i]) (auto simp: flex_l2_find_def)
      qed
    qed
  qed
qed

lemma expire_ok: "circuits_ok cs \<Longrightarrow> circuits_ok (map (expire now) cs)"
  by (erule circuits_ok_pointwise) (simp_all add: nth_map)

lemma new_circuit_no_clash:
  assumes "\<not> circuit_matches u d p e" "x_active e"
  shows "\<not> same_circuit (new_circuit now u d p) e"
  using assms by (auto simp: circuit_matches_def same_circuit_def new_circuit_def flex_l2_same_call_def)

lemma new_circuit_matches [simp]: "circuit_matches u d p (new_circuit now u d p)"
  by (simp add: circuit_matches_def new_circuit_def same_call_equiv)

lemma l2_find_ok:
  assumes "circuits_ok (circuits st)" "flex_l2_find now u d p create st = (r, st')"
  shows "circuits_ok (circuits st')" "length (circuits st') = FLEXNET_MAX_L2_TRANSIT"
    "r = Some i \<Longrightarrow> i < FLEXNET_MAX_L2_TRANSIT \<and> circuit_matches u d p (circuits st' ! i)"
proof -
  have len: "length (circuits st) = FLEXNET_MAX_L2_TRANSIT" using assms(1) by (simp add: circuits_ok_def)
  have all: "circuits_ok (circuits st') \<and> (\<forall>i. r = Some i \<longrightarrow> i < FLEXNET_MAX_L2_TRANSIT \<and> circuit_matches u d p (circuits st' ! i))"
    using assms(2)
  proof (cases rule: l2_find_cases)
    case (hit cs pk i)
    have "circuits_ok cs"
      by (rule circuits_ok_pointwise [OF assms(1) l2_scan_length [OF hit(1)]])
        (use l2_scan_nth [OF hit(1)] in \<open>fastforce simp: keeps_key_def expire_def\<close>)
    with l2_scan_hit [OF hit(1)] hit len show ?thesis by simp
  next
    case none
    with expire_ok [OF assms(1)] show ?thesis by simp
  next
    case (new i)
    have "circuits_ok ((map (expire now) (circuits st))[i := new_circuit now u d p])"
      by (rule circuits_ok_update [OF expire_ok [OF assms(1)]])
        (use new new_circuit_no_clash in \<open>auto simp: new_circuit_def l2_circuit0_def\<close>)
    with new len show ?thesis by simp
  qed
  then show "circuits_ok (circuits st')" "r = Some i \<Longrightarrow> i < FLEXNET_MAX_L2_TRANSIT \<and> circuit_matches u d p (circuits st' ! i)"
    by auto
  then show "length (circuits st') = FLEXNET_MAX_L2_TRANSIT" by (simp add: circuits_ok_def)
qed

text \<open>C20: asking for a circuit never costs a live one. Every circuit that was used within the last
  900 s and is not torn down is found unchanged afterwards; the circuit handed out belongs to the asked
  ends and port and is the only open one that does; and nothing is handed out only when all 128 slots
  hold live circuits of other connections.\<close>

theorem l2_find_spares_live:
  assumes "circuits_ok (circuits st)" "flex_l2_find now u d p True st = (r, st')"
  shows "circuits_ok (circuits st') \<and>
    (\<forall>i < FLEXNET_MAX_L2_TRANSIT. x_active (circuits st ! i) \<and> circuit_state now (circuits st ! i) = S_LIVE \<longrightarrow>
       circuits st' ! i = circuits st ! i) \<and>
    (case r of
       None \<Rightarrow> \<forall>e \<in> set (circuits st'). x_active e \<and> circuit_state now e = S_LIVE \<and> \<not> circuit_matches u d p e
     | Some i \<Rightarrow> i < FLEXNET_MAX_L2_TRANSIT \<and> circuit_matches u d p (circuits st' ! i) \<and>
         (\<forall>j < FLEXNET_MAX_L2_TRANSIT. circuit_matches u d p (circuits st' ! j) \<longrightarrow> j = i))"
proof -
  note ok = l2_find_ok [OF assms]
  have len: "length (circuits st) = FLEXNET_MAX_L2_TRANSIT" using assms(1) by (simp add: circuits_ok_def)
  have live: "expire now e = e" if "x_active e \<and> circuit_state now e = S_LIVE" for e using that by (simp add: expire_def)
  have keep: "circuits st' ! i = circuits st ! i"
    if i: "i < FLEXNET_MAX_L2_TRANSIT" "x_active (circuits st ! i) \<and> circuit_state now (circuits st ! i) = S_LIVE" for i
  proof -
    have e: "expire now (circuits st ! i) = circuits st ! i" using live [OF i(2)] .
    from assms(2) show ?thesis
    proof (cases rule: l2_find_cases)
      case (hit cs pk k)
      then show ?thesis using l2_scan_nth [OF hit(1), of i] i(1) len e by simp
    next
      case none
      then show ?thesis using i(1) len e by simp
    next
      case (new k)
      have "k \<noteq> i"
      proof
        assume "k = i"
        with new(5) i len e show False by simp
      qed
      then show ?thesis using new(6) i(1) len e by simp
    qed
  qed
  have none: "\<forall>e \<in> set (circuits st'). x_active e \<and> circuit_state now e = S_LIVE \<and> \<not> circuit_matches u d p e" if "r = None"
    using assms(2)
  proof (cases rule: l2_find_cases)
    case none
    then show ?thesis by blast
  qed (simp_all add: that)
  have uniq: "j = i" if "r = Some i" "j < FLEXNET_MAX_L2_TRANSIT" "circuit_matches u d p (circuits st' ! j)" for i j
  proof (rule ccontr)
    assume "j \<noteq> i"
    moreover have "same_circuit (circuits st' ! j) (circuits st' ! i)"
      using ok(3) [OF that(1)] that(3) by (auto simp: circuit_matches_def same_circuit_def flex_l2_same_call_def)
    ultimately show False using ok(1,2) ok(3) [OF that(1)] that by (auto simp: circuits_ok_def circuit_matches_def)
  qed
  show ?thesis
  proof (cases r)
    case None
    with ok(1) keep none show ?thesis by simp
  next
    case (Some i)
    then have "\<forall>j < FLEXNET_MAX_L2_TRANSIT. circuit_matches u d p (circuits st' ! j) \<longrightarrow> j = i" using uniq by blast
    with Some ok(1) ok(3) [OF Some] keep show ?thesis by simp
  qed
qed

lemma circuits_ok_start: "circuits_ok (circuits l2_state0)"
  by (simp add: circuits_ok_def l2_state0_def l2_circuit0_def)

theorem l2_find_spares_live_witness:
  "circuits_ok (circuits (snd (flex_l2_find 1000 (demo_call 0x80) (demo_call 0x82) 1 True l2_state0)))"
  using l2_find_spares_live [OF circuits_ok_start surjective_pairing] by blast

section \<open>The hook keeps the table and the frames well formed\<close>

lemma decline_circuits [simp]: "circuits (decline st) = circuits st"
  by (simp add: decline_def)

lemma choose_port_ok:
  assumes "circuits_ok (circuits st)" "flex_l2_choose_port ev port m our nd st = (p, st')"
  shows "circuits_ok (circuits st')"
proof -
  obtain r st1 where f: "flex_l2_find (e_now ev) (entry_at m 7) (entry_at m 0) (p_num port) False st = (r, st1)"
    by fastforce
  from l2_find_ok(1) [OF assms(1) f] assms show ?thesis
    by (auto simp: flex_l2_choose_port_def Let_def f split: if_splits)
qed

lemma send_from_ok:
  assumes "circuits_ok (circuits st)"
  shows "circuits_ok (circuits (o_st (send_from ev port our m nd st)))" "o_msg (send_from ev port our m nd st) = m"
    "\<exists>p. o_verdict (send_from ev port our m nd st) = L2Send our p" "o_node (send_from ev port our m nd st) = nd"
  using choose_port_ok [OF assms]
  by (cases "flex_l2_choose_port ev port m our nd st", auto simp: send_from_def)+

lemma leave_alone_out [simp]:
  "o_st (leave_alone our m nd st) = st" "o_msg (leave_alone our m nd st) = m"
  "o_verdict (leave_alone our m nd st) = L2Send our 0" "o_node (leave_alone our m nd st) = nd"
  by (simp_all add: leave_alone_def)

lemma resolve_hop_circuits [simp]: "circuits (snd (snd (flex_l2_resolve_hop ev ax s nd st))) = circuits st"
  by (simp add: flex_l2_resolve_hop_def Let_def split: option.split)

lemma resolve_hop_nexthop:
  assumes "flex_l2_resolve_hop ev ax s nd st = (HopVia nh hp, nd1, st1)" "length (sessions nd) = FLEXNET_MAX_SESSIONS"
  shows "nh \<in> peer_callsign ` set (sessions nd)" "\<not> flex_l2_same_call nh ax"
proof -
  have h: "sessions (heal_via ev di nd) = sessions nd" for di
    by (simp add: heal_via_def Let_def split: option.split)
  show "nh \<in> peer_callsign ` set (sessions nd)" "\<not> flex_l2_same_call nh ax" using assms
    by (auto simp: flex_l2_resolve_hop_def Let_def session_live_def h split: if_splits option.splits)
qed

lemma pick_hop_circuits:
  "flex_l2_pick_hop ev eo kind ax s nd st = (h, pinned, nd1, st1) \<Longrightarrow> circuits st1 = circuits st"
proof -
  assume p: "flex_l2_pick_hop ev eo kind ax s nd st = (h, pinned, nd1, st1)"
  have "circuits st1 = circuits st" if "flex_l2_resolve_hop ev ax s nd st = (h, nd1, st1)"
    using resolve_hop_circuits [of ev ax s nd st] that by simp
  with p show "circuits st1 = circuits st"
    by (cases eo) (auto simp: flex_l2_pick_hop_def Let_def split: if_splits prod.splits)
qed

text \<open>The addresses of the neighbours are full AX.25 addresses.\<close>

definition calls_ok :: "node \<Rightarrow> bool" where
  "calls_ok nd \<longleftrightarrow> length (sessions nd) = FLEXNET_MAX_SESSIONS \<and>
     (\<forall>s \<in> set (sessions nd). length (peer_callsign s) = 7)"

lemma pick_hop_length:
  assumes "flex_l2_pick_hop ev eo kind ax s nd st = (HopVia nh hp, pinned, nd1, st1)" "calls_ok nd"
    "\<And>e. eo = Some e \<Longrightarrow> length (x_appended e) = 7"
  shows "length nh = 7"
proof -
  have r: "length nh = 7" if "flex_l2_resolve_hop ev ax s nd st = (HopVia nh hp, nd1, st1)"
    using resolve_hop_nexthop(1) [OF that] assms(2) by (auto simp: calls_ok_def)
  show ?thesis using assms(1,3) r
    by (cases eo) (auto simp: flex_l2_pick_hop_def Let_def split: if_splits prod.splits)
qed

lemma contract_ok:
  assumes "flex_l2_contract ev port m our kind st = Some (our', m', st')" "circuits_ok (circuits st)"
  shows "circuits_ok (circuits st')"
proof -
  obtain i where i: "flex_l2_find_rev (e_now ev) (entry_at m 0) (entry_at m 7) (p_num port) (circuits st) = Some i"
    "st' = (upd_circuit i (\<lambda>e. flex_l2_note_ctl (e\<lparr>x_last_used := e_now ev\<rparr>) kind (e_now ev)) st)
        \<lparr>fwd_contracted := fwd_contracted st + 1\<rparr>"
    using assms(1) by (auto simp: flex_l2_contract_def Let_def split: option.splits if_splits)
  have "i < length (circuits st)" using i(1) first_idx_less by (fastforce simp: flex_l2_find_rev_def)
  then have "circuits_ok (circuits (upd_circuit i (\<lambda>e. flex_l2_note_ctl (e\<lparr>x_last_used := e_now ev\<rparr>) kind (e_now ev)) st))"
    by (rule upd_circuit_ok [OF assms(2)]) (simp, simp add: keeps_key_def)
  with i(2) show ?thesis by simp
qed

lemma take_circuit_ok:
  assumes "circuits_ok (circuits st)" "\<forall>i. ei = Some i \<longrightarrow> i < FLEXNET_MAX_L2_TRANSIT"
    "(case ei of Some i \<Rightarrow> (Some i, st) | None \<Rightarrow> flex_l2_find now u d p True st) = (r, st1)"
  shows "circuits_ok (circuits st1)" "r = Some i \<Longrightarrow> i < length (circuits st1)"
proof -
  have l: "length (circuits st) = FLEXNET_MAX_L2_TRANSIT" using assms(1) by (simp add: circuits_ok_def)
  show "circuits_ok (circuits st1)" "r = Some i \<Longrightarrow> i < length (circuits st1)"
    using assms l l2_find_ok [OF assms(1)] by (auto split: option.splits)
qed

lemma note_adjacent_ok:
  assumes "circuits_ok (circuits st)" "\<forall>i. ei = Some i \<longrightarrow> i < FLEXNET_MAX_L2_TRANSIT"
  shows "circuits_ok (circuits (flex_l2_note_adjacent ev arrive m ei hp kind st))"
proof -
  obtain r st1 where t: "(case ei of Some i \<Rightarrow> (Some i, st)
      | None \<Rightarrow> flex_l2_find (e_now ev) (entry_at m 7) (entry_at m 0) arrive True st) = (r, st1)" by fastforce
  note k = take_circuit_ok [OF assms t]
  show ?thesis
  proof (cases r)
    case None
    with k t show ?thesis by (simp add: flex_l2_note_adjacent_def)
  next
    case (Some i)
    show ?thesis unfolding flex_l2_note_adjacent_def t Some prod.case option.case
      by (rule upd_circuit_ok [OF k(1) k(2) [OF Some]]) (simp, simp add: keeps_key_def)
  qed
qed

lemma extend_ok:
  assumes "circuits_ok (circuits st)" "\<forall>i. ei = Some i \<longrightarrow> i < FLEXNET_MAX_L2_TRANSIT" "length nh = 7"
    "flex_l2_extend ev port m ei nh pinned hp kind st = (b, m', st')"
  shows "circuits_ok (circuits st')" "if b then flex_l2_append_digi m nh = Some m' else m' = m"
proof -
  obtain r st1 where t: "(case ei of Some i \<Rightarrow> (Some i, st)
      | None \<Rightarrow> flex_l2_find (e_now ev) (entry_at m 7) (entry_at m 0) (p_num port) True st) = (r, st1)" by fastforce
  note k = take_circuit_ok [OF assms(1,2) t]
  have "circuits_ok (circuits st') \<and> (if b then flex_l2_append_digi m nh = Some m' else m' = m)"
  proof (cases r)
    case None
    with k t assms(4) show ?thesis by (auto simp: flex_l2_extend_def)
  next
    case (Some i)
    note u = upd_circuit_ok [OF k(1) k(2) [OF Some]]
    show ?thesis
    proof (cases "flex_l2_append_digi m nh")
      case None
      have "circuits_ok (circuits (upd_circuit i (\<lambda>e. e\<lparr>x_active := False\<rparr>) st1))"
        by (rule u) (simp add: keeps_key_def)
      with None t Some k assms(4) show ?thesis by (auto simp: flex_l2_extend_def Let_def)
    next
      case a: (Some m1)
      have "circuits_ok (circuits (upd_circuit i (\<lambda>e. flex_l2_note_ctl ((pin_hop pinned fresh nh hp e)
          \<lparr>x_last_used := e_now ev\<rparr>) kind (e_now ev)) st1))" for fresh
        by (rule u) (simp, simp add: keeps_key_def pin_hop_def Let_def assms(3))
      with a t Some k assms(4) show ?thesis by (auto simp: flex_l2_extend_def Let_def)
    qed
  qed
  then show "circuits_ok (circuits st')" "if b then flex_l2_append_digi m nh = Some m' else m' = m" by auto
qed

lemma frame_entry_inner:
  assumes "frame_is m as t" "k + 1 < length as"
  shows "entry_at m (7 * k) = as ! k"
proof -
  have "k < length as" "k \<noteq> length as - 1" using assms(2) by linarith+
  then show ?thesis using frame_entry [OF assms(1), of k] mark_end_nth [of k as] by presburger
qed

lemma frame_self_repeated:
  assumes f: "frame_is m as t" and j: "2 \<le> j" "j < length as" and s: "flex_l2_self_repeated m (7 * j)"
  shows "\<exists>k. 2 \<le> k \<and> k < j \<and> (as ! k ! 6) AND 0x80 \<noteq> 0 \<and> flex_l2_same_call (as ! k) (as ! j)"
proof -
  have "(7 * j - 14) div 7 = j - 2" using j(1) by (simp add: diff_mult_distrib2 [of 7 j 2, symmetric])
  then obtain i where i: "i < j - 2" "(m_buf m ! (14 + 7 * i + 6)) AND 0x80 \<noteq> 0"
    "flex_l2_same_call (entry_at m (14 + 7 * i)) (entry_at m (7 * j))"
    using s by (auto simp: flex_l2_self_repeated_def list_ex_iff)
  have e: "14 + 7 * i = 7 * (i + 2)" by simp
  have k: "i + 2 < length as" "i + 2 + 1 < length as" using i(1) j by linarith+
  have b: "m_buf m ! (7 * (i + 2) + 6) = as ! (i + 2) ! 6"
    using frame_byte6 [OF f k(1)] frame_entry [OF f k(1)] frame_entry_inner [OF f k(2)] by metis
  have c: "flex_l2_same_call (as ! j) (as ! (i + 2))"
    using i(3) frame_same_call [OF f j(2), of "entry_at m (7 * (i + 2))"] frame_entry_inner [OF f k(2)]
      same_call_equiv(2) unfolding e by metis
  show ?thesis using i b c same_call_equiv(2) [OF c] unfolding e by (intro exI [of _ "i + 2"]) simp
qed

text \<open>The table says that entry \<open>k\<close> of the returning frame is a hop this node put there.\<close>

definition recorded_hop :: "l2_state \<Rightarrow> byte list list \<Rightarrow> nat \<Rightarrow> bool" where
  "recorded_hop st as k \<longleftrightarrow> (as ! k ! 6) AND 0x80 \<noteq> 0 \<and>
     (\<exists>e \<in> set (circuits st). x_active e \<and> flex_l2_same_call (x_user e) (as ! 0) \<and>
        flex_l2_same_call (x_dest e) (as ! 1) \<and>
        (pinned_call (x_appended e) \<and> flex_l2_same_call (as ! k) (x_appended e) \<or>
         pinned_call (x_prev e) \<and> flex_l2_same_call (as ! k) (x_prev e)))"

lemma contract_frame:
  assumes f: "frame_is m as t" and j: "3 \<le> j" "j < length as"
    and c: "flex_l2_contract ev port m (7 * j) kind st = Some (our', m', st')"
  shows "our' = 7 * (j - 1) \<and> recorded_hop st as (j - 1) \<and> frame_is m' (without (j - 1) as) t"
proof -
  have o: "7 * j - 7 = 7 * (j - 1)" using j by (simp add: diff_mult_distrib2)
  have e: "entry_at m 0 = as ! 0" "entry_at m 7 = as ! 1" "entry_at m (7 * (j - 1)) = as ! (j - 1)"
    using frame_entry_inner [OF f, of 0] frame_entry_inner [OF f, of 1] frame_entry_inner [OF f, of "j - 1"] j by simp_all
  obtain i where i: "flex_l2_find_rev (e_now ev) (as ! 0) (as ! 1) (p_num port) (circuits st) = Some i"
    "flex_l2_is_our_hop (circuits st ! i) (as ! (j - 1))" "flex_l2_remove_digi m (7 * (j - 1)) = Some m'" "our' = 7 * j - 7"
    using c unfolding flex_l2_contract_def Let_def o e by (auto split: option.splits if_splits)
  have "i < length (circuits st)" "x_active (circuits st ! i)" "flex_l2_same_call (x_user (circuits st ! i)) (as ! 0)"
    "flex_l2_same_call (x_dest (circuits st ! i)) (as ! 1)"
    using i(1) first_idx_SomeD by (fastforce simp: flex_l2_find_rev_def)+
  then have "recorded_hop st as (j - 1)" using i(2)
    by (auto simp: recorded_hop_def flex_l2_is_our_hop_def split: if_splits intro!: bexI [of _ "circuits st ! i"])
  moreover have "frame_is m' (without (j - 1) as) t"
    using remove_digi_frame [OF f, of "j - 1"] j i(3) by auto
  ultimately show ?thesis using i(4) o by simp
qed

text \<open>The three things the hook may do to a frame whose entry \<open>j\<close> is ours.\<close>

definition extended_frame :: "l2_msg \<Rightarrow> byte list list \<Rightarrow> byte list \<Rightarrow> nat \<Rightarrow> l2_msg \<Rightarrow> bool" where
  "extended_frame m as t j m' \<longleftrightarrow> j = length as - 1 \<and> length as \<le> 9 \<and>
     (\<exists>h. length h = 7 \<and> (\<forall>a \<in> set as. \<not> flex_l2_same_call a h) \<and> frame_is m' (as @ [hop_entry h]) t)"

lemma forward_frame:
  assumes f: "frame_is m as t" and j: "j = length as - 1" and ok: "circuits_ok (circuits st)"
    and ei: "\<forall>i. ei = Some i \<longrightarrow> i < FLEXNET_MAX_L2_TRANSIT" and nh: "length nh = 7"
  shows "circuits_ok (circuits (o_st (l2_forward ev port m our ei nh pinned hp kind nd st))) \<and>
    (\<exists>p. o_verdict (l2_forward ev port m our ei nh pinned hp kind nd st) = L2Send our p) \<and>
    (o_msg (l2_forward ev port m our ei nh pinned hp kind nd st) = m \<or>
     extended_frame m as t j (o_msg (l2_forward ev port m our ei nh pinned hp kind nd st)))"
proof (cases "flex_l2_call_in_chain m nh \<or> (hp \<noteq> p_num port \<and> \<not> flex_crossport_active nd) \<or>
    flex_l2_digi_count m \<ge> digi_cap port")
  case True
  then show ?thesis using ok by (auto simp: l2_forward_def)
next
  case False
  obtain b m1 st1 where x: "flex_l2_extend ev port m ei nh pinned hp kind st = (b, m1, st1)" by (metis prod_cases3)
  note e = extend_ok [OF ok ei nh x]
  have cap: "digi_cap port \<le> 8" by (simp add: digi_cap_def FLEXNET_L2_MAX_DIGIS_def)
  then have n: "length as \<le> 9" using False frame_digi_count [OF f] by linarith
  have g: "l2_forward ev port m our ei nh pinned hp kind nd st =
      (if b then send_from ev port our m1 nd st1 else leave_alone our m1 nd st1)"
    using False x by (auto simp: l2_forward_def split: bool.splits)
  show ?thesis
  proof (cases b)
    case True
    then have a: "flex_l2_append_digi m nh = Some m1" using e(2) by simp
    then have "frame_is m1 (as @ [hop_entry nh]) t"
      using append_digi_frame [OF f n, of nh] nh by (auto split: if_splits)
    moreover have "\<forall>a \<in> set as. \<not> flex_l2_same_call a nh" using False frame_in_chain [OF f] by simp
    ultimately have "extended_frame m as t j m1" using n j nh by (auto simp: extended_frame_def)
    with True g e(1) show ?thesis by (simp add: send_from_ok)
  next
    case False
    with g e show ?thesis by simp
  qed
qed

text \<open>What the hook did, as a relation between the frame before and the result.\<close>

definition transit_result :: "l2_state \<Rightarrow> l2_msg \<Rightarrow> byte list list \<Rightarrow> byte list \<Rightarrow> nat \<Rightarrow> l2_out \<Rightarrow> bool" where
  "transit_result st m as t j out = (case o_verdict out of
     L2Drop \<Rightarrow> o_msg out = m \<and> j = length as - 1 \<and>
       (\<exists>k. 2 \<le> k \<and> k < j \<and> (as ! k ! 6) AND 0x80 \<noteq> 0 \<and> flex_l2_same_call (as ! k) (as ! j))
   | L2Send our' p \<Rightarrow>
       our' = 7 * j \<and> (o_msg out = m \<or> extended_frame m as t j (o_msg out)) \<or>
       3 \<le> j \<and> our' = 7 * (j - 1) \<and> recorded_hop st as (j - 1) \<and> frame_is (o_msg out) (without (j - 1) as) t)"

lemma outbound_frame:
  assumes f: "frame_is m as t" and j: "2 \<le> j" "j = length as - 1" and ok: "circuits_ok (circuits st)" and c: "calls_ok nd"
  shows "circuits_ok (circuits (o_st (l2_outbound ev port m (7 * j) kind nd st))) \<and>
    transit_result st0 m as t j (l2_outbound ev port m (7 * j) kind nd st)"
proof -
  obtain ei st1 where fd: "flex_l2_find (e_now ev) (entry_at m 7) (entry_at m 0) (p_num port) False st = (ei, st1)"
    by fastforce
  note k = l2_find_ok [OF ok fd]
  have ei: "\<forall>i. ei = Some i \<longrightarrow> i < FLEXNET_MAX_L2_TRANSIT" using k(3) by blast
  have jl: "j < length as" using j by linarith
  show ?thesis
  proof (cases "ei \<noteq> None \<and> flex_l2_self_repeated m (7 * j)")
    case True
    then show ?thesis using frame_self_repeated [OF f j(1) jl] fd k(1) j(2)
      by (simp add: l2_outbound_def transit_result_def)
  next
    case False
    let ?eo = "map_option (\<lambda>i. circuits st1 ! i) ei"
    obtain h pinned nd1 st2 where ph: "flex_l2_pick_hop ev ?eo kind (entry_at m 0) (l2_call ev (entry_at m 0)) nd st1 =
        (h, pinned, nd1, st2)" by (metis prod_cases4)
    have c2: "circuits_ok (circuits st2)" using pick_hop_circuits [OF ph] k(1) by simp
    have out: "l2_outbound ev port m (7 * j) kind nd st = (case h of
        HopDeclined \<Rightarrow> send_from ev port (7 * j) m nd1 st2
      | HopAdjacent hp \<Rightarrow> send_from ev port (7 * j) m nd1
          (if hp \<noteq> 0 \<and> hp \<noteq> p_num port \<and> (flex_crossport_active nd1 \<or> flex_l2_external_port ev nd1 (entry_at m 0) \<noteq> 0)
           then flex_l2_note_adjacent ev (p_num port) m ei hp kind st2 else st2)
      | HopVia nh hp \<Rightarrow> l2_forward ev port m (7 * j) ei nh pinned hp kind nd1 st2)"
      unfolding l2_outbound_def fd prod.case if_not_P [OF False] ph by (rule refl)
    have send: "circuits_ok (circuits (o_st (send_from ev port (7 * j) m nd1 st3))) \<and>
        transit_result st0 m as t j (send_from ev port (7 * j) m nd1 st3)" if "circuits_ok (circuits st3)" for st3
      using send_from_ok [OF that, of ev port "7 * j" m nd1] by (auto simp: transit_result_def)
    show ?thesis
    proof (cases h)
      case HopDeclined
      then show ?thesis using send [OF c2] by (simp add: out)
    next
      case (HopAdjacent hp)
      then show ?thesis using send [OF c2] send [OF note_adjacent_ok [OF c2 ei]] by (simp add: out)
    next
      case (HopVia nh hp)
      have "length (x_appended e) = 7" if "?eo = Some e" for e
        using that k by (auto simp: circuits_ok_def)
      then have nh: "length nh = 7" using pick_hop_length ph c HopVia by blast
      have o: "l2_outbound ev port m (7 * j) kind nd st = l2_forward ev port m (7 * j) ei nh pinned hp kind nd1 st2"
        by (simp add: out HopVia)
      show ?thesis unfolding o using forward_frame [OF f j(2) c2 ei nh, of ev port "7 * j" pinned hp kind nd1]
        by (auto simp: transit_result_def)
    qed
  qed
qed

lemma transit_frame:
  assumes "frame_is m as t" "2 \<le> j" "j < length as" "circuits_ok (circuits st)" "calls_ok nd"
    and "out = FlexNet_L2Transit ev port m (7 * j) nd st"
  shows "circuits_ok (circuits (o_st out)) \<and> transit_result st m as t j out"
proof -
  have alone: "circuits_ok (circuits (o_st (leave_alone (7 * j) m nd st))) \<and>
      transit_result st m as t j (leave_alone (7 * j) m nd st)"
    using assms(4) by (simp add: transit_result_def)
  let ?l = "7 * (length as - 1)"
  let ?kind = "flex_l2_ctl_kind (m_buf m ! (?l + 7))"
  let ?c = "if 7 * j \<ge> 21 then flex_l2_contract ev port m (7 * j) ?kind st else None"
  have last: "flex_l2_addr_last m = Some ?l" by (rule frame_addr_last [OF assms(1)])
  have eb: "end_bit m (7 * j) \<longleftrightarrow> j = length as - 1" by (rule frame_end_bit [OF assms(1,3)])
  show ?thesis
  proof (cases "l2_not_ours ev port m (7 * j) nd \<or> int ?l + 8 > m_len m")
    case True
    then show ?thesis using alone last assms(6) by (auto simp: FlexNet_L2Transit_def)
  next
    case False
    then have out: "out = (case ?c of
        Some (our1, m1, st1) \<Rightarrow> send_from ev port our1 m1 nd st1
      | None \<Rightarrow> if \<not> end_bit m (7 * j) then send_from ev port (7 * j) m nd st
               else l2_outbound ev port m (7 * j) ?kind nd st)"
    proof -
      have n: "\<not> l2_not_ours ev port m (7 * j) nd" "\<not> int ?l + 8 > m_len m" using False by blast+
      show ?thesis unfolding assms(6) FlexNet_L2Transit_def if_not_P [OF n(1)] last option.case if_not_P [OF n(2)] Let_def
        by (rule refl)
    qed
    show ?thesis
    proof (cases ?c)
      case None
      show ?thesis
      proof (cases "end_bit m (7 * j)")
        case True
        then show ?thesis using None out eb outbound_frame [OF assms(1,2) _ assms(4,5)] by simp
      next
        case no_end: False
        then have o: "out = send_from ev port (7 * j) m nd st" using None out by simp
        show ?thesis unfolding o using send_from_ok [OF assms(4), of ev port "7 * j" m nd]
          by (auto simp: transit_result_def)
      qed
    next
      case (Some r)
      obtain our1 m1 st1 where r: "r = (our1, m1, st1)" by (cases r)
      have j3: "3 \<le> j" and cn: "flex_l2_contract ev port m (7 * j) ?kind st = Some (our1, m1, st1)"
        using Some r by (auto split: if_splits)
      have "transit_result st m as t j (send_from ev port our1 m1 nd st1)"
        using contract_frame [OF assms(1) j3 assms(3) cn] send_from_ok [OF contract_ok [OF cn assms(4)], of ev port our1 m1 nd] j3
        by (auto simp: transit_result_def)
      then show ?thesis using out Some r send_from_ok(1) [OF contract_ok [OF cn assms(4)]] by simp
    qed
  qed
qed

section \<open>A connection through this node\<close>

definition l2_demo_node :: node where
  "l2_demo_node = demo_node_row\<lparr>sessions := (demo_session 0)\<lparr>peer_callsign := demo_call 0x86\<rparr> #
     replicate 7 (session0\<lparr>peer_callsign := demo_call 0x88\<rparr>), dests := [demo_row\<lparr>d_via_session_idx := 0\<rparr>]\<rparr>"

definition l2_demo_env :: env where
  "l2_demo_env = \<lparr>e_now = 1000, e_ticks = 0, e_mycall = demo_call 0x84, e_alias = ''NODE  '',
     e_conv = (\<lambda>ax. if hd ax = 0x80 then ''DB0FAA'' else if hd ax = 0x86 then ''IW2OHX-14'' else ''IR2UFV''),
     e_getbuff = (\<lambda>n. True), e_ports = (\<lambda>p. Some \<lparr>PORTTYPE = 0, PORTMAXDIGIS = 8, PORTT1 = 30, PORTWINDOW = 4, PORTCALL = demo_call 0x84\<rparr>),
     e_axip = [(1, [\<lparr>arp_call = demo_call 0x82, arp_flex = True, arp_opts = 0\<rparr>])], e_cmp = flex_l2_same_call,
     e_cache_lines = None, e_cache_write = True,
     e_schar = True, e_cfg = None, e_appls = [], e_toax25 = (\<lambda>s. None)\<rparr>"

definition l2_demo_port :: l2_port where
  "l2_demo_port = \<lparr>p_num = 1, p_digiflag = 1, p_maxdigis = 8\<rparr>"

definition l2_demo_msg :: l2_msg where
  "l2_demo_msg = demo_frame [demo_call 0x80, demo_call 0x82, demo_call 0x84] [0x3F]"

lemma l2_demo_calls: "calls_ok l2_demo_node"
  by (simp add: calls_ok_def l2_demo_node_def FLEXNET_MAX_SESSIONS_def demo_call_def)

text \<open>C19: what the hook may do to a stranger's frame. For every well-formed frame that names this node
  as one of its digipeaters, DEST, ORIGIN, control byte and information are left alone, and the chain
  is either untouched, or extended by one hop that was not in it yet, which happens only when we are
  the last entry, the chain has at most seven digipeaters and the frame has room, or shortened by the
  entry just before ours, which happens only when that entry is repeated and the circuit table records
  it as a hop we appended for this very connection. A frame is dropped only when it has already been
  repeated by this node. Along the way the circuit table keeps one entry per connection.\<close>

theorem transit_rewrites_only_its_hops:
  assumes "frame_is m as t" "2 \<le> j" "j < length as" "circuits_ok (circuits st)" "calls_ok nd"
    and "out = FlexNet_L2Transit ev port m (7 * j) nd st"
  shows "circuits_ok (circuits (o_st out)) \<and> transit_result st m as t j out"
  using assms by (rule transit_frame)

theorem transit_rewrites_only_its_hops_witness:
  "circuits_ok (circuits (o_st (FlexNet_L2Transit l2_demo_env l2_demo_port l2_demo_msg (7 * 2) l2_demo_node l2_state0))) \<and>
   transit_result l2_state0 l2_demo_msg [demo_call 0x80, demo_call 0x82, demo_call 0x84] [0x3F] 2
     (FlexNet_L2Transit l2_demo_env l2_demo_port l2_demo_msg (7 * 2) l2_demo_node l2_state0)"
  by (rule transit_rewrites_only_its_hops [OF demo_chain_is [folded l2_demo_msg_def] _ _ circuits_ok_start l2_demo_calls refl])
    simp_all

lemma l2_demo_extends:
  "m_len (o_msg (FlexNet_L2Transit l2_demo_env l2_demo_port l2_demo_msg 14 l2_demo_node l2_state0)) = 29"
  by code_simp

text \<open>The circuit the frame belongs to, after it was extended.\<close>

lemma extend_circuit:
  assumes ok: "circuits_ok (circuits st)"
    and f: "\<And>i. ei = Some i \<Longrightarrow> i < FLEXNET_MAX_L2_TRANSIT \<and> circuit_matches u d (p_num port) (circuits st ! i)"
    and ud: "u = entry_at m 7" "d = entry_at m 0"
    and x: "flex_l2_extend ev port m ei nh pinned hp kind st = (True, m', st')"
    and pin: "pinned \<Longrightarrow> \<exists>i. ei = Some i \<and> x_appended (circuits st ! i) = nh \<and> flex_l2_out_eff (circuits st ! i) = hp"
  shows "\<exists>i < length (circuits st'). circuit_matches u d (p_num port) (circuits st' ! i) \<and>
    x_appended (circuits st' ! i) = nh \<and>
    flex_l2_out_eff (circuits st' ! i) = (if hp \<noteq> 0 then hp else p_num port)"
proof -
  obtain r st1 where t: "(case ei of Some i \<Rightarrow> (Some i, st)
      | None \<Rightarrow> flex_l2_find (e_now ev) (entry_at m 7) (entry_at m 0) (p_num port) True st) = (r, st1)" by fastforce
  obtain i m1 where i: "r = Some i" "flex_l2_append_digi m nh = Some m1"
    and st': "circuits st' = circuits (upd_circuit i (\<lambda>e. flex_l2_note_ctl ((pin_hop pinned
        (ei = None \<or> \<not> pinned_call (x_appended (circuits st1 ! i))) nh hp e)\<lparr>x_last_used := e_now ev\<rparr>) kind (e_now ev)) st1)"
    using x t by (auto simp: flex_l2_extend_def Let_def split: option.splits prod.splits)
  have mt: "i < FLEXNET_MAX_L2_TRANSIT \<and> circuit_matches u d (p_num port) (circuits st1 ! i) \<and> circuits_ok (circuits st1)"
  proof (cases ei)
    case None
    then have "flex_l2_find (e_now ev) u d (p_num port) True st = (Some i, st1)" using t i ud by simp
    from l2_find_ok [OF ok this] show ?thesis by simp
  next
    case (Some k)
    with t i have "k = i" "st1 = st" by auto
    with Some f ok show ?thesis by simp
  qed
  then have il: "i < length (circuits st1)" by (simp add: circuits_ok_def)
  let ?fresh = "ei = None \<or> \<not> pinned_call (x_appended (circuits st1 ! i))"
  define e where "e = pin_hop pinned ?fresh nh hp (circuits st1 ! i)"
  have e: "x_appended e = nh" "flex_l2_out_eff e = (if hp \<noteq> 0 then hp else p_num port)"
    "circuit_matches u d (p_num port) e"
  proof -
    have p: "x_appended (circuits st1 ! i) = nh \<and> flex_l2_out_eff (circuits st1 ! i) = hp" if "pinned"
      using pin [OF that] t i by auto
    have "p_num port = x_port (circuits st1 ! i)" using mt by (simp add: circuit_matches_def)
    with p show "x_appended e = nh" "flex_l2_out_eff e = (if hp \<noteq> 0 then hp else p_num port)"
      "circuit_matches u d (p_num port) e"
      using mt by (auto simp: e_def pin_hop_def Let_def circuit_matches_def flex_l2_out_eff_def)
  qed
  have n: "x_appended (flex_l2_note_ctl f k now) = x_appended f" "flex_l2_out_eff (flex_l2_note_ctl f k now) = flex_l2_out_eff f"
    "circuit_matches u d p (flex_l2_note_ctl f k now) = circuit_matches u d p f" for f k now p
    by (cases k; simp add: flex_l2_out_eff_def circuit_matches_def)+
  have c: "circuits st' ! i = flex_l2_note_ctl (e\<lparr>x_last_used := e_now ev\<rparr>) kind (e_now ev)" "i < length (circuits st')"
    using il by (simp_all add: st' upd_circuit_def e_def)
  have lu: "circuit_matches u d (p_num port) (e\<lparr>x_last_used := e_now ev\<rparr>)"
    "flex_l2_out_eff (e\<lparr>x_last_used := e_now ev\<rparr>) = flex_l2_out_eff e"
    using e(3) by (simp_all add: circuit_matches_def flex_l2_out_eff_def)
  have "circuit_matches u d (p_num port) (circuits st' ! i)" using lu(1) by (simp add: c(1) n)
  moreover have "flex_l2_out_eff (circuits st' ! i) = (if hp \<noteq> 0 then hp else p_num port)"
    using e(2) lu(2) by (simp add: c(1) n)
  ultimately show ?thesis using c(2) e(1) by (auto simp: c(1) n)
qed

end
