(* ===== verification/Flex_L2_Circuit.thy ===== *)
theory Flex_L2_Circuit
  imports Flex_L2_Props
begin

unbundle bit_operations_syntax

text \<open>
  Circuits over time: the answer to an extended frame finds the circuit and loses the hop again; a
  circuit is torn down exactly when the control frames seen on it say so.
\<close>

section \<open>The answer to an extended frame\<close>

lemma pick_hop_pinned:
  assumes "flex_l2_pick_hop ev eo kind ax s nd st = (HopVia nh hp, True, nd1, st1)"
  obtains e where "eo = Some e" "x_appended e = nh" "flex_l2_out_eff e = hp"
  using assms by (cases eo) (auto simp: flex_l2_pick_hop_def Let_def split: if_splits prod.splits)

lemma find_rev_unique:
  assumes i: "i < length cs" "circuit_matches u d p (cs ! i)" "circuit_state now (cs ! i) \<noteq> S_EXPIRED"
      "flex_l2_out_eff (cs ! i) = q"
    and only: "\<And>e. e \<in> set cs \<Longrightarrow> x_active e \<Longrightarrow> flex_l2_same_call (x_user e) u \<Longrightarrow>
      flex_l2_same_call (x_dest e) d \<Longrightarrow> x_port e = p"
    and ok: "circuits_ok cs" and ends: "flex_l2_same_call u u'" "flex_l2_same_call d d'"
  shows "flex_l2_find_rev now u' d' q cs = Some i"
  unfolding flex_l2_find_rev_def
proof (rule first_idx_eqI)
  show "x_active (cs ! i) \<and> circuit_state now (cs ! i) \<noteq> S_EXPIRED \<and> flex_l2_same_call (x_user (cs ! i)) u' \<and>
      flex_l2_same_call (x_dest (cs ! i)) d' \<and>
      (flex_l2_out_eff (cs ! i) = q \<or> pinned_call (x_prev (cs ! i)) \<and> x_prev_out (cs ! i) = q)"
    using i ends by (auto simp: circuit_matches_def intro: same_call_equiv(3))
  fix j assume j: "j < i"
  show "\<not> (x_active (cs ! j) \<and> circuit_state now (cs ! j) \<noteq> S_EXPIRED \<and> flex_l2_same_call (x_user (cs ! j)) u' \<and>
      flex_l2_same_call (x_dest (cs ! j)) d' \<and>
      (flex_l2_out_eff (cs ! j) = q \<or> pinned_call (x_prev (cs ! j)) \<and> x_prev_out (cs ! j) = q))"
  proof
    assume a: "x_active (cs ! j) \<and> circuit_state now (cs ! j) \<noteq> S_EXPIRED \<and> flex_l2_same_call (x_user (cs ! j)) u' \<and>
      flex_l2_same_call (x_dest (cs ! j)) d' \<and>
      (flex_l2_out_eff (cs ! j) = q \<or> pinned_call (x_prev (cs ! j)) \<and> x_prev_out (cs ! j) = q)"
    then have m: "flex_l2_same_call (x_user (cs ! j)) u" "flex_l2_same_call (x_dest (cs ! j)) d"
      using ends same_call_equiv(2,3) by blast+
    have "x_port (cs ! j) = p" using only [of "cs ! j"] a m j i(1) by simp
    then have "same_circuit (cs ! j) (cs ! i)" using m i(2)
      by (auto simp: same_circuit_def circuit_matches_def intro: same_call_equiv(2,3))
    moreover have "x_active (cs ! i)" "x_active (cs ! j)" using i(2) a by (simp_all add: circuit_matches_def)
    ultimately show False using ok j i(1) by (auto simp: circuits_ok_def)
  qed
qed (rule i(1))

lemma contract_recorded:
  assumes f: "frame_is r bs t" and j: "3 \<le> j" "j < length bs"
    and i: "flex_l2_find_rev (e_now ev) (bs ! 0) (bs ! 1) (p_num port) (circuits st) = Some i"
    and hop: "flex_l2_same_call (bs ! (j - 1)) (x_appended (circuits st ! i))" "pinned_call (x_appended (circuits st ! i))"
      "(bs ! (j - 1) ! 6) AND 0x80 \<noteq> 0"
  shows "\<exists>r1 st1. flex_l2_contract ev port r (7 * j) kind st = Some (7 * (j - 1), r1, st1) \<and>
    frame_is r1 (without (j - 1) bs) t"
proof -
  have o: "7 * j - 7 = 7 * (j - 1)" using j by (simp add: diff_mult_distrib2)
  have e: "entry_at r 0 = bs ! 0" "entry_at r 7 = bs ! 1" "entry_at r (7 * (j - 1)) = bs ! (j - 1)"
    using frame_entry_inner [OF f, of 0] frame_entry_inner [OF f, of 1] frame_entry_inner [OF f, of "j - 1"] j by simp_all
  obtain r1 where r1: "flex_l2_remove_digi r (7 * (j - 1)) = Some r1" "frame_is r1 (without (j - 1) bs) t"
  proof -
    have "2 \<le> j - 1" "j - 1 < length bs" using j by linarith+
    from remove_digi_frame [OF f this] show ?thesis using that by blast
  qed
  have "flex_l2_is_our_hop (circuits st ! i) (bs ! (j - 1))" using hop by (simp add: flex_l2_is_our_hop_def)
  with i r1 show ?thesis unfolding flex_l2_contract_def Let_def o e by simp
qed

text \<open>C23: the way back is the way out. When a frame was extended with the neighbour's address and the
  answer comes back on the port the frame left by, with the ends swapped and that neighbour as the entry
  before ours, marked as repeated, the hook finds the circuit and takes exactly that entry out, so that
  the caller sees the chain it sent. The circuit must not have expired, and there must be no open circuit
  of the same ends that arrives on another port.\<close>

theorem answer_loses_the_hop:
  assumes ok: "circuits_ok (circuits st0)"
    and f: "flex_l2_find (e_now ev) (entry_at m 7) (entry_at m 0) (p_num port) False st0 = (ei, st)"
    and pick: "flex_l2_pick_hop ev (map_option (\<lambda>i. circuits st ! i) ei) kind (entry_at m 0) s nd st =
      (HopVia nh hp, pinned, nd1, st1)"
    and x: "flex_l2_extend ev port m ei nh pinned hp kind st1 = (True, m', st')" and nh: "length nh = 7" "pinned_call nh"
    and only: "\<forall>e \<in> set (circuits st'). x_active e \<and> flex_l2_same_call (x_user e) (entry_at m 7) \<and>
      flex_l2_same_call (x_dest e) (entry_at m 0) \<longrightarrow>
      x_port e = p_num port \<and> circuit_state (e_now ev') e \<noteq> S_EXPIRED"
    and r: "frame_is r bs t" "3 \<le> j" "j < length bs" "flex_l2_same_call (entry_at m 7) (bs ! 0)"
      "flex_l2_same_call (entry_at m 0) (bs ! 1)" "flex_l2_same_call (bs ! (j - 1)) nh" "(bs ! (j - 1) ! 6) AND 0x80 \<noteq> 0"
    and port': "p_num port' = (if hp \<noteq> 0 then hp else p_num port)"
  shows "\<exists>r1 st2. flex_l2_contract ev' port' r (7 * j) kind' st' = Some (7 * (j - 1), r1, st2) \<and>
    frame_is r1 (without (j - 1) bs) t"
proof -
  have c1: "circuits st1 = circuits st" using pick_hop_circuits [OF pick] .
  note fo = l2_find_ok [OF ok f]
  have ok1: "circuits_ok (circuits st1)" using fo(1) c1 by simp
  have ei: "\<forall>i. ei = Some i \<longrightarrow> i < FLEXNET_MAX_L2_TRANSIT" using fo(3) by blast
  have f1: "\<And>i. ei = Some i \<Longrightarrow> i < FLEXNET_MAX_L2_TRANSIT \<and> circuit_matches (entry_at m 7) (entry_at m 0) (p_num port) (circuits st1 ! i)"
    using fo(3) c1 by simp
  have pin: "\<exists>i. ei = Some i \<and> x_appended (circuits st1 ! i) = nh \<and> flex_l2_out_eff (circuits st1 ! i) = hp" if p: pinned
  proof -
    from pick p obtain e where "map_option (\<lambda>i. circuits st ! i) ei = Some e" "x_appended e = nh" "flex_l2_out_eff e = hp"
      by (auto elim: pick_hop_pinned)
    then show ?thesis using c1 by auto
  qed
  obtain i where i: "i < length (circuits st')" "circuit_matches (entry_at m 7) (entry_at m 0) (p_num port) (circuits st' ! i)"
      "x_appended (circuits st' ! i) = nh" "flex_l2_out_eff (circuits st' ! i) = p_num port'"
    using extend_circuit [OF ok1 f1 refl refl x pin] port' by auto
  have ok': "circuits_ok (circuits st')" using extend_ok(1) [OF ok1 ei nh(1) x] .
  have "circuit_state (e_now ev') (circuits st' ! i) \<noteq> S_EXPIRED"
    using only i(1,2) by (auto simp: circuit_matches_def)
  from find_rev_unique [OF i(1,2) this i(4) _ ok' r(4,5)] only
  have "flex_l2_find_rev (e_now ev') (bs ! 0) (bs ! 1) (p_num port') (circuits st') = Some i" by blast
  from contract_recorded [OF r(1,2,3) this] show ?thesis using i(3) nh r(6,7) by simp
qed

text \<open>The connect of the demonstration, extended to the neighbour, and the answer.\<close>

definition l2_demo_ext :: "bool \<times> l2_msg \<times> l2_state" where
  "l2_demo_ext = flex_l2_extend l2_demo_env l2_demo_port l2_demo_msg None (demo_call 0x86) False 1 K_SABM l2_state0"

definition l2_demo_answer :: l2_msg where
  "l2_demo_answer = demo_frame [demo_call 0x82, demo_call 0x80, (demo_call 0x86)[6 := 0xE0], demo_call 0x84] [0x63]"

definition l2_demo_nd1 :: node where
  "l2_demo_nd1 = fst (snd (snd (flex_l2_pick_hop l2_demo_env None K_SABM (demo_call 0x80) ''DB0FAA'' l2_demo_node l2_state0)))"

lemma l2_demo_ends: "entry_at l2_demo_msg 7 = demo_call 0x82" "entry_at l2_demo_msg 0 = demo_call 0x80" "p_num l2_demo_port = 1"
  by code_simp+

lemma l2_demo_find: "flex_l2_find 1000 (demo_call 0x82) (demo_call 0x80) 1 False l2_state0 = (None, l2_state0)"
  by code_simp

lemma l2_demo_pick:
  "flex_l2_pick_hop l2_demo_env (map_option f None) K_SABM (demo_call 0x80) ''DB0FAA'' l2_demo_node l2_state0 =
     (HopVia (demo_call 0x86) 1, False, l2_demo_nd1, l2_state0)"
  unfolding option.map by code_simp

lemma l2_demo_ext_table:
  "fst l2_demo_ext \<and> list_all (\<lambda>e. x_active e \<and> flex_l2_same_call (x_user e) (demo_call 0x82) \<and>
     flex_l2_same_call (x_dest e) (demo_call 0x80) \<longrightarrow> x_port e = 1 \<and> circuit_state 1000 e \<noteq> S_EXPIRED)
     (circuits (snd (snd l2_demo_ext)))"
  by code_simp

lemma l2_demo_answer_is:
  "frame_is l2_demo_answer [demo_call 0x82, demo_call 0x80, (demo_call 0x86)[6 := 0xE0], demo_call 0x84] [0x63]"
  unfolding l2_demo_answer_def by (rule demo_frame_is) (code_simp)+

theorem answer_loses_the_hop_witness:
  "\<exists>r1 st2. flex_l2_contract l2_demo_env l2_demo_port l2_demo_answer (7 * 3) K_UA (snd (snd l2_demo_ext)) =
      Some (7 * (3 - 1), r1, st2) \<and>
    frame_is r1 (without (3 - 1) [demo_call 0x82, demo_call 0x80, (demo_call 0x86)[6 := 0xE0], demo_call 0x84]) [0x63]"
proof (rule answer_loses_the_hop [OF circuits_ok_start _ _ _ _ _ _ l2_demo_answer_is, where ei = None and st = l2_state0])
  show "flex_l2_find (e_now l2_demo_env) (entry_at l2_demo_msg 7) (entry_at l2_demo_msg 0) (p_num l2_demo_port) False
    l2_state0 = (None, l2_state0)"
    using l2_demo_find by (simp add: l2_demo_ends l2_demo_env_def)
  show "flex_l2_pick_hop l2_demo_env (map_option ((!) (circuits l2_state0)) None) K_SABM (entry_at l2_demo_msg 0)
     ''DB0FAA'' l2_demo_node l2_state0 = (HopVia (demo_call 0x86) 1, False, l2_demo_nd1, l2_state0)"
    unfolding l2_demo_ends by (rule l2_demo_pick)
  show "flex_l2_extend l2_demo_env l2_demo_port l2_demo_msg None (demo_call 0x86) False 1 K_SABM l2_state0 =
     (True, fst (snd l2_demo_ext), snd (snd l2_demo_ext))"
    using l2_demo_ext_table unfolding l2_demo_ext_def [symmetric] by (simp add: prod_eq_iff)
  show "\<forall>e \<in> set (circuits (snd (snd l2_demo_ext))). x_active e \<and> flex_l2_same_call (x_user e) (entry_at l2_demo_msg 7) \<and>
      flex_l2_same_call (x_dest e) (entry_at l2_demo_msg 0) \<longrightarrow>
      x_port e = p_num l2_demo_port \<and> circuit_state (e_now l2_demo_env) e \<noteq> S_EXPIRED"
    using l2_demo_ext_table by (simp add: list_all_iff l2_demo_ends l2_demo_env_def)
qed (simp_all add: l2_demo_ends, code_simp+)

section \<open>When a circuit is torn down\<close>

text \<open>
  The specification reads the control frames seen on the circuit as a sequence: since the last
  connect there was a DM, or an acknowledgement after a disconnect.
\<close>

definition since_connect :: "l2_kind list \<Rightarrow> l2_kind list" where
  "since_connect ks = rev (takeWhile (\<lambda>k. k \<noteq> K_SABM) (rev ks))"

definition acked_disc :: "l2_kind list \<Rightarrow> bool" where
  "acked_disc ks \<longleftrightarrow> (\<exists>as bs. ks = as @ bs \<and> K_DISC \<in> set as \<and> K_UA \<in> set bs)"

definition torn_down :: "l2_kind list \<Rightarrow> bool" where
  "torn_down ks \<longleftrightarrow> K_DM \<in> set (since_connect ks) \<or> acked_disc (since_connect ks)"

definition note_all :: "l2_circuit \<Rightarrow> (l2_kind \<times> int) list \<Rightarrow> l2_circuit" where
  "note_all e evs = foldl (\<lambda>e (k, t). flex_l2_note_ctl e k t) e evs"

lemma since_connect_simps [simp]:
  "since_connect [] = []"
  "since_connect (ks @ [k]) = (if k = K_SABM then [] else since_connect ks @ [k])"
  by (simp_all add: since_connect_def)

lemma acked_disc_Nil [simp]: "\<not> acked_disc []"
  by (simp add: acked_disc_def)

lemma acked_disc_snoc [simp]:
  "acked_disc (ks @ [k]) \<longleftrightarrow> acked_disc ks \<or> k = K_UA \<and> K_DISC \<in> set ks"
proof
  assume "acked_disc (ks @ [k])"
  then obtain as bs where s: "ks @ [k] = as @ bs" "K_DISC \<in> set as" "K_UA \<in> set bs"
    by (auto simp: acked_disc_def)
  show "acked_disc ks \<or> k = K_UA \<and> K_DISC \<in> set ks"
  proof (cases bs rule: rev_cases)
    case Nil
    with s show ?thesis by simp
  next
    case (snoc cs c)
    then have c: "ks = as @ cs" "c = k" using s(1) by auto
    with s snoc show ?thesis by (auto simp: acked_disc_def)
  qed
next
  assume "acked_disc ks \<or> k = K_UA \<and> K_DISC \<in> set ks"
  then show "acked_disc (ks @ [k])"
  proof (elim disjE)
    assume "acked_disc ks"
    then obtain as bs where "ks = as @ bs" "K_DISC \<in> set as" "K_UA \<in> set bs" by (auto simp: acked_disc_def)
    then show ?thesis unfolding acked_disc_def by (intro exI [of _ as] exI [of _ "bs @ [k]"]) simp
  next
    assume "k = K_UA \<and> K_DISC \<in> set ks"
    then show ?thesis unfolding acked_disc_def by (intro exI [of _ ks] exI [of _ "[k]"]) simp
  qed
qed

lemma note_all_snoc [simp]: "note_all e (evs @ [(k, t)]) = flex_l2_note_ctl (note_all e evs) k t"
  by (simp add: note_all_def)

lemma note_all_invariant:
  assumes "\<not> x_closing e" "x_closed_at e = 0" "\<forall>(k, t) \<in> set evs. t \<noteq> 0"
  shows "(x_closing (note_all e evs) \<longleftrightarrow> K_DISC \<in> set (since_connect (map fst evs))) \<and>
    (x_closed_at (note_all e evs) \<noteq> 0 \<longleftrightarrow> torn_down (map fst evs))"
  using assms(3)
proof (induction evs rule: rev_induct)
  case Nil
  then show ?case using assms(1,2) by (simp add: note_all_def torn_down_def)
next
  case (snoc ev evs)
  obtain k t where ev: "ev = (k, t)" by (cases ev)
  show ?case using snoc ev by (cases k) (auto simp: torn_down_def)
qed

text \<open>C24: the book-keeping of one circuit is exactly the reading of its control frames as a sequence.
  After any frames seen on a new circuit, at any times but 0, it counts as torn down if and only if,
  since the last connect, there was a DM, or a UA somewhere after a DISC. A DISC alone, a UA without one
  or a new connect never leave it torn down.\<close>

theorem circuit_closed_iff:
  assumes "\<forall>(k, t) \<in> set evs. t \<noteq> 0"
  shows "x_closed_at (note_all (new_circuit now u d p) evs) \<noteq> 0 \<longleftrightarrow> torn_down (map fst evs)"
  using note_all_invariant [of "new_circuit now u d p" evs] assms by (simp add: new_circuit_def l2_circuit0_def)

theorem circuit_closed_iff_witness:
  "x_closed_at (note_all (new_circuit 10 (demo_call 0x80) (demo_call 0x82) 1)
     [(K_SABM, 10), (K_UA, 11), (K_DISC, 20), (K_OTHER, 21), (K_UA, 22)]) = 22 \<and>
   torn_down [K_SABM, K_UA, K_DISC, K_OTHER, K_UA] \<and> \<not> torn_down [K_DISC, K_UA, K_SABM, K_UA]"
proof -
  let ?e = "note_all (new_circuit 10 (demo_call 0x80) (demo_call 0x82) 1)"
  have "x_closed_at (?e [(K_SABM, 10), (K_UA, 11), (K_DISC, 20), (K_OTHER, 21), (K_UA, 22)]) = 22"
    "x_closed_at (?e [(K_DISC, 1), (K_UA, 2), (K_SABM, 3), (K_UA, 4)]) = 0"
    by (simp_all add: note_all_def new_circuit_def l2_circuit0_def)
  then show ?thesis
    using circuit_closed_iff [of "[(K_SABM, 10), (K_UA, 11), (K_DISC, 20), (K_OTHER, 21), (K_UA, 22)]" 10 "demo_call 0x80" "demo_call 0x82" 1]
      circuit_closed_iff [of "[(K_DISC, 1), (K_UA, 2), (K_SABM, 3), (K_UA, 4)]" 10 "demo_call 0x80" "demo_call 0x82" 1]
    by simp
qed

section \<open>Two circuits that leave on one port\<close>

text \<open>
  The reverse lookup takes the first circuit of the ends that leaves on the port, whatever hop it is
  pinned to. When frames of one pair of callsigns arrive on two ports and leave on a third one through
  two neighbours, the answer through the second neighbour is not recognised and keeps the hop.
\<close>

definition twin_circuits :: "l2_circuit list" where
  "twin_circuits =
     [(new_circuit 1000 (demo_call 0x82) (demo_call 0x80) 1)\<lparr>x_appended := demo_call 0x86, x_out_port := 3\<rparr>,
      (new_circuit 1000 (demo_call 0x82) (demo_call 0x80) 2)\<lparr>x_appended := demo_call 0x88, x_out_port := 3\<rparr>] @
     replicate 126 l2_circuit0"

definition twin_answer :: l2_msg where
  "twin_answer = demo_frame [demo_call 0x82, demo_call 0x80, (demo_call 0x88)[6 := 0xE0], demo_call 0x84] [0x63]"

text \<open>An answer through a recorded hop may keep it. The table below holds a live circuit pinned to
  the neighbour the answer came through, on the port it came on, and still the hook does not take the
  hop out, because an earlier circuit of the same ends leaves on the same port.\<close>

theorem twin_circuit_keeps_the_hop:
  "flex_l2_contract l2_demo_env \<lparr>p_num = 3, p_digiflag = 1, p_maxdigis = 8\<rparr> twin_answer (7 * 3) K_UA
       (l2_state0\<lparr>circuits := twin_circuits\<rparr>) = None \<and>
   (let e = twin_circuits ! 1 in x_active e \<and> circuit_state (e_now l2_demo_env) e = S_LIVE \<and>
      flex_l2_same_call (x_user e) (entry_at twin_answer 0) \<and> flex_l2_same_call (x_dest e) (entry_at twin_answer 7) \<and>
      flex_l2_out_eff e = 3 \<and> flex_l2_is_our_hop e (entry_at twin_answer 14))"
  by code_simp

end
