(* ===== verification/Flex_Path.thy ===== *)
theory Flex_Path
  imports Flex_Dest "HOL-Library.Monad_Syntax"
begin

text \<open>
  Path queries (FlexNetCode.c): sending a path request (\<open>flex_send_path_req_ex\<close>), answering one
  (\<open>flex_handle_path_req\<close>), passing it on toward the target
  (\<open>flex_forward_path_req\<close>), taking in or relaying the answer
  (\<open>flex_handle_path_rep\<close>), requests parked until an answer arrives, the operator's probes,
  and the path cache file. Callsigns and frames are strings of bytes; what is written to the log is left
  out.
\<close>

section \<open>State\<close>

definition FLEXNET_MAX_PATH_PROBES :: nat where "FLEXNET_MAX_PATH_PROBES = 8"
definition FLEXNET_PATH_CACHE_TTL :: int where "FLEXNET_PATH_CACHE_TTL = 14400"
definition FLEXNET_ONDEMAND_PROBE_GAP :: int where "FLEXNET_ONDEMAND_PROBE_GAP = 3"
definition FLEXNET_ONDEMAND_PROBE_REPEAT :: int where "FLEXNET_ONDEMAND_PROBE_REPEAT = 120"
definition FLEXNET_ONDEMAND_RECENT :: nat where "FLEXNET_ONDEMAND_RECENT = 32"
definition FLEXNET_SYSOP_PROBE_RING :: nat where "FLEXNET_SYSOP_PROBE_RING = 8"
definition FLEXNET_MAX_DEFERRED_REQ :: nat where "FLEXNET_MAX_DEFERRED_REQ = 8"
definition FLEXNET_DEFERRED_REQ_TTL :: int where "FLEXNET_DEFERRED_REQ_TTL = 20"
definition FLEXNET_DEFERRED_FRAME_MAX :: nat where "FLEXNET_DEFERRED_FRAME_MAX = 96"

record path_probe =
  pp_active :: bool
  pp_qso :: int
  pp_trace :: bool
  pp_target_call :: string
  pp_target_ssid :: int
  pp_dest_index :: int
  pp_sent_time :: int
  pp_reply_hops :: "string list"
  pp_reply_hop_count :: nat
  pp_got_reply :: bool
  pp_sysop_ring :: nat

definition path_probe0 :: path_probe where
  "path_probe0 = \<lparr>pp_active = False, pp_qso = 0, pp_trace = False, pp_target_call = '''', pp_target_ssid = 0,
     pp_dest_index = 0, pp_sent_time = 0, pp_reply_hops = [], pp_reply_hop_count = 0, pp_got_reply = False,
     pp_sysop_ring = 0\<rparr>"

datatype sprobe = SPROBE_PENDING | SPROBE_ANSWERED | SPROBE_LOOP | SPROBE_WRONG_END | SPROBE_TIMEOUT

record sysop_probe =
  sp_in_use :: bool
  sp_qso :: int
  sp_state :: sprobe
  sp_target :: string
  sp_via :: string
  sp_sent :: int
  sp_elapsed :: int
  sp_hops :: "string list"

definition sysop_probe0 :: sysop_probe where
  "sysop_probe0 = \<lparr>sp_in_use = False, sp_qso = 0, sp_state = SPROBE_PENDING, sp_target = '''', sp_via = '''',
     sp_sent = 0, sp_elapsed = 0, sp_hops = []\<rparr>"

record deferred_req =
  df_in_use :: bool
  df_peer_idx :: nat
  df_target_base :: string
  df_frame :: string
  df_parked_at :: int

definition deferred_req0 :: deferred_req where
  "deferred_req0 = \<lparr>df_in_use = False, df_peer_idx = 0, df_target_base = '''', df_frame = '''', df_parked_at = 0\<rparr>"

text \<open>A pending L3RTT probe (\<open>struct FLEXNET_PROBE\<close>).\<close>

definition FLEXNET_MAX_PROBES :: nat where "FLEXNET_MAX_PROBES = 4"

record l3_probe =
  lp_active :: bool
  lp_target_call :: string
  lp_target_ssid :: int
  lp_dest_index :: int
  lp_sent_time :: int
  lp_got_reply :: bool
  lp_reply_hops :: "string list"
  lp_reply_hop_count :: nat

definition l3_probe0 :: l3_probe where
  "l3_probe0 = \<lparr>lp_active = False, lp_target_call = [], lp_target_ssid = 0, lp_dest_index = 0,
     lp_sent_time = 0, lp_got_reply = False, lp_reply_hops = [], lp_reply_hop_count = 0\<rparr>"

record path_state =
  probes :: "path_probe list"
  l3_probes :: "l3_probe list"
  qso_counter :: "16 word"
  deferred :: "deferred_req list"
  ondemand_recent :: "(string \<times> int) list"
  ondemand_next :: nat
  last_ondemand :: int
  sysop_ring :: "sysop_probe list"
  sysop_next :: nat
  path_fwd_sent :: nat
  path_fwd_declined :: nat
  path_rep_relayed :: nat
  path_cache_dirty :: bool
  path_cache_file :: "string list option"
  p_stats :: parse_stats

definition path_state0 :: path_state where
  "path_state0 = \<lparr>probes = replicate FLEXNET_MAX_PATH_PROBES path_probe0,
     l3_probes = replicate FLEXNET_MAX_PROBES l3_probe0, qso_counter = 0,
     deferred = replicate FLEXNET_MAX_DEFERRED_REQ deferred_req0,
     ondemand_recent = replicate FLEXNET_ONDEMAND_RECENT ('''', 0), ondemand_next = 0, last_ondemand = 0,
     sysop_ring = replicate FLEXNET_SYSOP_PROBE_RING sysop_probe0, sysop_next = 0,
     path_fwd_sent = 0, path_fwd_declined = 0, path_rep_relayed = 0, path_cache_dirty = False, path_cache_file = None,
     p_stats = \<lparr>ps_unknown = 0, ps_malformed = 0, ps_last_t = 0, ps_last_kind = PARSE_UNKNOWN,
       ps_last_peer = '''', ps_last_what = '''', ps_last_byte0 = 0, ps_last_len = 0\<rparr>\<rparr>"

definition flex_parse_note_link :: "env \<Rightarrow> parse_kind \<Rightarrow> nat \<Rightarrow> string \<Rightarrow> string \<Rightarrow> node \<Rightarrow> path_state \<Rightarrow> path_state" where
  "flex_parse_note_link ev kind l what data nd ps =
     (let peer = trim_sp (e_conv ev (link_call nd l))
      in ps\<lparr>p_stats := flex_parse_note kind (Some (if peer = '''' then ''?'' else peer)) (Some what) data (e_now ev) (p_stats ps)\<rparr>)"

section \<open>The operator's probes\<close>

text \<open>The ring index is 1-based; 0 marks a probe that is not the operator's.\<close>

definition flex_sysop_probe_add :: "string \<Rightarrow> string \<Rightarrow> int \<Rightarrow> int \<Rightarrow> path_state \<Rightarrow> nat \<times> path_state" where
  "flex_sysop_probe_add target via qso now ps =
     (let i = sysop_next ps in
      (i + 1, ps\<lparr>sysop_next := (i + 1) mod FLEXNET_SYSOP_PROBE_RING,
                sysop_ring := (sysop_ring ps)[i := \<lparr>sp_in_use = True, sp_qso = qso, sp_state = SPROBE_PENDING,
                  sp_target = take 13 target, sp_via = take 19 via, sp_sent = now, sp_elapsed = 0, sp_hops = []\<rparr>]\<rparr>))"

definition flex_sysop_probe_close :: "nat \<Rightarrow> int \<Rightarrow> sprobe \<Rightarrow> string list option \<Rightarrow> int \<Rightarrow> path_state \<Rightarrow> path_state" where
  "flex_sysop_probe_close ring qso st hops now ps =
     (if ring < 1 \<or> ring > FLEXNET_SYSOP_PROBE_RING then ps
      else
        let r = sysop_ring ps ! (ring - 1) in
        if \<not> sp_in_use r \<or> sp_qso r \<noteq> qso \<or> sp_state r \<noteq> SPROBE_PENDING then ps
        else ps\<lparr>sysop_ring := (sysop_ring ps)[ring - 1 := r\<lparr>sp_state := st, sp_elapsed := now - sp_sent r,
               sp_hops := (case hops of None \<Rightarrow> [] | Some hs \<Rightarrow> map (take 9) (take FLEXNET_MAX_PATH_HOPS hs))\<rparr>]\<rparr>)"

text \<open>The argument of FLEXPROBE. The callers' buffer for the callsign is long enough.\<close>

datatype probe_arg = ProbeTarget string int | ProbeList | ProbeMalformed

definition arg_end :: "string \<Rightarrow> bool" where
  "arg_end s \<longleftrightarrow> s = [] \<or> hd s = CHR 0x00 \<or> hd s = CR \<or> hd s = CHR 0x0A"

definition flex_parse_probe_target :: "string option \<Rightarrow> probe_arg" where
  "flex_parse_probe_target tail =
     (case tail of None \<Rightarrow> ProbeList
      | Some t0 \<Rightarrow>
          let t = dropWhile (\<lambda>c. c = SP) t0; c = takeWhile is_alnum t; r = drop (length c) t in
          if arg_end t then ProbeList
          else if length c > 6 \<or> c = [] then ProbeMalformed
          else
            let done = (\<lambda>s v. if arg_end s \<or> hd s = SP then ProbeTarget (map to_upper c) v else ProbeMalformed) in
            if r \<noteq> [] \<and> hd r = CHR ''-''
            then let ds = takeWhile is_digit (tl r)
                 in if ds = [] \<or> length ds > 2 \<or> digits_val ds > 15 then ProbeMalformed
                    else done (drop (length ds) (tl r)) (int (digits_val ds))
            else done r (-1))"

section \<open>Sending a path request\<close>

definition flex_chain_has_call :: "string list \<Rightarrow> string \<Rightarrow> bool" where
  "flex_chain_has_call chain call \<longleftrightarrow> call \<noteq> '''' \<and>
     list_ex (\<lambda>h. h \<noteq> '''' \<and> case_eq h call) (take FLEXNET_MAX_PATH_HOPS chain)"

text \<open>The hops of a destination's cached path: the first \<open>path_len\<close> entries of the array.\<close>

definition dest_path :: "dest_entry \<Rightarrow> string list" where
  "dest_path d = take (nat (d_path_len d)) (d_path_hops d)"

definition own_call :: "env \<Rightarrow> string" where
  "own_call ev = trim_sp (e_conv ev (e_mycall ev))"

definition session_usable :: "node \<Rightarrow> int \<Rightarrow> bool" where
  "session_usable nd si \<longleftrightarrow> 0 \<le> si \<and> si < int FLEXNET_MAX_SESSIONS \<and> s_active (sessions nd ! nat si) \<and>
     s_LINK (sessions nd ! nat si) \<noteq> None"

text \<open>"CALL-0" is "CALL".\<close>

definition strip_zero :: "string \<Rightarrow> string" where
  "strip_zero t0 = (let t = take 19 t0; n = length t
                    in if n > 2 \<and> drop (n - 2) t = ''-0'' then take (n - 2) t else t)"

definition probe_direct :: "env \<Rightarrow> string \<Rightarrow> node \<Rightarrow> nat option" where
  "probe_direct ev target nd =
     (case flex_session_for_call ev nd (strip_zero target) of
        None \<Rightarrow> None
      | Some i \<Rightarrow> if s_LINK (sessions nd ! i) \<noteq> None then Some i else None)"

definition flex_probe_session :: "env \<Rightarrow> int \<Rightarrow> string \<Rightarrow> node \<Rightarrow> nat option \<times> node" where
  "flex_probe_session ev di target nd =
     (if 0 \<le> di \<and> di < int (length (dests nd))
      then
        let d = dests nd ! nat di in
        if session_usable nd (d_via_session_idx d) then (Some (nat (d_via_session_idx d)), nd)
        else if d_via_callsign d = '''' then (probe_direct ev target nd, nd)
        else case flex_session_for_call ev nd (d_via_callsign d) of
               None \<Rightarrow> (probe_direct ev target nd, nd)
             | Some h \<Rightarrow>
                 if s_LINK (sessions nd ! h) \<noteq> None
                 then (Some h, nd\<lparr>dests := (dests nd)[nat di := d\<lparr>d_via_session_idx := int h\<rparr>]\<rparr>)
                 else (probe_direct ev target nd, nd)
      else (probe_direct ev target nd, nd))"

text \<open>A fresh QSO number: the loop makes at most \<open>tries\<close> attempts, 0 when it finds none.\<close>

definition qso_taken :: "path_probe list \<Rightarrow> int \<Rightarrow> bool" where
  "qso_taken pps q \<longleftrightarrow> list_ex (\<lambda>p. pp_active p \<and> pp_qso p = q) pps"

fun next_qso :: "nat \<Rightarrow> path_probe list \<Rightarrow> 16 word \<Rightarrow> int \<times> 16 word" where
  "next_qso 0 pps c = (0, c)"
| "next_qso (Suc tries) pps c =
     (let c1 = c + 1; c2 = (if c1 = 0 then 1 else c1)
      in if qso_taken pps (uint c2) then next_qso tries pps c2 else (uint c2, c2))"

datatype probe_result = ProbeSent nat string | ProbeFull | ProbeNoNeighbour | ProbeBuild

definition target_full :: "string \<Rightarrow> int \<Rightarrow> string" where
  "target_full call ssid = take 13 (if ssid \<ge> 0 then call @ ''-'' @ dec_of_int ssid else call)"

definition flex_send_path_req_ex ::
  "env \<Rightarrow> int \<Rightarrow> string \<Rightarrow> int \<Rightarrow> node \<Rightarrow> path_state \<Rightarrow> probe_result \<times> node \<times> path_state" where
  "flex_send_path_req_ex ev di target_call target_ssid nd ps =
     (case first_idx (\<lambda>p. \<not> pp_active p) (probes ps) of
        None \<Rightarrow> (ProbeFull, nd, ps)
      | Some slot \<Rightarrow>
          (case flex_probe_session ev di (target_full target_call target_ssid) nd of
             (None, nd1) \<Rightarrow> (ProbeNoNeighbour, nd1, ps)
           | (Some si, nd1) \<Rightarrow>
               (case next_qso 65536 (probes ps) (qso_counter ps) of
                  (qso, c) \<Rightarrow>
                    let ps1 = ps\<lparr>qso_counter := c\<rparr>; l = the (s_LINK (sessions nd1 ! si));
                        next_hop = trim_sp (e_conv ev (link_call nd1 l)) in
                    if qso = 0 then (ProbeBuild, nd1, ps1)
                    else case flex_build_path_req 128 qso False (own_call ev) next_hop
                                (target_full target_call target_ssid) of
                      None \<Rightarrow> (ProbeBuild, nd1, ps1)
                    | Some fr \<Rightarrow>
                        (ProbeSent slot next_hop, flex_send_frame ev l FLEXNET_PID_CE fr nd1,
                         ps1\<lparr>probes := (probes ps1)[slot := path_probe0\<lparr>pp_active := True, pp_qso := qso,
                               pp_target_call := take 9 target_call, pp_target_ssid := target_ssid,
                               pp_dest_index := di, pp_sent_time := e_now ev\<rparr>]\<rparr>))))"

definition probe_was_sent :: "probe_result \<Rightarrow> bool" where
  "probe_was_sent r = (case r of ProbeSent slot via \<Rightarrow> True | _ \<Rightarrow> False)"

section \<open>Probing on demand, parking requests\<close>

definition recently_probed :: "int \<Rightarrow> string \<Rightarrow> (string \<times> int) list \<Rightarrow> bool" where
  "recently_probed now target rs =
     (case first_idx (\<lambda>(c, t). c \<noteq> '''' \<and> case_eq c target) rs of
        None \<Rightarrow> False
      | Some i \<Rightarrow> now - snd (rs ! i) < FLEXNET_ONDEMAND_PROBE_REPEAT)"

definition flex_ondemand_probe :: "env \<Rightarrow> int \<Rightarrow> string \<Rightarrow> node \<Rightarrow> path_state \<Rightarrow> bool \<times> node \<times> path_state" where
  "flex_ondemand_probe ev di target nd ps =
     (if e_now ev - last_ondemand ps < FLEXNET_ONDEMAND_PROBE_GAP then (False, nd, ps)
      else if recently_probed (e_now ev) target (ondemand_recent ps) then (False, nd, ps)
      else if di < 0 \<or> di \<ge> int (length (dests nd)) then (False, nd, ps)
      else
        let d = dests nd ! nat di in
        case flex_send_path_req_ex ev di (d_callsign d) (d_ssid_lo d) nd ps of
          (r, nd1, ps1) \<Rightarrow>
            if \<not> probe_was_sent r then (False, nd1, ps1)
            else (True, nd1, ps1\<lparr>last_ondemand := e_now ev,
                   ondemand_recent := (ondemand_recent ps1)[ondemand_next ps1 := (take 19 target, e_now ev)],
                   ondemand_next := (ondemand_next ps1 + 1) mod FLEXNET_ONDEMAND_RECENT\<rparr>))"

definition flex_base_call :: "string \<Rightarrow> nat \<Rightarrow> string" where
  "flex_base_call call outsz = take (outsz - 1) (base_of call)"

definition flex_defer_path_req :: "bool \<Rightarrow> int \<Rightarrow> int \<Rightarrow> string \<Rightarrow> string \<Rightarrow> path_state \<Rightarrow> path_state" where
  "flex_defer_path_req replaying now peer_idx target data ps =
     (if replaying then ps
      else if data = '''' \<or> length data > FLEXNET_DEFERRED_FRAME_MAX then ps
      else if peer_idx < 0 \<or> peer_idx \<ge> int FLEXNET_MAX_SESSIONS then ps
      else case first_idx (\<lambda>d. \<not> df_in_use d \<or> now - df_parked_at d > FLEXNET_DEFERRED_REQ_TTL) (deferred ps) of
        None \<Rightarrow> ps
      | Some i \<Rightarrow> ps\<lparr>deferred := (deferred ps)[i := \<lparr>df_in_use = True, df_peer_idx = nat peer_idx,
                   df_target_base = flex_base_call target 20, df_frame = data, df_parked_at = now\<rparr>]\<rparr>)"

section \<open>Passing a request on\<close>

text \<open>
  The rebuilt body in a buffer of 256 bytes: \<open>None\<close> when a call would leave no room for the
  closing CR.
\<close>

fun join_calls :: "string \<Rightarrow> bool \<Rightarrow> string list \<Rightarrow> string option" where
  "join_calls out first [] = Some out"
| "join_calls out first (p # ps) =
     (if length out + ((if first then 0 else 1) + length p) + 1 \<ge> 256 then None
      else join_calls (out @ (if first then [] else [SP]) @ p) False ps)"

definition path_decline :: "path_state \<Rightarrow> path_state" where
  "path_decline ps = ps\<lparr>path_fwd_declined := path_fwd_declined ps + 1\<rparr>"

text \<open>The session of the neighbour the row is routed through, or of its callsign.\<close>

definition forward_via :: "env \<Rightarrow> node \<Rightarrow> dest_entry \<Rightarrow> nat option" where
  "forward_via ev nd d =
     (let via = d_via_session_idx d;
          v = (if 0 \<le> via \<and> via < int FLEXNET_MAX_SESSIONS \<and> s_active (sessions nd ! nat via) then Some (nat via)
               else flex_session_for_call ev nd (d_via_callsign d))
      in case v of None \<Rightarrow> None
         | Some i \<Rightarrow> if i < FLEXNET_MAX_SESSIONS \<and> s_active (sessions nd ! i) \<and> s_LINK (sessions nd ! i) \<noteq> None
                     then Some i else None)"

definition flex_forward_path_req ::
  "env \<Rightarrow> nat \<Rightarrow> string \<Rightarrow> int \<Rightarrow> string \<Rightarrow> string list \<Rightarrow> string \<Rightarrow> node \<Rightarrow> path_state \<Rightarrow> bool \<times> node \<times> path_state" where
  "flex_forward_path_req ev asker target di origin hops data nd ps =
     (if \<not> path_forward_enabled nd then (False, nd, ps)
      else if length data < 7 \<or> hops = [] then (False, nd, path_decline ps)
      else if di < 0 \<or> di \<ge> int (length (dests nd)) then (False, nd, path_decline ps)
      else case forward_via ev nd (dests nd ! nat di) of
        None \<Rightarrow> (False, nd, path_decline ps)
      | Some via \<Rightarrow>
          let nexthop = flex_sess_peer_call ev nd via in
          if via = asker \<or> nexthop = '''' \<or> case_eq origin nexthop \<or> list_ex (\<lambda>h. case_eq h nexthop) hops \<or>
             length hops + 1 \<ge> FLEXNET_MAX_PATH_HOPS
          then (False, nd, path_decline ps)
          else case join_calls (take 7 (data[1 := char_of ((of_char (data ! 1) :: nat) + 1)])) True
                      ([origin] @ butlast hops @ [nexthop, target]) of
            None \<Rightarrow> (False, nd, path_decline ps)
          | Some out \<Rightarrow>
              (True, flex_send_frame ev (the (s_LINK (sessions nd ! via))) FLEXNET_PID_CE (out @ [CR]) nd,
               ps\<lparr>path_fwd_sent := path_fwd_sent ps + 1\<rparr>))"

section \<open>Answering a request\<close>

text \<open>What the node can say about a target that is not itself.\<close>

datatype path_answer = AnswerHops "string list" | AnswerUnknown | AnswerSilent int

definition cache_usable :: "env \<Rightarrow> dest_entry \<Rightarrow> bool" where
  "cache_usable ev d \<longleftrightarrow> d_path_len d > 0 \<and> d_path_updated d \<noteq> 0 \<and>
     \<not> flex_chain_has_call (dest_path d) (own_call ev) \<and>
     flex_chain_ends_at (dest_path d) (d_callsign d) (d_ssid_lo d) (d_ssid_hi d) \<and>
     e_now ev - d_path_updated d \<le> FLEXNET_PATH_CACHE_TTL"

definition transit_answer :: "env \<Rightarrow> node \<Rightarrow> string \<Rightarrow> path_answer" where
  "transit_answer ev nd target =
     (if \<not> transit_enabled nd then AnswerUnknown
      else case flex_find_dest_for_target nd target of
        None \<Rightarrow> AnswerUnknown
      | Some di \<Rightarrow>
          let d = dests nd ! di in
          if flex_target_is_direct_peer ev nd target then AnswerHops [target]
          else if cache_usable ev d
          then AnswerHops (take (FLEXNET_MAX_PATH_HOPS - 2) (filter (\<lambda>h. h \<noteq> '''') (dest_path d)))
          else AnswerSilent (int di))"

definition path_answer_for :: "env \<Rightarrow> node \<Rightarrow> string \<Rightarrow> path_answer" where
  "path_answer_for ev nd target =
     (case flex_target_is_us (e_conv ev) (e_mycall ev) nd target of
        TARGET_LOCAL \<Rightarrow> AnswerHops [target]
      | TARGET_NODE \<Rightarrow> AnswerHops []
      | TARGET_NONE \<Rightarrow> transit_answer ev nd target)"

text \<open>The digipeater limit of the link the answer would leave on.\<close>

definition path_digi_cap :: "env \<Rightarrow> node \<Rightarrow> nat \<Rightarrow> nat" where
  "path_digi_cap ev nd l =
     (let n = (case LINKPORT (links nd ! l) of None \<Rightarrow> 0
               | Some p \<Rightarrow> (case e_ports ev p of None \<Rightarrow> 0 | Some v \<Rightarrow> PORTMAXDIGIS v))
      in min (if n \<noteq> 0 then n else FLEXNET_L2_MAX_DIGIS) FLEXNET_L2_MAX_DIGIS)"

definition answer_path_req ::
  "env \<Rightarrow> nat \<Rightarrow> nat \<Rightarrow> path_frame \<Rightarrow> string \<Rightarrow> string list \<Rightarrow> string \<Rightarrow> node \<Rightarrow> path_state \<Rightarrow> node \<times> path_state" where
  "answer_path_req ev l si f target beyond data nd ps =
     (let reply = [pf_origin f, own_call ev] @ beyond in
      if length reply - 2 > path_digi_cap ev nd l
      then snd (flex_forward_path_req ev si target
                  (case flex_find_dest_for_target nd target of None \<Rightarrow> -1 | Some i \<Rightarrow> int i)
                  (pf_origin f) (pf_hops f) data nd ps)
      else case flex_build_path_rep 256 (pf_qso f) (pf_trace f) reply of
        None \<Rightarrow> (nd, ps)
      | Some fr \<Rightarrow> if fr = '''' then (nd, ps) else (flex_send_frame ev l FLEXNET_PID_CE fr nd, ps))"

definition flex_handle_path_req ::
  "env \<Rightarrow> bool \<Rightarrow> nat \<Rightarrow> nat \<Rightarrow> string \<Rightarrow> node \<Rightarrow> path_state \<Rightarrow> node \<times> path_state" where
  "flex_handle_path_req ev replaying l si data nd ps =
     (case flex_parse_path_frame data of
        None \<Rightarrow> (nd, flex_parse_note_link ev PARSE_MALFORMED l ''PATH-REQ'' data nd ps)
      | Some f \<Rightarrow>
          if pf_is_reply f \<or> pf_hops f = []
          then (nd, flex_parse_note_link ev PARSE_MALFORMED l ''PATH-REQ'' data nd ps)
          else
            let target = last (pf_hops f) in
            case path_answer_for ev nd target of
              AnswerUnknown \<Rightarrow> (nd, ps)
            | AnswerHops beyond \<Rightarrow> answer_path_req ev l si f target beyond data nd ps
            | AnswerSilent di \<Rightarrow>
                (case flex_forward_path_req ev si target di (pf_origin f) (pf_hops f) data nd ps of
                   (True, nd1, ps1) \<Rightarrow> (nd1, ps1)
                 | (False, nd1, ps1) \<Rightarrow>
                     (case flex_ondemand_probe ev di target nd1 ps1 of
                        (probed, nd2, ps2) \<Rightarrow>
                          (nd2, if probed then flex_defer_path_req replaying (e_now ev) (int si) target data ps2
                                else ps2))))"

section \<open>Taking in an answer\<close>

definition chain_pos :: "string \<Rightarrow> string list \<Rightarrow> nat option" where
  "chain_pos call hops = first_idx (\<lambda>h. case_eq h call) hops"

definition flex_relay_path_rep ::
  "env \<Rightarrow> string \<Rightarrow> string list \<Rightarrow> string \<Rightarrow> node \<Rightarrow> path_state \<Rightarrow> bool \<times> node \<times> path_state" where
  "flex_relay_path_rep ev origin hops data nd ps =
     (if \<not> path_forward_enabled nd \<or> hops = [] \<or> data = '''' then (False, nd, ps)
      else if own_call ev = '''' \<or> case_eq origin (own_call ev) then (False, nd, ps)
      else case chain_pos (own_call ev) hops of
        None \<Rightarrow> (False, nd, ps)
      | Some me \<Rightarrow>
          (case flex_session_for_call ev nd (if me = 0 then origin else hops ! (me - 1)) of
             None \<Rightarrow> (False, nd, ps)
           | Some via \<Rightarrow>
               (case s_LINK (sessions nd ! via) of
                  None \<Rightarrow> (False, nd, ps)
                | Some l \<Rightarrow>
                    if \<not> s_active (sessions nd ! via) then (False, nd, ps)
                    else (True, flex_send_frame ev l FLEXNET_PID_CE data nd,
                          ps\<lparr>path_rep_relayed := path_rep_relayed ps + 1\<rparr>))))"

text \<open>The array of hops after \<open>strncpy\<close> of the new ones over the old.\<close>

definition store_hops :: "string list \<Rightarrow> string list \<Rightarrow> string list" where
  "store_hops new old = map (take 9) new @ drop (length new) old"

definition answer_verdict :: "env \<Rightarrow> node \<Rightarrow> path_probe \<Rightarrow> string list \<Rightarrow> sprobe" where
  "answer_verdict ev nd pr hops =
     (if flex_chain_has_call hops (flex_normalize_callsign (e_conv ev) (e_mycall ev) 20) then SPROBE_LOOP
      else if 0 \<le> pp_dest_index pr \<and> pp_dest_index pr < int (length (dests nd)) \<and>
              (let d = dests nd ! nat (pp_dest_index pr)
               in \<not> flex_chain_ends_at hops (d_callsign d) (d_ssid_lo d) (d_ssid_hi d))
      then SPROBE_WRONG_END
      else SPROBE_ANSWERED)"

definition cache_answer :: "env \<Rightarrow> path_probe \<Rightarrow> string list \<Rightarrow> node \<Rightarrow> path_state \<Rightarrow> node \<times> path_state" where
  "cache_answer ev pr hops nd ps =
     (if 0 \<le> pp_dest_index pr \<and> pp_dest_index pr < int (length (dests nd))
      then let i = nat (pp_dest_index pr); d = dests nd ! i in
           (nd\<lparr>dests := (dests nd)[i := d\<lparr>d_path_len := int (length hops), d_path_hops := store_hops hops (d_path_hops d),
                                          d_path_updated := e_now ev\<rparr>]\<rparr>,
            ps\<lparr>path_cache_dirty := True\<rparr>)
      else (nd, ps))"

text \<open>One entry of the parked requests, when an answer for \<open>base\<close> has arrived.\<close>

definition replay_one :: "env \<Rightarrow> string \<Rightarrow> nat \<Rightarrow> node \<times> path_state \<Rightarrow> node \<times> path_state" where
  "replay_one ev base i s =
     (case s of (nd, ps) \<Rightarrow>
      let d = deferred ps ! i; consumed = ps\<lparr>deferred := (deferred ps)[i := d\<lparr>df_in_use := False\<rparr>]\<rparr> in
      if \<not> df_in_use d then (nd, ps)
      else if e_now ev - df_parked_at d > FLEXNET_DEFERRED_REQ_TTL then (nd, consumed)
      else if \<not> case_eq (df_target_base d) base then (nd, ps)
      else
        let si = df_peer_idx d in
        case s_LINK (sessions nd ! si) of
          None \<Rightarrow> (nd, consumed)
        | Some l \<Rightarrow> if \<not> s_active (sessions nd ! si) then (nd, consumed)
                    else flex_handle_path_req ev True l si (df_frame d) nd consumed)"

definition replay_deferred :: "env \<Rightarrow> string \<Rightarrow> node \<times> path_state \<Rightarrow> node \<times> path_state" where
  "replay_deferred ev base s = fold (replay_one ev base) [0..<FLEXNET_MAX_DEFERRED_REQ] s"

definition flex_handle_path_rep :: "env \<Rightarrow> nat \<Rightarrow> string \<Rightarrow> node \<Rightarrow> path_state \<Rightarrow> node \<times> path_state" where
  "flex_handle_path_rep ev l data nd ps =
     (case flex_parse_path_frame data of
        None \<Rightarrow> (nd, flex_parse_note_link ev PARSE_MALFORMED l ''PATH-REP'' data nd ps)
      | Some f \<Rightarrow>
          if \<not> pf_is_reply f
          then (nd, flex_parse_note_link ev PARSE_MALFORMED l ''PATH-REP'' data nd ps)
          else case first_idx (\<lambda>p. pp_active p \<and> pp_qso p = pf_qso f) (probes ps) of
            None \<Rightarrow> snd (flex_relay_path_rep ev (pf_origin f) (pf_hops f) data nd ps)
          | Some slot \<Rightarrow>
              let pr = probes ps ! slot; hops = pf_hops f; v = answer_verdict ev nd pr hops in
              case (if v = SPROBE_ANSWERED then cache_answer ev pr hops nd ps else (nd, ps)) of
                (nd1, ps1) \<Rightarrow>
                  let ps2 = flex_sysop_probe_close (pp_sysop_ring pr) (pf_qso f) v (Some hops) (e_now ev) ps1;
                      pr1 = pr\<lparr>pp_got_reply := True, pp_reply_hop_count := length hops,
                               pp_reply_hops := store_hops hops (pp_reply_hops pr), pp_active := False, pp_qso := 0\<rparr>
                  in replay_deferred ev (flex_base_call (pp_target_call pr) 20)
                       (nd1, ps2\<lparr>probes := (probes ps2)[slot := pr1]\<rparr>))"

section \<open>The path cache file\<close>

text \<open>
  The file is the list of its lines. \<open>e_cache_lines\<close> is what \<open>fgets\<close> returns, and
  \<open>path_cache_file\<close> what was written last.
\<close>

definition FLEXNET_PATH_CACHE_PERSIST_TTL :: int where "FLEXNET_PATH_CACHE_PERSIST_TTL = 5 * 3600"

definition cache_line :: "dest_entry \<Rightarrow> string" where
  "cache_line d = d_callsign d @ [SP] @ dec_of_int (d_ssid_lo d) @ [SP] @ dec_of_int (d_ssid_hi d) @ [SP] @
     dec_of_int (d_path_updated d) @ [SP] @ dec_of_int (d_path_len d) @
     concat (map (\<lambda>h. SP # h) (filter (\<lambda>h. h \<noteq> '''') (take FLEXNET_MAX_PATH_HOPS (dest_path d)))) @ [LF]"

definition cache_worth_saving :: "int \<Rightarrow> dest_entry \<Rightarrow> bool" where
  "cache_worth_saving now d \<longleftrightarrow> \<not> d_path_len d \<le> 0 \<and> d_callsign d \<noteq> '''' \<and>
     \<not> now - d_path_updated d \<ge> FLEXNET_PATH_CACHE_PERSIST_TTL"

definition flex_path_cache_save :: "env \<Rightarrow> node \<Rightarrow> path_state \<Rightarrow> int \<times> path_state" where
  "flex_path_cache_save ev nd ps =
     (if \<not> e_cache_write ev then (-1, ps)
      else let ls = map cache_line (filter (cache_worth_saving (e_now ev)) (dests nd)) in
           (int (length ls), ps\<lparr>path_cache_file := Some ([''# linbpq-flexnet path cache v1'' @ [LF],
              ''# format: call ssid_lo ssid_hi path_updated path_len hop1 hop2 ...'' @ [LF]] @ ls)\<rparr>))"

fun cache_hops :: "nat \<Rightarrow> string \<Rightarrow> string list" where
  "cache_hops 0 s = []"
| "cache_hops (Suc n) s =
     (let s' = dropWhile (\<lambda>c. c = SP \<or> c = TAB) s;
          h = take 9 (takeWhile (\<lambda>c. c \<noteq> SP \<and> c \<noteq> TAB \<and> c \<noteq> LF \<and> c \<noteq> CHR 0x00) s')
      in if s' = [] \<or> hd s' = LF \<or> hd s' = CHR 0x00 then [] else h # cache_hops n (drop (length h) s'))"

text \<open>
  \<open>sscanf(line, "%15s %d %d %ld %d%n", ...)\<close>. The callsign goes into a buffer of 10 bytes, so a
  longer one is written past its end: \<open>CacheOverrun\<close>.
\<close>

datatype cache_entry = CacheComment | CacheBad | CacheStale | CacheOverrun
  | CacheEntry string int int int "string list"

definition cache_fields :: "string \<Rightarrow> (string \<times> int \<times> int \<times> int \<times> int \<times> string) option" where
  "cache_fields line =
     do { (call, r0) \<leftarrow> scan_s 15 line; (lo, r1) \<leftarrow> scan_d r0; (hi, r2) \<leftarrow> scan_d r1;
          (upd, r3) \<leftarrow> scan_d r2; (n, r4) \<leftarrow> scan_d r3; Some (call, lo, hi, upd, n, r4) }"

definition read_cache_line :: "env \<Rightarrow> string \<Rightarrow> cache_entry" where
  "read_cache_line ev line =
     (if line = [] \<or> hd line = CHR ''#'' \<or> hd line = LF \<or> hd line = CHR 0x00 then CacheComment
      else case scan_s 15 line of
        None \<Rightarrow> CacheBad
      | Some (c0, _) \<Rightarrow>
          if length c0 \<ge> FLEXNET_MAX_CALLSIGN then CacheOverrun
          else case cache_fields line of
            None \<Rightarrow> CacheBad
          | Some (call, lo, hi, upd, n, rest) \<Rightarrow>
              if n < 1 \<or> n > int FLEXNET_MAX_PATH_HOPS then CacheBad
              else if e_now ev - upd \<ge> FLEXNET_PATH_CACHE_PERSIST_TTL then CacheStale
              else
                let hops = cache_hops (nat n) rest in
                if int (length hops) \<noteq> n \<or>
                   flex_chain_has_call hops (flex_normalize_callsign (e_conv ev) (e_mycall ev) 20) \<or>
                   \<not> flex_chain_ends_at hops call lo hi
                then CacheBad else CacheEntry call lo hi upd hops)"

definition load_entry :: "string \<Rightarrow> int \<Rightarrow> int \<Rightarrow> int \<Rightarrow> string list \<Rightarrow> node \<Rightarrow> node" where
  "load_entry call lo hi upd hops nd =
     (let set_path = (\<lambda>d. d\<lparr>d_path_len := int (length hops), d_path_updated := upd,
                            d_path_hops := store_hops hops (d_path_hops d)\<rparr>)
      in case flex_find_dest nd call lo hi of
           Some i \<Rightarrow> nd\<lparr>dests := (dests nd)[i := set_path (dests nd ! i)]\<rparr>
         | None \<Rightarrow>
             if length (dests nd) \<ge> FLEXNET_MAX_DESTS then nd
             else nd\<lparr>dests := dests nd @ [set_path (dest_entry0\<lparr>d_callsign := call, d_ssid_lo := lo, d_ssid_hi := hi,
                        d_rtt := FLEXNET_RTT_INFINITY, d_via_session_idx := -1\<rparr>)]\<rparr>)"

text \<open>\<open>None\<close> when a line overran the buffer.\<close>

fun flex_path_cache_load :: "env \<Rightarrow> string list \<Rightarrow> node \<Rightarrow> node option" where
  "flex_path_cache_load ev [] nd = Some nd"
| "flex_path_cache_load ev (l # ls) nd =
     (case read_cache_line ev l of
        CacheOverrun \<Rightarrow> None
      | CacheEntry call lo hi upd hops \<Rightarrow> flex_path_cache_load ev ls (load_entry call lo hi upd hops nd)
      | _ \<Rightarrow> flex_path_cache_load ev ls nd)"

end
