(* ===== verification/Flex_CF.thy ===== *)
theory Flex_CF
  imports Flex_Path Flex_L3 "HOL-Library.While_Combinator"
begin

text \<open>
  CF frames (FlexNetCode.c, \<open>FlexNet_ProcessCF\<close>): L3RTT probes sent, answered and matched to
  their replies, and layer 3 frames in transit, passed on to the neighbour the destination is routed
  through. The loop that reads the hops of a reply is a \<open>while_option\<close>, because it does not end
  on every frame; \<open>None\<close> is an operation that does not return.
\<close>

definition FLEXNET_PID_CF :: int where "FLEXNET_PID_CF = 0xCF"

definition to_bytes :: "string \<Rightarrow> byte list" where
  "to_bytes s = map of_char s"

definition of_bytes :: "byte list \<Rightarrow> string" where
  "of_bytes bs = map (\<lambda>b. char_of (unat b)) bs"

section \<open>Sending a probe\<close>

text \<open>The destination's own next hop, else the first session on its port.\<close>

definition l3rtt_session :: "node \<Rightarrow> dest_entry \<Rightarrow> nat option" where
  "l3rtt_session nd d =
     (let via = d_via_session_idx d in
      if 0 \<le> via \<and> via < int FLEXNET_MAX_SESSIONS \<and> s_active (sessions nd ! nat via) \<and>
         s_port (sessions nd ! nat via) = d_port d
      then Some (nat via)
      else first_idx (\<lambda>s. s_active s \<and> s_port s = d_port d) (sessions nd))"

definition port_call :: "env \<Rightarrow> node \<Rightarrow> nat \<Rightarrow> string" where
  "port_call ev nd l =
     (case LINKPORT (links nd ! l) of None \<Rightarrow> ''''
      | Some p \<Rightarrow> (case e_ports ev p of None \<Rightarrow> ''''
         | Some v \<Rightarrow> if PORTCALL v ! 0 \<noteq> 0 then trim_sp (e_conv ev (PORTCALL v)) else ''''))"

definition flex_send_l3rtt_probe ::
  "env \<Rightarrow> nat \<Rightarrow> string \<Rightarrow> int \<Rightarrow> node \<Rightarrow> path_state \<Rightarrow> bool \<times> node \<times> path_state" where
  "flex_send_l3rtt_probe ev di target_call target_ssid nd ps =
     (case first_idx (\<lambda>p. \<not> lp_active p) (l3_probes ps) of
        None \<Rightarrow> (False, nd, ps)
      | Some slot \<Rightarrow>
          (case l3rtt_session nd (dests nd ! di) of
             None \<Rightarrow> (False, nd, ps)
           | Some si \<Rightarrow>
               (case s_LINK (sessions nd ! si) of
                  None \<Rightarrow> (False, nd, ps)
                | Some l \<Rightarrow>
                    let mycall = port_call ev nd l;
                        fr = ''L3RTT:'' @ target_full target_call target_ssid @ [CR] @ mycall @ [CR] in
                    if mycall = '''' \<or> length fr \<ge> 128 then (False, nd, ps)
                    else (True, flex_send_frame ev l FLEXNET_PID_CF fr nd,
                          ps\<lparr>l3_probes := (l3_probes ps)[slot := l3_probe0\<lparr>lp_active := True,
                               lp_target_call := take 9 target_call, lp_target_ssid := target_ssid,
                               lp_dest_index := int di, lp_sent_time := e_now ev\<rparr>]\<rparr>))))"

section \<open>Matching a reply\<close>

text \<open>
  The loop over the hops. Its state is the rest of the frame and the hops so far. The \<open>break\<close> at
  the end of the frame is the empty rest.
\<close>

definition hop_cond :: "string \<times> string list \<Rightarrow> bool" where
  "hop_cond s \<longleftrightarrow> fst s \<noteq> [] \<and> length (snd s) < FLEXNET_MAX_PATH_HOPS"

definition hop_gap :: "char \<Rightarrow> bool" where
  "hop_gap c \<longleftrightarrow> c = CR \<or> c = LF \<or> c = SP"

definition hop_char :: "char \<Rightarrow> bool" where
  "hop_char c \<longleftrightarrow> c \<noteq> CR \<and> c \<noteq> LF \<and> c \<noteq> CHR 0x00"

definition hop_body :: "string \<times> string list \<Rightarrow> string \<times> string list" where
  "hop_body s =
     (let hp = dropWhile hop_gap (fst s); raw = take 9 (takeWhile hop_char hp); hop = trim_sp raw
      in (drop (length raw) hp, if hop = [] then snd s else snd s @ [hop]))"

definition reply_hops :: "string \<Rightarrow> string list option" where
  "reply_hops hp = map_option snd (while_option hop_cond hop_body (hp, []))"

definition reply_target :: "string \<Rightarrow> string" where
  "reply_target d = take 13 (takeWhile (\<lambda>c. c \<noteq> CR \<and> c \<noteq> CHR 0x00) d)"

definition flex_check_probe_reply ::
  "env \<Rightarrow> string \<Rightarrow> node \<Rightarrow> path_state \<Rightarrow> (bool \<times> node \<times> path_state) option" where
  "flex_check_probe_reply ev data nd ps =
     (let d = drop 6 data; t = reply_target d in
      case first_idx (\<lambda>p. lp_active p \<and> case_eq (lp_target_call p) (base_of (take 9 t))) (l3_probes ps) of
        None \<Rightarrow> Some (False, nd, ps)
      | Some i \<Rightarrow>
          let r = drop (length t) d; pr = l3_probes ps ! i in
          case reply_hops (if r \<noteq> [] \<and> hd r = CR then tl r else r) of
            None \<Rightarrow> None
          | Some hops \<Rightarrow>
              let pr1 = pr\<lparr>lp_reply_hops := store_hops hops (lp_reply_hops pr), lp_reply_hop_count := length hops,
                           lp_got_reply := True, lp_active := False\<rparr>;
                  di = lp_dest_index pr;
                  nd1 = (if 0 \<le> di \<and> di < int (length (dests nd))
                         then nd\<lparr>dests := (dests nd)[nat di := (dests nd ! nat di)
                                \<lparr>d_path_len := int (length hops),
                                 d_path_hops := store_hops hops (d_path_hops (dests nd ! nat di)),
                                 d_path_updated := e_now ev\<rparr>]\<rparr>
                         else nd)
              in Some (True, nd1, ps\<lparr>l3_probes := (l3_probes ps)[i := pr1]\<rparr>))"

section \<open>Answering a probe\<close>

text \<open>
  The reply, wrapped in a layer 3 INFO frame when the probe was. \<open>frame\<close> is uninitialised in the
  code and only its first \<open>flen\<close> bytes are sent.
\<close>

definition l3rtt_reply :: "env \<Rightarrow> string \<Rightarrow> nat list \<Rightarrow> node \<Rightarrow> string option" where
  "l3rtt_reply ev data cs nd =
     (let tick = (if flex_count_reachable nd > 0 then unat (e_ticks ev) else 0) in
      case flex_build_l3rtt 256 (cs ! 0) (cs ! 1) tick tick (Some (e_alias ev)) (length (dests nd)) of
        None \<Rightarrow> None
      | Some rtt \<Rightarrow>
          (case flexl3_parse (to_bytes data) l3_header0 of
             (rc, h) \<Rightarrow>
               if flexl3_is_connection_frame (to_bytes data) \<and> rc = 0 \<and> h_opcode h = FLEXL3_INFO
               then (case flexl3_build_info (replicate 256 0) 256 (h_source h) (e_mycall ev) (h_ttl h) (h_circuit_index h)
                            (h_circuit_id h) 0 0 (to_bytes rtt) (int (length rtt)) of
                       None \<Rightarrow> None
                     | Some (n, buf) \<Rightarrow> if n > 0 then Some (of_bytes (take (nat n) buf)) else None)
               else if length rtt \<le> 256 then Some rtt else None))"

definition answer_l3rtt :: "env \<Rightarrow> nat \<Rightarrow> string \<Rightarrow> node \<Rightarrow> path_state \<Rightarrow> node \<times> path_state" where
  "answer_l3rtt ev l data nd ps =
     (case flex_parse_l3rtt_counters data of
        None \<Rightarrow> (nd, ps\<lparr>p_stats := flex_parse_note PARSE_MALFORMED (Some (trim_sp (e_conv ev (link_call nd l))))
                        (Some ''L3RTT'') data (e_now ev) (p_stats ps)\<rparr>)
      | Some cs \<Rightarrow>
          (case l3rtt_reply ev data cs nd of
             None \<Rightarrow> (nd, ps)
           | Some fr \<Rightarrow> (flex_send_frame ev l FLEXNET_PID_CF fr nd, ps)))"

section \<open>Frames in transit\<close>

definition cf_row_matches :: "string \<Rightarrow> int \<Rightarrow> dest_entry \<Rightarrow> bool" where
  "cf_row_matches dst arrival d \<longleftrightarrow> \<not> d_rtt d \<ge> FLEXNET_RTT_INFINITY \<and> \<not> d_via_session_idx d < 0 \<and>
     d_via_session_idx d \<noteq> arrival \<and>
     (case_eq (d_callsign d) dst \<or>
      (let t = take 19 dst; b = base_of t; r = drop (length b) t; ssid = (if r = [] then -1 else atoi (tl r))
       in case_eq (d_callsign d) b \<and> \<not> (ssid \<ge> 0 \<and> (ssid < d_ssid_lo d \<or> ssid > d_ssid_hi d))))"

definition cf_route :: "env \<Rightarrow> nat \<Rightarrow> string \<Rightarrow> node \<Rightarrow> int" where
  "cf_route ev l data nd =
     (let dst = take 7 (drop 7 (to_bytes data));
          arrival = (case first_idx (\<lambda>s. s_active s \<and> s_LINK s = Some l) (sessions nd) of None \<Rightarrow> -1 | Some i \<Rightarrow> int i)
      in if \<not> transit_enabled nd \<or> length data < 20 \<or> take 6 dst = take 6 (e_mycall ev) then -1
         else case first_idx (cf_row_matches (trim_sp (e_conv ev dst)) arrival) (dests nd) of
                None \<Rightarrow> -1 | Some i \<Rightarrow> d_via_session_idx (dests nd ! i))"

text \<open>The result: did the layer consume the frame? \<open>buf\<close> is the PID and the payload.\<close>

definition FlexNet_ProcessCF ::
  "env \<Rightarrow> nat \<Rightarrow> string \<Rightarrow> node \<Rightarrow> path_state \<Rightarrow> (bool \<times> node \<times> path_state) option" where
  "FlexNet_ProcessCF ev l buf nd ps =
     (if length buf < 2 then Some (True, nd, ps)
      else
        let data = tl buf in
        if flex_find_l3rtt_tag data \<noteq> None
        then (case flex_check_probe_reply ev data nd ps of
                None \<Rightarrow> None
              | Some (True, nd1, ps1) \<Rightarrow> Some (True, nd1, ps1)
              | Some (False, nd1, ps1) \<Rightarrow> Some (True, answer_l3rtt ev l data nd1 ps1))
        else
          let via = cf_route ev l data nd in
          if via \<ge> 0 \<and> s_active (sessions nd ! nat via) \<and> s_LINK (sessions nd ! nat via) \<noteq> None
          then let ttl = (of_char (data ! 14) :: nat) in
               if ttl \<le> 1 then Some (True, nd, ps)
               else Some (True, flex_send_frame ev (the (s_LINK (sessions nd ! nat via))) FLEXNET_PID_CF
                            (data[14 := char_of (ttl - 1)]) nd, ps)
          else Some (False, nd, ps))"

end
