(* ===== verification/Flex_CF_Props.thy ===== *)
theory Flex_CF_Props
  imports Flex_CF
begin

text \<open>
  Which CF frames the layer finishes with, and the frame on which the hop loop does not end.
\<close>

section \<open>The hop loop\<close>

lemma hop_body_step:
  assumes "hop_cond s" "CHR 0x00 \<notin> set (fst s)"
  shows "length (fst (hop_body s)) < length (fst s)" "set (fst (hop_body s)) \<subseteq> set (fst s)"
proof -
  let ?hp = "dropWhile hop_gap (fst s)" and ?raw = "take 9 (takeWhile hop_char (dropWhile hop_gap (fst s)))"
  have le: "length ?hp \<le> length (fst s)" by (rule length_dropWhile_le)
  have b: "fst (hop_body s) = drop (length ?raw) ?hp" by (simp add: hop_body_def Let_def)
  show "set (fst (hop_body s)) \<subseteq> set (fst s)"
    unfolding b using set_drop_subset [of "length ?raw" ?hp] set_dropWhileD [of _ hop_gap "fst s"] by blast
  show "length (fst (hop_body s)) < length (fst s)"
  proof (cases ?hp)
    case Nil
    then have "fst (hop_body s) = []" using b by (metis drop_Nil)
    then show ?thesis using assms(1) by (simp add: hop_cond_def)
  next
    case (Cons c cs)
    have "\<not> hop_gap c" using Cons by (metis hd_dropWhile list.distinct(1) list.sel(1))
    moreover have "c \<in> set (fst s)" using Cons set_dropWhileD [of c hop_gap "fst s"] by simp
    then have "c \<noteq> CHR 0x00" using assms(2) by metis
    ultimately have hc: "hop_char c" by (simp add: hop_gap_def hop_char_def)
    then show ?thesis using le by (simp add: b Cons hc)
  qed
qed

lemma trim_sp_length: "length (trim_sp s) \<le> length s"
  unfolding trim_sp_def by (induction s rule: rev_induct) simp_all

definition hops_bounded :: "string list \<Rightarrow> bool" where
  "hops_bounded hs \<longleftrightarrow> length hs \<le> FLEXNET_MAX_PATH_HOPS \<and> (\<forall>h \<in> set hs. h \<noteq> [] \<and> length h \<le> 9)"

lemma hop_body_bounded: "hop_cond s \<Longrightarrow> hops_bounded (snd s) \<Longrightarrow> hops_bounded (snd (hop_body s))"
  using trim_sp_length [of "take 9 (takeWhile hop_char (dropWhile hop_gap (fst s)))"]
  by (auto simp: hop_body_def hop_cond_def hops_bounded_def Let_def)

lemma reply_hops_bounded: "reply_hops hp = Some hs \<Longrightarrow> hops_bounded hs"
proof -
  assume "reply_hops hp = Some hs"
  then obtain r where r: "while_option hop_cond hop_body (hp, []) = Some (r, hs)" by (auto simp: reply_hops_def)
  have "hops_bounded (snd (r, hs))"
  proof (rule while_option_rule [where P = "\<lambda>s. hops_bounded (snd s)", OF _ r])
    show "hops_bounded (snd (hp, []))" by (simp add: hops_bounded_def)
  qed (rule hop_body_bounded)
  then show ?thesis by simp
qed

lemma reply_hops_returns:
  assumes "CHR 0x00 \<notin> set hp"
  shows "\<exists>hs. reply_hops hp = Some hs"
proof -
  have "\<exists>t. while_option hop_cond hop_body (hp, []) = Some t"
  proof (rule measure_while_option_Some [where P = "\<lambda>s. CHR 0x00 \<notin> set (fst s)" and f = "\<lambda>s. length (fst s)"])
    show "CHR 0x00 \<notin> set (fst (hop_body s)) \<and> length (fst (hop_body s)) < length (fst s)"
      if "CHR 0x00 \<notin> set (fst s)" "hop_cond s" for s
      using hop_body_step [OF that(2,1)] that(1) by blast
  qed (use assms in simp)
  then show ?thesis by (auto simp: reply_hops_def)
qed

text \<open>A loop body that changes nothing while its condition holds never ends.\<close>

lemma while_option_stuck:
  assumes "b s" "c s = s"
  shows "while_option b c s = None"
proof (rule ccontr)
  assume "while_option b c s \<noteq> None"
  then obtain t where "while_option b c s = Some t" by blast
  then obtain k where k: "t = (c ^^ k) s" "\<not> b t" using while_option_stop2 by metis
  have "(c ^^ k) s = s" by (induction k) (simp_all add: assms(2))
  with k assms(1) show False by simp
qed

lemma set_rest_subset: "set (let r = drop n (drop m xs) in if r \<noteq> [] \<and> hd r = c then tl r else r) \<subseteq> set xs"
proof -
  have "set (drop n (drop m xs)) \<subseteq> set xs" by (metis drop_drop set_drop_subset)
  moreover have "set (tl ys) \<subseteq> set ys" for ys :: "'a list" by (cases ys) auto
  ultimately show ?thesis by (auto simp: Let_def)
qed

text \<open>C25: the layer finishes with every CF frame that holds no zero byte, whatever probes are pending and
  whatever the frame is: an L3RTT probe or reply, a frame in transit or one for the node itself.\<close>

theorem process_cf_returns:
  assumes "CHR 0x00 \<notin> set buf"
  shows "\<exists>r. FlexNet_ProcessCF ev l buf nd ps = Some r"
proof -
  have n: "CHR 0x00 \<notin> set (tl buf)" using assms by (cases buf) auto
  have "\<exists>b nd1 ps1. flex_check_probe_reply ev (tl buf) nd ps = Some (b, nd1, ps1)"
  proof -
    let ?d = "drop 6 (tl buf)"
    let ?r = "let r = drop (length (reply_target ?d)) ?d in if r \<noteq> [] \<and> hd r = CR then tl r else r"
    have "CHR 0x00 \<notin> set ?r" using set_rest_subset [of "length (reply_target ?d)" 6 "tl buf" CR] n by blast
    then obtain hs where "reply_hops ?r = Some hs" using reply_hops_returns by blast
    then show ?thesis by (auto simp: flex_check_probe_reply_def Let_def split: option.split)
  qed
  then show ?thesis by (auto simp: FlexNet_ProcessCF_def Let_def split: option.split bool.split)
qed

section \<open>A frame on which it does not end\<close>

definition hang_probe :: path_state where
  "hang_probe = path_state0\<lparr>l3_probes := l3_probe0\<lparr>lp_active := True, lp_target_call := ''DB0FAA''\<rparr> # replicate 3 l3_probe0\<rparr>"

definition hang_frame :: string where
  "hang_frame = CHR 0xCF # ''L3RTT:DB0FAA'' @ [CR, CHR 0x00]"

lemma reply_hops_hang: "reply_hops [CHR 0x00] = None"
proof -
  have "while_option hop_cond hop_body ([CHR 0x00], []) = None"
    by (rule while_option_stuck) (simp_all add: hop_cond_def hop_body_def hop_gap_def hop_char_def trim_sp_def FLEXNET_MAX_PATH_HOPS_def)
  then show ?thesis by (simp add: reply_hops_def)
qed

text \<open>C26: one zero byte after the target of a reply to a pending probe is enough to hang the node: the
  loop that reads the hops neither consumes it nor stops at it. Any neighbour can send this frame.\<close>

theorem process_cf_hangs:
  "FlexNet_ProcessCF ev l hang_frame nd hang_probe = None"
proof -
  have tag: "flex_find_l3rtt_tag (tl hang_frame) \<noteq> None" by code_simp
  have d: "drop 6 (tl hang_frame) = ''DB0FAA'' @ [CR, CHR 0x00]" by code_simp
  have t: "reply_target (''DB0FAA'' @ [CR, CHR 0x00]) = ''DB0FAA''" by code_simp
  have p: "first_idx (\<lambda>p. lp_active p \<and> case_eq (lp_target_call p) (base_of (take 9 ''DB0FAA''))) (l3_probes hang_probe) = Some 0"
    by code_simp
  have "flex_check_probe_reply ev (tl hang_frame) nd hang_probe = None"
    unfolding flex_check_probe_reply_def Let_def d t p by (simp add: reply_hops_hang)
  with tag show ?thesis by (simp add: FlexNet_ProcessCF_def hang_frame_def)
qed

section \<open>The hypothesis can hold\<close>

definition transit_demo_node :: node where
  "transit_demo_node = demo_node\<lparr>dests := [dest_entry0\<lparr>d_callsign := ''IW2OHX'', d_ssid_lo := 0, d_ssid_hi := 15,
     d_rtt := 5, d_via_session_idx := 0\<rparr>]\<rparr>"

lemma process_cf_returns_witness:
  "\<exists>r. FlexNet_ProcessCF demo_env 1 (CHR 0xCF # ''L3RTT:DB0FAA'' @ [CR] @ ''IR2UFV HB9ON'' @ [CR]) transit_demo_node hang_probe = Some r"
  by (rule process_cf_returns) code_simp

end
