(* ===== verification/Flex_Session.thy ===== *)
theory Flex_Session
  imports Flex_CF
begin

text \<open>
  The life of a session (FlexNetCode.c): found by its link, started or taken up again
  (\<open>FlexNet_InitSession\<close>), closed (\<open>FlexNet_CloseSession\<close>), adopted when the
  neighbour's link comes back (\<open>FlexNet_TryAdoptSession\<close>), driven by CE frames
  (\<open>FlexNet_ProcessCE\<close>). What the layer keeps beside the node's tables is the record
  \<open>life\<close>. A link whose \<open>LINKPORT\<close> is not set never reaches the port number
  the code reads through it; the model does nothing there.
\<close>

section \<open>State\<close>

record life =
  lf_node :: node
  lf_ps :: path_state
  init_done :: bool
  link_opts_polled :: int
  port_link_scanned :: int
  path_cache_loaded :: bool
  path_cache_last_save :: int
  last_proactive_init_scan :: int
  last_path_probe :: int
  path_probe_idx :: nat
  findroute_last_dest :: int
  findroute_last_ext :: int
  sabm_sent :: "nat list"

definition life0 :: "node \<Rightarrow> life" where
  "life0 nd = \<lparr>lf_node = nd, lf_ps = path_state0, init_done = False, link_opts_polled = 0, port_link_scanned = 0,
     path_cache_loaded = False, path_cache_last_save = 0, last_proactive_init_scan = 0, last_path_probe = 0,
     path_probe_idx = 0, findroute_last_dest = -1, findroute_last_ext = -1, sabm_sent = []\<rparr>"

definition on_node :: "(node \<Rightarrow> node) \<Rightarrow> life \<Rightarrow> life" where
  "on_node f s = s\<lparr>lf_node := f (lf_node s)\<rparr>"

definition on_paths :: "(node \<Rightarrow> path_state \<Rightarrow> node \<times> path_state) \<Rightarrow> life \<Rightarrow> life" where
  "on_paths f s = (case f (lf_node s) (lf_ps s) of (nd, ps) \<Rightarrow> s\<lparr>lf_node := nd, lf_ps := ps\<rparr>)"

definition flex_find_session :: "node \<Rightarrow> nat \<Rightarrow> nat option" where
  "flex_find_session nd l =
     first_idx (\<lambda>s. s_LINK s = Some l \<and> s_active s) (take (session_count nd) (sessions nd))"

definition link_peer :: "env \<Rightarrow> node \<Rightarrow> nat \<Rightarrow> string" where
  "link_peer ev nd l = trim_sp (e_conv ev (link_call nd l))"

definition view_of :: "bpq_link \<Rightarrow> link_view" where
  "view_of b = \<lparr>LINKCALL = LINKCALL b, L2STATE = L2STATE b\<rparr>"

definition link_up :: "node \<Rightarrow> nat \<Rightarrow> bool" where
  "link_up nd l = flex_l2_connected (Some (view_of (links nd ! l)))"

definition set_flexlink :: "nat \<Rightarrow> bool \<Rightarrow> node \<Rightarrow> node" where
  "set_flexlink l b nd = upd_link l (\<lambda>x. x\<lparr>FlexNetLink := b\<rparr>) nd"

definition note_event :: "env \<Rightarrow> string \<Rightarrow> string \<Rightarrow> node \<Rightarrow> node" where
  "note_event ev peer what nd = nd\<lparr>sess_events := flex_sess_event (Some peer) (Some what) (e_now ev) (sess_events nd)\<rparr>"

section \<open>Establishment\<close>

definition FLEXNET_REINIT_GUARD :: int where "FLEXNET_REINIT_GUARD = 60"

definition flex_reinit_answer :: "bool \<Rightarrow> int \<Rightarrow> int \<Rightarrow> bool" where
  "flex_reinit_answer established last_init now =
     (if \<not> established then False
      else last_init = 0 \<or> now < last_init \<or> now - last_init \<ge> FLEXNET_REINIT_GUARD)"

text \<open>"CALL-n" cut at its first dash, after it went into a buffer of 10 bytes.\<close>

definition nbr_split :: "string \<Rightarrow> string \<times> int" where
  "nbr_split snbr =
     (let t = take (FLEXNET_MAX_CALLSIGN - 1) snbr; b = base_of t; r = drop (length b) t
      in (b, if r = [] then 0 else atoi (tl r)))"

definition nbr_hi :: "session \<Rightarrow> string \<Rightarrow> int \<Rightarrow> learned_route list \<Rightarrow> int" where
  "nbr_hi s base ssid rs =
     (if got_peer_init s then (if peer_max_ssid s > ssid then peer_max_ssid s else ssid)
      else case first_idx (\<lambda>r. l_direct r \<and> l_lo r = ssid \<and> l_hi r \<ge> ssid \<and> call_eq10 (l_call r) base) rs of
             None \<Rightarrow> ssid | Some i \<Rightarrow> l_hi (rs ! i))"

definition flex_add_neighbour_entry :: "env \<Rightarrow> nat \<Rightarrow> node \<Rightarrow> node" where
  "flex_add_neighbour_entry ev si nd =
     (case s_LINK (sessions nd ! si) of
        None \<Rightarrow> nd
      | Some l \<Rightarrow>
          if si \<ge> FLEXNET_MAX_SESSIONS \<or> nbr_entered nd ! si then nd
          else
            let snbr = link_peer ev nd l; (base, ssid) = nbr_split snbr;
                hi = nbr_hi (sessions nd ! si) base ssid (routes (learned nd ! si));
                entry = dest_entry0\<lparr>d_callsign := base, d_ssid_lo := ssid, d_ssid_hi := hi, d_rtt := 1,
                          d_via_callsign := take (FLEXNET_MAX_CALLSIGN - 1) snbr, d_port := s_port (sessions nd ! si)\<rparr>;
                nd1 = snd (flex_dtable_merge ev entry (Some si) (nd\<lparr>nbr_entered := (nbr_entered nd)[si := True]\<rparr>))
            in if \<not> transit_enabled nd1 then nd1
               else case first_idx (\<lambda>r. l_lo r = ssid \<and> l_hi r = hi \<and> call_eq10 (l_call r) base) (routes (learned nd1 ! si)) of
                 None \<Rightarrow> nd1
               | Some i \<Rightarrow> upd_learned si (set_route i (\<lambda>r. r\<lparr>l_direct := True\<rparr>)) nd1)"

definition session_link :: "node \<Rightarrow> session \<Rightarrow> link_view option" where
  "session_link nd s = map_option (\<lambda>l. view_of (links nd ! l)) (s_LINK s)"

definition flex_note_peer_established :: "env \<Rightarrow> nat \<Rightarrow> node \<Rightarrow> node" where
  "flex_note_peer_established ev si nd =
     (let s = sessions nd ! si in
      if got_peer_init s \<or> flex_est_inferred s then nd
      else if \<not> flex_l2_connected (session_link nd s) then nd
      else flex_add_neighbour_entry ev si (upd_sess si (\<lambda>s. s\<lparr>flex_est_inferred := True\<rparr>) nd))"

definition FlexNet_NotePeerL2Restart :: "env \<Rightarrow> byte list \<Rightarrow> int \<Rightarrow> node \<Rightarrow> node" where
  "FlexNet_NotePeerL2Restart ev ax port nd =
     (case first_idx (\<lambda>s. s_active s \<and> s_port s = port \<and> flex_l2_same_call (peer_callsign s) ax) (sessions nd) of
        None \<Rightarrow> nd
      | Some i \<Rightarrow>
          if \<not> pcf_quiesced (sessions nd ! i) then nd
          else set_advs i adv_state0
                 (upd_sess i (\<lambda>s. s\<lparr>pcf_quiesced := False, quiesced_since := 0, sent_routes := False\<rparr>) nd))"

section \<open>Start of the layer\<close>

text \<open>The multiplicative hash of a callsign, in \<open>unsigned\<close>.\<close>

definition call_hash :: "string \<Rightarrow> 32 word" where
  "call_hash call = foldl (\<lambda>h c. h * 31 + of_char c) 0 call"

definition port_link_resolved :: "env \<Rightarrow> node \<Rightarrow> port_link \<Rightarrow> port_link" where
  "port_link_resolved ev nd pl =
     (case e_ports ev (pl_port pl) of
        None \<Rightarrow> pl
      | Some v \<Rightarrow>
          let axip = FlexNet_AXIPMapState ev (pl_axcall pl) (pl_port pl) in
          if axip = 0 then pl
          else if axip < 0 \<and> PORTTYPE v \<noteq> FLEX_HW_ASYNC \<and> PORTTYPE v \<noteq> FLEX_HW_I2C then pl
          else if axip < 0 \<and> \<not> flex_port_is_flexnet nd (pl_port pl) then pl
          else pl\<lparr>pl_opts := (if axip > 0 \<and> pl_opts pl \<noteq> 0 then 0 else pl_opts pl), pl_usable := True,
                  pl_next_try := e_now ev + FLEXNET_PORTLINK_FIRST + uint (call_hash (pl_call pl) mod 10)\<rparr>)"

definition flex_port_links_resolve :: "env \<Rightarrow> node \<Rightarrow> node" where
  "flex_port_links_resolve ev nd = nd\<lparr>port_links := map (port_link_resolved ev nd) (port_links nd)\<rparr>"

text \<open>\<open>FlexNetTransitSessions\<close> is cleared here and used nowhere else; it is left out.\<close>

definition FlexNet_Init :: "env \<Rightarrow> life \<Rightarrow> life" where
  "FlexNet_Init ev s =
     (if init_done s then s
      else
        let nd0 = (lf_node s)\<lparr>dests := [], sessions := replicate FLEXNET_MAX_SESSIONS session0, session_count := 0,
                     learned := replicate FLEXNET_MAX_SESSIONS learned0,
                     advertised := replicate FLEXNET_MAX_SESSIONS adv_state0\<rparr>;
            nd1 = flex_load_config (e_toax25 ev) (e_cfg ev) nd0;
            nd2 = flex_port_links_resolve ev nd1;
            nd3 = flex_local_init (e_conv ev) (e_mycall ev) (e_appls ev) (\<lambda>p. e_ports ev p \<noteq> None) nd2
        in s\<lparr>init_done := True, lf_node := nd3,
             lf_ps := (lf_ps s)\<lparr>l3_probes := replicate FLEXNET_MAX_PROBES l3_probe0\<rparr>\<rparr>)"

section \<open>Starting a session\<close>

text \<open>The reset of a session that never got established.\<close>

definition rehandshake :: "env \<Rightarrow> nat \<Rightarrow> nat \<Rightarrow> node \<Rightarrow> node" where
  "rehandshake ev l i nd =
     send_keepalive ev l (flex_send_init ev l i
       (upd_sess i (\<lambda>s. s\<lparr>sent_routes := False, got_peer_init := False, flex_est_inferred := False,
          keepalive_count := 0, session_start := e_now ev, last_keepalive := e_now ev\<rparr>) nd))"

definition same_link :: "env \<Rightarrow> nat \<Rightarrow> nat \<Rightarrow> node \<Rightarrow> node" where
  "same_link ev l i nd =
     (let nd1 = upd_sess i (\<lambda>s. s\<lparr>peer_callsign := link_call nd l\<rparr>) (set_flexlink l True nd)
      in if flex_is_established (sessions nd1 ! i) then nd1 else rehandshake ev l i nd1)"

definition moved_link :: "env \<Rightarrow> nat \<Rightarrow> nat \<Rightarrow> node \<Rightarrow> node" where
  "moved_link ev l i nd =
     (let nd1 = upd_sess i (\<lambda>s. s\<lparr>s_LINK := Some l, peer_callsign := link_call nd l\<rparr>)
                  (set_flexlink l True (set_flexlink (the (s_LINK (sessions nd ! i))) False nd))
      in if flex_is_established (sessions nd1 ! i) then nd1 else rehandshake ev l i nd1)"

definition fresh_tables :: "env \<Rightarrow> nat \<Rightarrow> string \<Rightarrow> node \<Rightarrow> node" where
  "fresh_tables ev i call nd =
     (let nd1 = set_advs i adv_state0 ((upd_sess i (\<lambda>_. session0) nd)\<lparr>ka_echo_at := (ka_echo_at nd)[i := 0]\<rparr>);
          nd2 = (case flex_learned_adopt ev i call nd1 of
                   (True, n) \<Rightarrow> n | (False, n) \<Rightarrow> upd_learned i (\<lambda>_. learned0) n)
      in upd_learned i (\<lambda>st. st\<lparr>l_peer_call := take 19 call, died_at := 0\<rparr>) nd2)"

definition start_session :: "env \<Rightarrow> nat \<Rightarrow> int \<Rightarrow> nat \<Rightarrow> node \<Rightarrow> node" where
  "start_session ev l port i nd =
     (let call = link_peer ev nd l; lopts = FlexNet_PeerLinkOpts ev nd (link_call nd l) port;
          nd1 = upd_sess i (\<lambda>s. s\<lparr>s_LINK := Some l, s_port := port, s_active := True, our_link_time := 2,
                   session_start := e_now ev, peer_callsign := link_call nd l\<rparr>) (fresh_tables ev i call nd);
          nd2 = nd1\<lparr>link_opts := (link_opts nd1)[i := (if lopts < 0 then 0 else lopts)],
                    reap_bad_since := (reap_bad_since nd1)[i := 0], sess_started := sess_started nd1 + 1,
                    session_count := (if session_count nd1 < FLEXNET_MAX_SESSIONS then session_count nd1 + 1
                                      else session_count nd1)\<rparr>;
          nd3 = set_flexlink l True (note_event ev call ''session started'' nd2);
          nd4 = send_keepalive ev l (flex_send_init ev l i nd3)
      in (upd_sess i (\<lambda>s. s\<lparr>last_keepalive := e_now ev\<rparr>) nd4)\<lparr>nbr_entered := (nbr_entered nd4)[i := False]\<rparr>)"

definition link_moved :: "node \<Rightarrow> nat \<Rightarrow> int \<Rightarrow> session \<Rightarrow> bool" where
  "link_moved nd l port s \<longleftrightarrow> s_active s \<and> s_port s = port \<and>
     (case s_LINK s of None \<Rightarrow> False
      | Some old \<Rightarrow> old \<noteq> l \<and> take 7 (link_call nd old) = take 7 (link_call nd l))"

definition init_session :: "env \<Rightarrow> nat \<Rightarrow> int \<Rightarrow> node \<Rightarrow> node" where
  "init_session ev l port nd =
     (case first_idx (\<lambda>s. s_active s \<and> s_LINK s = Some l) (sessions nd) of
        Some i \<Rightarrow> same_link ev l i nd
      | None \<Rightarrow>
          (case first_idx (link_moved nd l port) (sessions nd) of
             Some i \<Rightarrow> moved_link ev l i nd
           | None \<Rightarrow>
               (case first_idx (\<lambda>s. \<not> s_active s) (sessions nd) of
                  None \<Rightarrow> nd
                | Some i \<Rightarrow> start_session ev l port i nd)))"

definition FlexNet_InitSession :: "env \<Rightarrow> nat \<Rightarrow> int \<Rightarrow> life \<Rightarrow> life" where
  "FlexNet_InitSession ev l port s = on_node (init_session ev l port) (FlexNet_Init ev s)"

section \<open>Closing a session\<close>

definition FlexNet_CloseSession :: "env \<Rightarrow> nat \<Rightarrow> node \<Rightarrow> node" where
  "FlexNet_CloseSession ev l nd =
     (case flex_find_session nd l of
        None \<Rightarrow> nd
      | Some i \<Rightarrow>
          let nd1 = note_event ev (link_peer ev nd l) ''closed by L2'' (nd\<lparr>sess_closed := sess_closed nd + 1\<rparr>);
              nd2 = upd_learned i (\<lambda>st. st\<lparr>died_at := e_now ev\<rparr>) nd1;
              nd3 = set_flexlink l False (upd_sess i (\<lambda>s. s\<lparr>s_active := False, s_LINK := None\<rparr>) nd2)
          in flex_advertise_poison_session ev i (flex_dest_reelect_via ev i nd3))"

section \<open>A neighbour's link comes back\<close>

definition adopt_match :: "env \<Rightarrow> int \<Rightarrow> string \<Rightarrow> session \<Rightarrow> bool" where
  "adopt_match ev port call s \<longleftrightarrow> s_active s \<and> s_port s = port \<and> peer_callsign s ! 0 \<noteq> 0 \<and>
     (let e = flex_normalize_callsign (e_conv ev) (peer_callsign s) 12 in e \<noteq> '''' \<and> e = call)"

definition close_declared :: "env \<Rightarrow> nat \<Rightarrow> int \<Rightarrow> nat \<Rightarrow> node \<Rightarrow> node" where
  "close_declared ev l port i nd =
     (let s = sessions nd ! i in
      case s_LINK s of
        None \<Rightarrow> nd
      | Some old \<Rightarrow> if s_active s \<and> s_port s = port \<and> flex_l2_same_call (peer_callsign s) (link_call nd l)
                    then FlexNet_CloseSession ev old nd else nd)"

definition adopt_session :: "nat \<Rightarrow> nat \<Rightarrow> node \<Rightarrow> node" where
  "adopt_session l i nd =
     (let nd1 = (case s_LINK (sessions nd ! i) of
                   None \<Rightarrow> nd | Some old \<Rightarrow> if old \<noteq> l then set_flexlink old False nd else nd);
          nd2 = set_flexlink l True (upd_sess i (\<lambda>s. s\<lparr>s_LINK := Some l, peer_callsign := link_call nd l\<rparr>) nd1)
      in nd2\<lparr>reap_bad_since := (reap_bad_since nd2)[i := 0]\<rparr>)"

definition FlexNet_TryAdoptSession :: "env \<Rightarrow> nat \<Rightarrow> int \<Rightarrow> node \<Rightarrow> bool \<times> node" where
  "FlexNet_TryAdoptSession ev l port nd =
     (if link_call nd l ! 0 = 0 then (False, nd)
      else if flex_port_link_find nd (link_call nd l) port \<noteq> None
      then (False, fold (close_declared ev l port) [0..<FLEXNET_MAX_SESSIONS] nd)
      else
        let call = flex_normalize_callsign (e_conv ev) (link_call nd l) 12 in
        if call = '''' then (False, nd)
        else case first_idx (adopt_match ev port call) (sessions nd) of
          None \<Rightarrow> (False, nd)
        | Some i \<Rightarrow> (True, adopt_session l i nd))"

section \<open>CE frames\<close>

text \<open>The node's own routes once, then what it learned from the others.\<close>

definition send_first_routes :: "env \<Rightarrow> nat \<Rightarrow> nat \<Rightarrow> node \<Rightarrow> node" where
  "send_first_routes ev l si nd =
     flex_advertise_seed_peer ev si (upd_sess si (\<lambda>s. s\<lparr>sent_routes := True\<rparr>) (flex_send_own_routes ev l False nd))"

definition ce_init_ssid :: "string \<Rightarrow> int" where
  "ce_init_ssid data = clamp_ssid (if length data \<ge> 2 then int (of_char (data ! 1)) - FLEXNET_SSID_BASE else 15)"

text \<open>The neighbour's family, from the length of its INIT, while no keepalive told it.\<close>

definition ce_init_shape :: "env \<Rightarrow> nat \<Rightarrow> nat \<Rightarrow> string \<Rightarrow> node \<Rightarrow> node" where
  "ce_init_shape ev l si data nd =
     (if peer_ka_len (sessions nd ! si) \<noteq> 0 then nd
      else if length data \<ge> 6
      then send_keepalive ev l (upd_sess si (\<lambda>s. s\<lparr>peer_ka_len := 201, peer_ka_term := CR\<rparr>) nd)
      else upd_sess si (\<lambda>s. s\<lparr>peer_ka_len := int FLEXNET_KEEPALIVE_LEN, peer_ka_term := SP\<rparr>) nd)"

definition ce_reinit :: "env \<Rightarrow> nat \<Rightarrow> nat \<Rightarrow> node \<Rightarrow> node" where
  "ce_reinit ev l si nd =
     (let nd1 = send_keepalive ev l (flex_send_init ev l si nd);
          nd2 = upd_sess si (\<lambda>s. s\<lparr>last_keepalive := e_now ev, sent_routes := False, pcf_quiesced := False,
                   quiesced_since := 0\<rparr>) nd1
      in note_event ev (link_peer ev nd l) ''peer re-INIT answered'' (set_advs si adv_state0 nd2))"

definition ce_init :: "env \<Rightarrow> nat \<Rightarrow> nat \<Rightarrow> string \<Rightarrow> node \<Rightarrow> node" where
  "ce_init ev l si data nd =
     (let s = sessions nd ! si;
          reinit = flex_reinit_answer (flex_is_established s) (last_init_tx s) (e_now ev);
          nd1 = flex_add_neighbour_entry ev si
                  (upd_sess si (\<lambda>s. s\<lparr>got_peer_init := True, peer_max_ssid := ce_init_ssid data\<rparr>) nd);
          nd2 = ce_init_shape ev l si data nd1;
          nd3 = (if reinit then ce_reinit ev l si nd2 else nd2)
      in if sent_routes (sessions nd3 ! si) then nd3 else send_first_routes ev l si nd3)"

definition ce_keepalive :: "env \<Rightarrow> nat \<Rightarrow> nat \<Rightarrow> string \<Rightarrow> node \<Rightarrow> node" where
  "ce_keepalive ev l si data nd =
     (let nd1 = flex_note_peer_established ev si
                  (upd_sess si (\<lambda>s. s\<lparr>keepalive_count := keepalive_count s + 1\<rparr>) nd);
          nd2 = (if 2 \<le> length data \<and> length data \<le> FLEXNET_KEEPALIVE_LEN
                 then upd_sess si (\<lambda>s. s\<lparr>peer_ka_len := int (length data), peer_ka_term := data ! (length data - 1)\<rparr>) nd1
                 else nd1);
          (echo, echoed) = flex_ka_should_echo (int si) (flex_peer_is_pcf (Some (sessions nd2 ! si))) (e_now ev) (ka_echo_at nd2);
          nd3 = nd2\<lparr>ka_echo_at := echoed\<rparr>;
          nd4 = (if echo then send_keepalive ev l nd3 else nd3);
          nd5 = snd (flex_send_link_time ev l si nd4);
          s = sessions nd5 ! si;
          nd6 = (if \<not> sent_routes s \<and> flex_is_established s then send_first_routes ev l si nd5 else nd5)
      in upd_sess si (\<lambda>s. s\<lparr>last_keepalive := e_now ev\<rparr>) nd6)"

definition ce_link_time :: "env \<Rightarrow> nat \<Rightarrow> nat \<Rightarrow> string \<Rightarrow> node \<Rightarrow> node" where
  "ce_link_time ev l si data nd =
     (let nd1 = flex_link_time_sample ev si (flex_note_peer_established ev si nd);
          ds = takeWhile is_digit (take 14 (drop 1 data));
          nd2 = (if ds = [] then nd1
                 else upd_sess si (\<lambda>s. s\<lparr>peer_link_time := int (digits_val ds), peer_lt_count := peer_lt_count s + 1\<rparr>) nd1)
      in snd (flex_send_link_time ev l si nd2))"

definition ce_status_pos :: "env \<Rightarrow> nat \<Rightarrow> nat \<Rightarrow> node \<Rightarrow> node" where
  "ce_status_pos ev l si nd =
     (let nd1 = flex_note_peer_established ev si nd;
          walk = (transit_enabled nd1 \<and> si < FLEXNET_MAX_SESSIONS);
          nd2 = (if pcf_quiesced (sessions nd1 ! si)
                 then upd_sess si (\<lambda>s. s\<lparr>pcf_quiesced := False, quiesced_since := 0\<rparr>) nd1 else nd1);
          nd3 = flex_send_own_routes ev l walk nd2;
          nd4 = (if walk
                 then flex_advertise_drain ev si
                        (upd_adv si (\<lambda>st. st\<lparr>eob_pending := True\<rparr>)
                          (snd (snd (flex_advertise_walk_for_peer ev si False True nd3))))
                 else nd3)
      in upd_sess si (\<lambda>s. s\<lparr>sent_routes := True\<rparr>) nd4)"

text \<open>The frames that only touch the node, for a session that exists.\<close>

definition ce_dispatch :: "env \<Rightarrow> nat \<Rightarrow> nat \<Rightarrow> string \<Rightarrow> life \<Rightarrow> life" where
  "ce_dispatch ev l si data s =
     (case flex_parse_ce_frame (lt3byte_enabled (lf_node s)) data of
        Some CE_INIT \<Rightarrow> on_node (ce_init ev l si data) s
      | Some CE_KEEPALIVE \<Rightarrow> on_node (ce_keepalive ev l si data) s
      | Some CE_LINK_TIME \<Rightarrow> on_node (ce_link_time ev l si data) s
      | Some CE_TOKEN \<Rightarrow> on_node (flex_send_frame ev l FLEXNET_PID_CE data) s
      | Some CE_STATUS_POS \<Rightarrow> on_node (ce_status_pos ev l si) s
      | Some CE_STATUS_NEG \<Rightarrow> s
      | Some CE_STATUS_10 \<Rightarrow> s
      | Some CE_STATUS_1N \<Rightarrow> s
      | Some CE_COMPACT \<Rightarrow>
          on_node (\<lambda>nd. rx_compact (e_schar ev) ev si data (flex_note_peer_established ev si nd)) s
      | Some CE_PATH_REQ \<Rightarrow> on_paths (flex_handle_path_req ev False l si data) s
      | Some CE_PATH_REP \<Rightarrow> on_paths (flex_handle_path_rep ev l data) s
      | None \<Rightarrow> s\<lparr>lf_ps := (lf_ps s)\<lparr>p_stats := flex_parse_note PARSE_UNKNOWN (Some (link_peer ev (lf_node s) l))
                   (Some ''CE'') data (e_now ev) (p_stats (lf_ps s))\<rparr>\<rparr>)"

text \<open>
  \<open>buf\<close> is the PID and the payload. A frame on a link without a session starts one. The first
  component says whether \<open>ReleaseBuffer\<close> was called: the two early returns do not call it, and
  the callers in L2Code.c do not either.
\<close>

definition FlexNet_ProcessCE :: "env \<Rightarrow> nat \<Rightarrow> string \<Rightarrow> life \<Rightarrow> bool \<times> life" where
  "FlexNet_ProcessCE ev l buf s =
     (if length buf < 2 then (False, s)
      else
        let s1 = (case flex_find_session (lf_node s) l of
                    Some si \<Rightarrow> s
                  | None \<Rightarrow> (case LINKPORT (links (lf_node s) ! l) of
                               None \<Rightarrow> s | Some port \<Rightarrow> FlexNet_InitSession ev l port s))
        in case flex_find_session (lf_node s1) l of
             None \<Rightarrow> (False, s1)
           | Some si \<Rightarrow> (True, ce_dispatch ev l si (tl buf) s1))"

end
