(* ===== verification/Flex_Timer.thy ===== *)
theory Flex_Timer
  imports Flex_Session
begin

unbundle bit_operations_syntax

text \<open>
  \<open>FlexNet_Timer\<close> (FlexNetCode.c), which LinBPQ's layer 2 timer calls every 100 ms: the keeper of
  declared links, the poll of link options, the path cache file, the session reaper, the scan for
  neighbours without a session, the per-session cadence, the expiry of probes and the background
  probe. \<open>FindLink\<close> is LinBPQ's (Cmd.c). \<open>None\<close> is the overrun of a buffer while the
  cache file is read (see Flex_Path).
\<close>

section \<open>Constants\<close>

definition FLEXNET_PORTLINK_SCAN :: int where "FLEXNET_PORTLINK_SCAN = 1"
definition FLEXNET_PORTLINK_REOPEN :: int where "FLEXNET_PORTLINK_REOPEN = 10"
definition FLEXNET_PORTLINK_RETRY :: int where "FLEXNET_PORTLINK_RETRY = 60"
definition FLEXNET_PORTLINK_RETRY_MAX :: int where "FLEXNET_PORTLINK_RETRY_MAX = 900"
definition FLEXNET_LINK_OPTS_POLL :: int where "FLEXNET_LINK_OPTS_POLL = 5"
definition FLEXNET_PATH_CACHE_SAVE_INTERVAL :: int where "FLEXNET_PATH_CACHE_SAVE_INTERVAL = 300"
definition FLEXNET_PROACTIVE_INIT_INTERVAL :: int where "FLEXNET_PROACTIVE_INIT_INTERVAL = 30"
definition FLEXNET_ADVERT_INTERVAL :: int where "FLEXNET_ADVERT_INTERVAL = 120"
definition FLEXNET_PROBE_TIMEOUT :: int where "FLEXNET_PROBE_TIMEOUT = 15"
definition FLEXNET_PATH_PROBE_TIMEOUT :: int where "FLEXNET_PATH_PROBE_TIMEOUT = 15"
definition FLEXNET_PATH_PROBE_INTERVAL :: int where "FLEXNET_PATH_PROBE_INTERVAL = 60"

section \<open>Declared links\<close>

text \<open>
  \<open>FindLink\<close>: the entry of the link table for the two calls on the port, else the first free one.
\<close>

definition link_spare :: "bpq_link \<Rightarrow> bool" where
  "link_spare b \<longleftrightarrow> LINKCALL b ! 0 = 0"

definition FindLink :: "env \<Rightarrow> node \<Rightarrow> byte list \<Rightarrow> byte list \<Rightarrow> int \<Rightarrow> bool \<times> nat option" where
  "FindLink ev nd linkcall ourcall port =
     (case first_idx (\<lambda>b. \<not> link_spare b \<and> LINKPORT b = Some port \<and> e_cmp ev (LINKCALL b) linkcall \<and>
                         e_cmp ev (OURCALL b) ourcall) (links nd) of
        Some i \<Rightarrow> (True, Some i)
      | None \<Rightarrow> (False, first_idx link_spare (links nd)))"

definition upd_port_link :: "nat \<Rightarrow> (port_link \<Rightarrow> port_link) \<Rightarrow> node \<Rightarrow> node" where
  "upd_port_link i f nd = nd\<lparr>port_links := (port_links nd)[i := f (port_links nd ! i)]\<rparr>"

text \<open>\<open>SENDSABM\<close> is LinBPQ's; the links it was called for are recorded.\<close>

definition flex_port_link_open :: "env \<Rightarrow> nat \<Rightarrow> nat \<Rightarrow> life \<Rightarrow> bool \<times> life" where
  "flex_port_link_open ev i l s =
     (let pl = port_links (lf_node s) ! i in
      case e_ports ev (pl_port pl) of
        None \<Rightarrow> (False, s)
      | Some v \<Rightarrow>
          (True, (on_node (\<lambda>nd. upd_port_link i (\<lambda>p. p\<lparr>pl_opens := pl_opens p + 1\<rparr>)
                    (upd_link l (\<lambda>b. b\<lparr>LINKPORT := Some (pl_port pl), L2TIME := PORTT1 v, LINKWINDOW := PORTWINDOW v,
                       L2STATE := 2, LINKTYPE := 2, LINKCALL := pl_axcall pl, OURCALL := e_mycall ev\<rparr>) nd)) s)
                 \<lparr>sabm_sent := sabm_sent s @ [l]\<rparr>))"

definition next_backoff :: "int \<Rightarrow> int" where
  "next_backoff b =
     (let b1 = (if b \<noteq> 0 then b * 2 else FLEXNET_PORTLINK_RETRY)
      in if b1 > FLEXNET_PORTLINK_RETRY_MAX then FLEXNET_PORTLINK_RETRY_MAX else b1)"

definition keep_link :: "env \<Rightarrow> nat \<Rightarrow> life \<Rightarrow> life" where
  "keep_link ev i s =
     (let nd = lf_node s; pl = port_links nd ! i; now = e_now ev in
      if \<not> pl_usable pl then s
      else case FindLink ev nd (pl_axcall pl) (e_mycall ev) (pl_port pl) of
        (True, Some l) \<Rightarrow>
          if \<not> link_up nd l then s
          else
            let s1 = on_node (upd_port_link i (\<lambda>p. p\<lparr>pl_was_up := True, pl_backoff := 0\<rparr>)) s;
                b = links (lf_node s1) ! l
            in if \<not> FlexNetLink b \<and> \<not> has_digis b then FlexNet_InitSession ev l (pl_port pl) s1 else s1
      | (_, lo) \<Rightarrow>
          if pl_was_up pl
          then on_node (upd_port_link i (\<lambda>p. p\<lparr>pl_was_up := False, pl_next_try := now + FLEXNET_PORTLINK_REOPEN\<rparr>)) s
          else if now < pl_next_try pl then s
          else (case lo of
                  None \<Rightarrow> on_node (upd_port_link i (\<lambda>p. p\<lparr>pl_next_try := now + FLEXNET_PORTLINK_RETRY\<rparr>)) s
                | Some l \<Rightarrow>
                    (case flex_port_link_open ev i l s of
                       (False, s1) \<Rightarrow> s1
                     | (True, s1) \<Rightarrow>
                         on_node (upd_port_link i (\<lambda>p. let b = next_backoff (pl_backoff p)
                                                      in p\<lparr>pl_backoff := b, pl_next_try := now + b\<rparr>)) s1)))"

definition flex_port_links_keep :: "env \<Rightarrow> life \<Rightarrow> life" where
  "flex_port_links_keep ev s =
     (if port_links (lf_node s) = [] then s
      else if e_now ev - port_link_scanned s < FLEXNET_PORTLINK_SCAN then s
      else fold (keep_link ev) [0..<length (port_links (lf_node s))] (s\<lparr>port_link_scanned := e_now ev\<rparr>))"

section \<open>Options that changed\<close>

definition penalty_of :: "int \<Rightarrow> int" where
  "penalty_of opts = (if has_opt opts FLEX_LOPT_PENALTY then FLEXNET_LINK_PENALTY else 0)"

definition shift_cost :: "int \<Rightarrow> dest_entry \<Rightarrow> dest_entry" where
  "shift_cost dpen d =
     (if d_is_infinity d \<or> d_rtt d \<le> 0 \<or> d_rtt d \<ge> FLEXNET_RTT_INFINITY then d
      else let r = d_rtt d + dpen; r1 = (if r < 1 then 1 else r)
           in d\<lparr>d_rtt := (if r1 \<ge> FLEXNET_RTT_INFINITY then FLEXNET_RTT_INFINITY - 1 else r1)\<rparr>)"

definition offer_again :: "env \<Rightarrow> nat \<Rightarrow> nat \<Rightarrow> node \<Rightarrow> node" where
  "offer_again ev si p nd =
     (if p = si \<or> \<not> s_active (sessions nd ! p) then nd
      else flex_advertise_drain ev p
             (fold (\<lambda>lr. flex_advertise_check ev p (l_call lr) (l_lo lr) (l_hi lr) False)
                   (filter (\<lambda>lr. l_call lr \<noteq> '''') (routes (learned nd ! si))) nd))"

definition flex_link_opts_changed :: "env \<Rightarrow> nat \<Rightarrow> int \<Rightarrow> int \<Rightarrow> node \<Rightarrow> node" where
  "flex_link_opts_changed ev si old new nd =
     (let nd1 = nd\<lparr>link_opts := (link_opts nd)[si := new]\<rparr>;
          dpen = penalty_of new - penalty_of old;
          nd2 = (if dpen = 0 then nd1
                 else nd1\<lparr>dests := map (\<lambda>d. if d_via_session_idx d = int si then shift_cost dpen d else d) (dests nd1)\<rparr>)
      in if \<not> transit_enabled nd2 then nd2
         else
           let nd3 = fold (offer_again ev si) [0..<FLEXNET_MAX_SESSIONS] nd2
           in if has_opt (old XOR new) FLEX_LOPT_OWN_ONLY
              then flex_advertise_drain ev si (snd (snd (flex_advertise_walk_for_peer ev si False False nd3)))
              else nd3)"

definition poll_slot :: "env \<Rightarrow> nat \<Rightarrow> node \<Rightarrow> node" where
  "poll_slot ev i nd =
     (let s = sessions nd ! i in
      case s_LINK s of
        None \<Rightarrow> nd
      | Some l \<Rightarrow>
          if \<not> s_active s \<or> link_call nd l ! 0 = 0 then nd
          else
            let o0 = FlexNet_PeerLinkOpts ev nd (link_call nd l) (s_port s); o1 = (if o0 < 0 then 0 else o0)
            in if o1 \<noteq> link_opts nd ! i then flex_link_opts_changed ev i (link_opts nd ! i) o1 nd else nd)"

definition flex_link_opts_poll :: "env \<Rightarrow> life \<Rightarrow> life" where
  "flex_link_opts_poll ev s =
     (if e_now ev - link_opts_polled s < FLEXNET_LINK_OPTS_POLL then s
      else on_node (fold (poll_slot ev) [0..<FLEXNET_MAX_SESSIONS]) (s\<lparr>link_opts_polled := e_now ev\<rparr>))"

section \<open>The path cache file\<close>

definition cache_load_once :: "env \<Rightarrow> life \<Rightarrow> life option" where
  "cache_load_once ev s =
     (if path_cache_loaded s then Some s
      else map_option (\<lambda>nd. s\<lparr>lf_node := nd, path_cache_loaded := True, path_cache_last_save := e_now ev\<rparr>)
             (case e_cache_lines ev of None \<Rightarrow> Some (lf_node s) | Some ls \<Rightarrow> flex_path_cache_load ev ls (lf_node s)))"

definition cache_save_due :: "env \<Rightarrow> life \<Rightarrow> life" where
  "cache_save_due ev s =
     (if path_cache_dirty (lf_ps s) \<and> e_now ev - path_cache_last_save s \<ge> FLEXNET_PATH_CACHE_SAVE_INTERVAL
      then (case flex_path_cache_save ev (lf_node s) (lf_ps s) of
              (n, ps) \<Rightarrow> if n \<ge> 0 then s\<lparr>lf_ps := ps\<lparr>path_cache_dirty := False\<rparr>, path_cache_last_save := e_now ev\<rparr>
                         else s\<lparr>lf_ps := ps\<rparr>)
      else s)"

section \<open>The session reaper\<close>

text \<open>The link of the same neighbour on the same port that LinBPQ put in another slot.\<close>

definition migrates_to :: "env \<Rightarrow> node \<Rightarrow> session \<Rightarrow> nat \<Rightarrow> bool" where
  "migrates_to ev nd s li \<longleftrightarrow> s_LINK s \<noteq> Some li \<and> link_up nd li \<and> link_call nd li ! 0 \<noteq> 0 \<and>
     LINKPORT (links nd ! li) = Some (s_port s) \<and>
     (let a = flex_normalize_callsign (e_conv ev) (link_call nd li) 12;
          b = flex_normalize_callsign (e_conv ev) (peer_callsign s) 12
      in a \<noteq> '''' \<and> a = b)"

definition migration_target :: "env \<Rightarrow> node \<Rightarrow> session \<Rightarrow> nat option" where
  "migration_target ev nd s =
     (if peer_callsign s ! 0 = 0 then None
      else first_idx (migrates_to ev nd s) [0..<length (links nd)])"

definition drop_old_link :: "session \<Rightarrow> node \<Rightarrow> node" where
  "drop_old_link s nd = (case s_LINK s of None \<Rightarrow> nd | Some l \<Rightarrow> set_flexlink l False nd)"

definition migrate_session :: "env \<Rightarrow> nat \<Rightarrow> nat \<Rightarrow> node \<Rightarrow> node" where
  "migrate_session ev i l nd =
     (let s = sessions nd ! i;
          nd1 = set_flexlink l True (upd_sess i (\<lambda>s. s\<lparr>s_LINK := Some l\<rparr>) (drop_old_link s nd));
          nd2 = nd1\<lparr>reap_bad_since := (reap_bad_since nd1)[i := 0], sess_migrated := sess_migrated nd1 + 1\<rparr>
      in note_event ev (flex_normalize_callsign (e_conv ev) (peer_callsign s) 20) ''LINK slot moved'' nd2)"

definition reap_reason :: "node \<Rightarrow> session \<Rightarrow> string" where
  "reap_reason nd s =
     (case s_LINK s of
        None \<Rightarrow> ''reaped: no LINK''
      | Some l \<Rightarrow> if L2STATE (links nd ! l) < 0 then ''reaped: no LINK''
                  else ''reaped: L2STATE='' @ dec_of_int (L2STATE (links nd ! l)))"

definition reap_session :: "env \<Rightarrow> nat \<Rightarrow> node \<Rightarrow> node" where
  "reap_session ev i nd =
     (let s = sessions nd ! i;
          call = (if peer_callsign s ! 0 = 0 then '''' else flex_normalize_callsign (e_conv ev) (peer_callsign s) 20);
          nd1 = drop_old_link s (nd\<lparr>reap_bad_since := (reap_bad_since nd)[i := 0]\<rparr>);
          nd2 = upd_sess i (\<lambda>s. s\<lparr>s_active := False\<rparr>) (upd_learned i (\<lambda>st. st\<lparr>died_at := e_now ev\<rparr>) nd1);
          nd3 = note_event ev call (reap_reason nd s) (nd2\<lparr>sess_reaped := sess_reaped nd2 + 1\<rparr>);
          nd4 = flex_advertise_poison_session ev i (flex_dest_reelect_via ev i nd3)
      in upd_sess i (\<lambda>_. session0) nd4)"

definition reap_slot :: "env \<Rightarrow> nat \<Rightarrow> node \<Rightarrow> node" where
  "reap_slot ev i nd =
     (let s = sessions nd ! i in
      if \<not> s_active s then nd
      else case flex_reap_decide (session_link nd s) (reap_bad_since nd ! i) (e_now ev) of
        (verdict, bad) \<Rightarrow>
          let nd1 = nd\<lparr>reap_bad_since := (reap_bad_since nd)[i := bad]\<rparr> in
          if verdict = REAP_KEEP then nd1
          else (case migration_target ev nd1 s of
                  Some l \<Rightarrow> migrate_session ev i l nd1
                | None \<Rightarrow> if verdict = REAP_WAIT then nd1 else reap_session ev i nd1))"

definition session_reaper :: "env \<Rightarrow> node \<Rightarrow> node" where
  "session_reaper ev nd = fold (reap_slot ev) [0..<FLEXNET_MAX_SESSIONS] nd"

section \<open>Neighbours without a session\<close>

definition proactive_link :: "env \<Rightarrow> nat \<Rightarrow> life \<Rightarrow> life" where
  "proactive_link ev li s =
     (let nd = lf_node s; b = links nd ! li in
      if LINKCALL b ! 0 = 0 \<or> \<not> link_up nd li \<or> FlexNetLink b then s
      else case LINKPORT b of
        None \<Rightarrow> s
      | Some port \<Rightarrow>
          if take 6 (OURCALL b) \<noteq> take 6 (e_mycall ev) \<or> has_digis b then s
          else if FlexNet_IsPeerFlexNetMapped ev nd (LINKCALL b) port
          then FlexNet_InitSession ev li port s else s)"

definition proactive_scan :: "env \<Rightarrow> life \<Rightarrow> life" where
  "proactive_scan ev s =
     (if e_now ev - last_proactive_init_scan s \<ge> FLEXNET_PROACTIVE_INIT_INTERVAL
      then fold (proactive_link ev) [0..<length (links (lf_node s))] (s\<lparr>last_proactive_init_scan := e_now ev\<rparr>)
      else s)"

section \<open>What a session sends by itself\<close>

definition ka_threshold :: "session \<Rightarrow> int" where
  "ka_threshold s = (if peer_ka_term s = CR then 29 else 300)"

definition tick_keepalive :: "env \<Rightarrow> nat \<Rightarrow> nat \<Rightarrow> node \<Rightarrow> node" where
  "tick_keepalive ev l i nd =
     (if e_now ev - last_keepalive (sessions nd ! i) \<ge> ka_threshold (sessions nd ! i)
      then upd_sess i (\<lambda>s. s\<lparr>last_keepalive := e_now ev\<rparr>)
             (snd (flex_send_link_time ev l i (send_keepalive ev l nd)))
      else nd)"

definition tick_advert :: "env \<Rightarrow> nat \<Rightarrow> nat \<Rightarrow> node \<Rightarrow> node" where
  "tick_advert ev l i nd =
     (if transit_enabled nd \<and> sent_routes (sessions nd ! i) \<and> flex_records_allowed nd i \<and>
         \<not> eob_pending (advertised nd ! i) \<and> e_now ev - last_advert (learned nd ! i) \<ge> FLEXNET_ADVERT_INTERVAL
      then flex_advertise_neighbours ev i
             (flex_send_own_routes ev l False (upd_learned i (\<lambda>st. st\<lparr>last_advert := e_now ev\<rparr>) nd))
      else nd)"

definition tick_reseed :: "env \<Rightarrow> nat \<Rightarrow> nat \<Rightarrow> node \<Rightarrow> node" where
  "tick_reseed ev l i nd =
     (if transit_enabled nd \<and> \<not> sent_routes (sessions nd ! i) \<and> flex_is_established (sessions nd ! i)
      then send_first_routes ev l i nd else nd)"

definition session_tick :: "env \<Rightarrow> nat \<Rightarrow> node \<Rightarrow> node" where
  "session_tick ev i nd =
     (case s_LINK (sessions nd ! i) of
        None \<Rightarrow> nd
      | Some l \<Rightarrow>
          if \<not> s_active (sessions nd ! i) then nd
          else flex_advertise_drain ev i (tick_reseed ev l i (tick_advert ev l i (tick_keepalive ev l i nd))))"

section \<open>Probes\<close>

definition expire_l3_probe :: "int \<Rightarrow> l3_probe \<Rightarrow> l3_probe" where
  "expire_l3_probe now p =
     (if lp_active p \<and> now - lp_sent_time p > FLEXNET_PROBE_TIMEOUT then p\<lparr>lp_active := False\<rparr> else p)"

definition expire_path_probe :: "env \<Rightarrow> nat \<Rightarrow> path_state \<Rightarrow> path_state" where
  "expire_path_probe ev i ps =
     (let p = probes ps ! i in
      if pp_active p \<and> e_now ev - pp_sent_time p > FLEXNET_PATH_PROBE_TIMEOUT
      then let ps1 = flex_sysop_probe_close (pp_sysop_ring p) (pp_qso p) SPROBE_TIMEOUT None (e_now ev) ps
           in ps1\<lparr>probes := (probes ps1)[i := p\<lparr>pp_active := False, pp_qso := 0\<rparr>]\<rparr>
      else ps)"

definition expire_probes :: "env \<Rightarrow> path_state \<Rightarrow> path_state" where
  "expire_probes ev ps =
     fold (expire_path_probe ev) [0..<FLEXNET_MAX_PATH_PROBES]
       (ps\<lparr>l3_probes := map (expire_l3_probe (e_now ev)) (l3_probes ps)\<rparr>)"

text \<open>The next row worth probing, at most one turn around the table.\<close>

fun bg_probe :: "nat \<Rightarrow> env \<Rightarrow> life \<Rightarrow> life" where
  "bg_probe 0 ev s = s"
| "bg_probe (Suc tries) ev s =
     (let nd = lf_node s; idx = (if path_probe_idx s \<ge> length (dests nd) then 0 else path_probe_idx s);
          s1 = s\<lparr>path_probe_idx := idx + 1\<rparr>; e = dests nd ! idx in
      if d_rtt e \<ge> FLEXNET_RTT_INFINITY \<or> case_eq (d_callsign e) (own_call ev) \<or>
         (d_path_len e > 0 \<and> e_now ev - d_path_updated e < FLEXNET_PATH_CACHE_TTL)
      then bg_probe tries ev s1
      else case flex_send_path_req_ex ev (int idx) (d_callsign e) (d_ssid_lo e) nd (lf_ps s) of
        (r, nd1, ps1) \<Rightarrow>
          let s2 = s1\<lparr>lf_node := nd1, lf_ps := ps1\<rparr>
          in if probe_was_sent r then s2\<lparr>last_path_probe := e_now ev\<rparr> else bg_probe tries ev s2)"

definition background_probe :: "env \<Rightarrow> life \<Rightarrow> life" where
  "background_probe ev s =
     (if dests (lf_node s) \<noteq> [] \<and> e_now ev - last_path_probe s \<ge> FLEXNET_PATH_PROBE_INTERVAL
      then bg_probe (length (dests (lf_node s))) ev s else s)"

section \<open>The timer\<close>

definition timer_sessions :: "env \<Rightarrow> life \<Rightarrow> life" where
  "timer_sessions ev s =
     background_probe ev
       ((\<lambda>s. s\<lparr>lf_ps := expire_probes ev (lf_ps s)\<rparr>)
         (on_node (fold (session_tick ev) [0..<FLEXNET_MAX_SESSIONS])
           (proactive_scan ev (on_node (session_reaper ev) s))))"

definition FlexNet_Timer :: "env \<Rightarrow> life \<Rightarrow> life option" where
  "FlexNet_Timer ev s =
     map_option (\<lambda>s1. timer_sessions ev (cache_save_due ev s1))
       (cache_load_once ev (flex_link_opts_poll ev (flex_port_links_keep ev (FlexNet_Init ev s))))"

end
