(* ===== verification/Flex_Hooks.thy ===== *)
theory Flex_Hooks
  imports Flex_Timer
begin

unbundle bit_operations_syntax

text \<open>
  Where LinBPQ calls the layer: the calls it asks about at layer 2 (\<open>FlexNet_IsLocalCall\<close>,
  \<open>FlexNet_MarkLocalDigi\<close>, \<open>FlexNet_CheckIncoming\<close>), the route of an outgoing connect and the digi chain the
  connect command builds from it (Cmd.c), and the hooks of the AX.25 state machine (L2Code.c): a SABM
  for no active link, an accepted connect, an I frame by its PID. A 7-byte call is a byte list.
\<close>

section \<open>Calls the node answers\<close>

definition flex_call_in_own_range :: "string \<Rightarrow> string \<Rightarrow> int \<Rightarrow> int \<Rightarrow> int \<Rightarrow> bool" where
  "flex_call_in_own_range call own_base my_ssid own_lo own_hi =
     (if call = '''' \<or> own_base = '''' then False
      else let t = take 19 call; b = base_of t; r = drop (length b) t; ssid = (if r = [] then 0 else atoi (tl r))
           in case_eq b own_base \<and> ssid \<noteq> my_ssid \<and> ssid \<ge> own_lo \<and> ssid \<le> own_hi)"

definition FlexNet_IsLocalCall :: "env \<Rightarrow> node \<Rightarrow> byte list \<Rightarrow> bool" where
  "FlexNet_IsLocalCall ev nd ax =
     (let call = flex_normalize_callsign (e_conv ev) ax 20 in
      case (if locals nd = [] then None else flex_local_find nd call) of
        Some i \<Rightarrow> lc_ext_port (locals nd ! i) = 0
      | None \<Rightarrow>
          (case flex_own_base_call (e_conv ev) (e_mycall ev) of (own, my_ssid) \<Rightarrow>
           case flex_own_ssid_range nd my_ssid of (lo, hi) \<Rightarrow> flex_call_in_own_range call own my_ssid lo hi))"

definition FlexNet_MarkLocalDigi :: "env \<Rightarrow> node \<Rightarrow> byte list \<Rightarrow> byte list \<Rightarrow> byte list" where
  "FlexNet_MarkLocalDigi ev nd ourcall digi =
     (if digi ! 0 = 0 \<or> \<not> FlexNet_IsLocalCall ev nd ourcall \<or> \<not> e_cmp ev digi (e_mycall ev) then digi
      else digi[6 := (digi ! 6) OR 0x80])"

definition FlexNet_CheckIncoming :: "env \<Rightarrow> byte list \<Rightarrow> bool" where
  "FlexNet_CheckIncoming ev dest \<longleftrightarrow> take 7 dest = take 7 (e_mycall ev)"

section \<open>The route of an outgoing connect\<close>

definition FlexNet_FindRoute :: "env \<Rightarrow> byte list \<Rightarrow> life \<Rightarrow> int \<times> life" where
  "FlexNet_FindRoute ev ax s =
     (let nd = lf_node s; target = trim_sp (e_conv ev ax); ext = flex_external_port nd target in
      if ext \<noteq> 0
      then (ext, s\<lparr>findroute_last_ext := (case flex_local_find nd target of None \<Rightarrow> -1 | Some i \<Rightarrow> int i),
                   findroute_last_dest := -1\<rparr>)
      else case flex_find_dest_for_target nd target of
        Some i \<Rightarrow> (d_port (dests nd ! i), s\<lparr>findroute_last_ext := -1, findroute_last_dest := int i\<rparr>)
      | None \<Rightarrow> (0, s\<lparr>findroute_last_ext := -1, findroute_last_dest := -1\<rparr>))"

text \<open>The session the last route chose, if it can carry the connect on this port.\<close>

definition route_session :: "int \<Rightarrow> life \<Rightarrow> nat option" where
  "route_session port s =
     (let nd = lf_node s; di = findroute_last_dest s in
      if \<not> (0 \<le> di \<and> di < int (length (dests nd))) then None
      else let via = d_via_session_idx (dests nd ! nat di)
           in if session_usable nd via \<and> s_port (sessions nd ! nat via) = port then Some (nat via) else None)"

definition session_call :: "node \<Rightarrow> nat \<Rightarrow> byte list" where
  "session_call nd i = (case s_LINK (sessions nd ! i) of None \<Rightarrow> [] | Some l \<Rightarrow> link_call nd l)"

definition neighbour_of_route :: "int \<Rightarrow> life \<Rightarrow> byte list option \<times> life" where
  "neighbour_of_route port s =
     (case route_session port s of
        Some i \<Rightarrow> (Some (session_call (lf_node s) i), s\<lparr>findroute_last_dest := -1\<rparr>)
      | None \<Rightarrow>
          (case first_idx (\<lambda>x. s_active x \<and> s_port x = port \<and> s_LINK x \<noteq> None) (sessions (lf_node s)) of
             None \<Rightarrow> (None, s)
           | Some i \<Rightarrow> (Some (session_call (lf_node s) i), s)))"

definition FlexNet_GetNeighborCall :: "env \<Rightarrow> int \<Rightarrow> life \<Rightarrow> byte list option \<times> life" where
  "FlexNet_GetNeighborCall ev port s =
     (let x = findroute_last_ext s in
      if 0 \<le> x \<and> x < int (length (locals (lf_node s)))
      then let s1 = s\<lparr>findroute_last_ext := -1\<rparr>
           in (case e_toax25 ev (flex_local_format (locals (lf_node s) ! nat x)) of
                 Some ax \<Rightarrow> (Some ax, s1) | None \<Rightarrow> neighbour_of_route port s1)
      else neighbour_of_route port s)"

text \<open>
  The connect command: the port to connect on (0: not a FlexNet destination) and the digi chain, which
  stays the user's when no neighbour is found.
\<close>

definition mark_repeated :: "byte list \<Rightarrow> byte list" where
  "mark_repeated call = (take 7 call)[6 := (call ! 6) OR 0x80]"

definition flexnet_connect :: "env \<Rightarrow> byte list \<Rightarrow> byte list list \<Rightarrow> life \<Rightarrow> int \<times> byte list list \<times> life" where
  "flexnet_connect ev dest digis s =
     (case FlexNet_FindRoute ev dest s of (port, s1) \<Rightarrow>
        if \<not> port > 0 then (0, digis, s1)
        else case FlexNet_GetNeighborCall ev port s1 of
          (None, s2) \<Rightarrow> (port, digis, s2)
        | (Some nbr, s2) \<Rightarrow>
            (port, (if e_cmp ev dest nbr then [mark_repeated (e_mycall ev)]
                    else [mark_repeated (e_mycall ev), take 7 nbr]), s2))"

section \<open>The hooks of the AX.25 state machine\<close>

text \<open>A SABM that belongs to no active link.\<close>

definition l2_sabm_new :: "env \<Rightarrow> byte list \<Rightarrow> int \<Rightarrow> life \<Rightarrow> life" where
  "l2_sabm_new ev origin port s = on_node (FlexNet_NotePeerL2Restart ev origin port) s"

text \<open>An accepted connect; the result says whether the hook took the link over.\<close>

definition l2_sabm_accepted :: "env \<Rightarrow> nat \<Rightarrow> int \<Rightarrow> life \<Rightarrow> bool \<times> life" where
  "l2_sabm_accepted ev l port s =
     (if \<not> FlexNet_IsPeerFlexNetMapped ev (lf_node s) (link_call (lf_node s) l) port then (False, s)
      else
        case FlexNet_TryAdoptSession ev l port (set_flexlink l True (lf_node s)) of
          (adopted, nd) \<Rightarrow>
            let s1 = s\<lparr>lf_node := nd\<rparr> in (True, if adopted then s1 else FlexNet_InitSession ev l port s1))"

text \<open>
  An I frame: \<open>info\<close> is its PID and its text. Its buffer is released, queued for the session, or
  never released (\<open>L2Lost\<close>). The outer \<open>None\<close> is a handler that does not return.
\<close>

datatype l2_fate = L2Released | L2Queued | L2Lost

definition ce_fate :: "bool \<times> life \<Rightarrow> (l2_fate \<times> life) option" where
  "ce_fate r = Some (if fst r then L2Released else L2Lost, snd r)"

definition flexnet_default :: "env \<Rightarrow> nat \<Rightarrow> nat \<Rightarrow> string \<Rightarrow> life \<Rightarrow> (l2_fate \<times> life) option" where
  "flexnet_default ev l pid info s =
     (if length info < 1 \<or> length info > 257 then Some (L2Released, s)
      else if FlexNetLink (links (lf_node s) ! l)
      then if pid = 0xF0 \<and> length info > 1 \<and>
              FlexNet_ClassifyCEShape (lt3byte_enabled (lf_node s)) (tl info) \<noteq> None
           then ce_fate (FlexNet_ProcessCE ev l info s)
           else Some (L2Released, s)
      else Some (L2Queued, s))"

definition l2_ce_frame :: "env \<Rightarrow> nat \<Rightarrow> int \<Rightarrow> string \<Rightarrow> life \<Rightarrow> (l2_fate \<times> life) option" where
  "l2_ce_frame ev l port info s =
     (let nd = lf_node s;
          s1 = (if \<not> FlexNetLink (links nd ! l) \<and> FlexNet_IsPeerFlexNetMapped ev nd (link_call nd l) port
                then FlexNet_InitSession ev l port s else s)
      in if FlexNetLink (links (lf_node s1) ! l) then ce_fate (FlexNet_ProcessCE ev l info s1)
         else flexnet_default ev l 0xCE info s1)"

definition l2_cf_frame :: "env \<Rightarrow> nat \<Rightarrow> string \<Rightarrow> life \<Rightarrow> (l2_fate \<times> life) option" where
  "l2_cf_frame ev l info s =
     (if \<not> FlexNetLink (links (lf_node s) ! l) then flexnet_default ev l 0xCF info s
      else map_option (\<lambda>(consumed, nd, ps). (if consumed then L2Released else L2Queued, s\<lparr>lf_node := nd, lf_ps := ps\<rparr>))
             (FlexNet_ProcessCF ev l info (lf_node s) (lf_ps s)))"

text \<open>The PIDs LinBPQ handles itself before it comes to the default are not FlexNet's.\<close>

definition l2_i_frame :: "env \<Rightarrow> nat \<Rightarrow> int \<Rightarrow> nat \<Rightarrow> string \<Rightarrow> life \<Rightarrow> (l2_fate \<times> life) option" where
  "l2_i_frame ev l port pid info s =
     (if pid = 0xCE then l2_ce_frame ev l port info s
      else if pid = 0xCF then l2_cf_frame ev l info s
      else flexnet_default ev l pid info s)"

end
