(* ===== verification/Flex_Keep.thy ===== *)
theory Flex_Keep
  imports Flex_Hooks Flex_Dest_Props
begin

text \<open>
  The invariant of the node's tables, and for every operation that starts, moves or ends no session
  that it keeps the invariant and the occupation of the session table. Each fact is a conditional
  rewrite that removes the outermost operation from \<open>keep A nd (f x)\<close>, so a composed operation is
  dealt with by the simplifier. \<open>A\<close> is the set of slots an operation needs to be active.
\<close>

section \<open>The invariant\<close>

definition act :: "nat \<Rightarrow> node \<Rightarrow> bool" where
  "act i nd \<longleftrightarrow> i < FLEXNET_MAX_SESSIONS \<and> s_active (sessions nd ! i)"

text \<open>Every array has its slots, an active session is found by its link, and has one.\<close>

definition slots_ok :: "node \<Rightarrow> bool" where
  "slots_ok nd \<longleftrightarrow> length (sessions nd) = FLEXNET_MAX_SESSIONS \<and> length (advertised nd) = FLEXNET_MAX_SESSIONS \<and>
     length (link_opts nd) = FLEXNET_MAX_SESSIONS \<and> length (ka_echo_at nd) = FLEXNET_MAX_SESSIONS \<and>
     length (reap_bad_since nd) = FLEXNET_MAX_SESSIONS \<and> length (nbr_entered nd) = FLEXNET_MAX_SESSIONS \<and>
     session_count nd \<le> FLEXNET_MAX_SESSIONS \<and>
     (\<forall>i. act i nd \<longrightarrow> i < session_count nd \<and> s_LINK (sessions nd ! i) \<noteq> None)"

text \<open>A row is routed through an active session, or through none.\<close>

definition via_ok :: "node \<Rightarrow> int \<Rightarrow> bool" where
  "via_ok nd v \<longleftrightarrow> v < 0 \<or> act (nat v) nd"

definition node_ok :: "node \<Rightarrow> bool" where
  "node_ok nd \<longleftrightarrow> slots_ok nd \<and> tables_ok nd \<and> (\<forall>d \<in> set (dests nd). via_ok nd (d_via_session_idx d))"

definition alive :: "session \<Rightarrow> bool \<times> nat option" where
  "alive s = (s_active s, s_LINK s)"

definition slot_view :: "node \<Rightarrow> (bool \<times> nat option) list \<times> nat" where
  "slot_view nd = (map alive (sessions nd), session_count nd)"

definition ok_view where
  "ok_view nd = (slot_view nd, dests nd, learned nd, length (advertised nd), adverts_ok nd, length (link_opts nd),
     length (ka_echo_at nd), length (reap_bad_since nd), length (nbr_entered nd))"

lemma slot_view_eqD:
  assumes "slot_view nd' = slot_view nd"
  shows "length (sessions nd') = length (sessions nd)" "session_count nd' = session_count nd"
    "i < length (sessions nd) \<Longrightarrow> s_active (sessions nd' ! i) = s_active (sessions nd ! i)"
    "i < length (sessions nd) \<Longrightarrow> s_LINK (sessions nd' ! i) = s_LINK (sessions nd ! i)"
proof -
  have m: "map alive (sessions nd') = map alive (sessions nd)" and c: "session_count nd' = session_count nd"
    using assms by (simp_all add: slot_view_def)
  show l: "length (sessions nd') = length (sessions nd)" using map_eq_imp_length_eq [OF m] .
  show "session_count nd' = session_count nd" by (rule c)
  have "alive (sessions nd' ! i) = alive (sessions nd ! i)" if "i < length (sessions nd)"
    using m l that by (metis nth_map)
  then show "i < length (sessions nd) \<Longrightarrow> s_active (sessions nd' ! i) = s_active (sessions nd ! i)"
    "i < length (sessions nd) \<Longrightarrow> s_LINK (sessions nd' ! i) = s_LINK (sessions nd ! i)"
    by (auto simp: alive_def)
qed

lemma act_view:
  assumes "slot_view nd' = slot_view nd" "length (sessions nd) = FLEXNET_MAX_SESSIONS"
  shows "act i nd' = act i nd"
  using slot_view_eqD [OF assms(1)] assms(2) by (auto simp: act_def)

lemma slots_ok_view:
  assumes "ok_view nd' = ok_view nd" "slots_ok nd"
  shows "slots_ok nd'"
proof -
  have v: "slot_view nd' = slot_view nd" using assms(1) by (simp add: ok_view_def adverts_ok_def)
  have l: "length (sessions nd) = FLEXNET_MAX_SESSIONS" using assms(2) by (simp add: slots_ok_def)
  have "i < session_count nd' \<and> s_LINK (sessions nd' ! i) \<noteq> None" if "act i nd'" for i
  proof -
    have "act i nd" using that act_view [OF v l] by simp
    then have "i < session_count nd \<and> s_LINK (sessions nd ! i) \<noteq> None" "i < length (sessions nd)"
      using assms(2) l by (auto simp: slots_ok_def act_def)
    then show ?thesis using slot_view_eqD [OF v] by simp
  qed
  then show ?thesis using assms slot_view_eqD [OF v] by (auto simp: slots_ok_def ok_view_def adverts_ok_def)
qed

lemma node_ok_view:
  assumes "ok_view nd' = ok_view nd" "node_ok nd"
  shows "node_ok nd'"
proof -
  have v: "slot_view nd' = slot_view nd" using assms(1) by (simp add: ok_view_def adverts_ok_def)
  have l: "length (sessions nd) = FLEXNET_MAX_SESSIONS" using assms(2) by (simp add: node_ok_def slots_ok_def)
  have "slots_ok nd'" by (rule slots_ok_view [OF assms(1)]) (use assms(2) in \<open>simp add: node_ok_def\<close>)
  moreover have "tables_ok nd'" using assms by (simp add: node_ok_def ok_view_def adverts_ok_def tables_ok_def adverts_ok_def learned_ok_def)
  moreover have "via_ok nd' (d_via_session_idx d)" if "d \<in> set (dests nd')" for d
    using that assms act_view [OF v l] by (auto simp: node_ok_def ok_view_def adverts_ok_def via_ok_def)
  ultimately show ?thesis by (simp add: node_ok_def)
qed

section \<open>Keeping it\<close>

definition keep :: "nat set \<Rightarrow> node \<Rightarrow> node \<Rightarrow> bool" where
  "keep A nd nd' \<longleftrightarrow> (node_ok nd \<and> (\<forall>i \<in> A. act i nd) \<longrightarrow> node_ok nd' \<and> slot_view nd' = slot_view nd)"

lemma keep_refl [simp]: "keep A nd nd"
  by (simp add: keep_def)

lemma keepD:
  assumes "keep A nd nd'" "node_ok nd" "\<forall>i \<in> A. act i nd"
  shows "node_ok nd'" "slot_view nd' = slot_view nd" "act i nd' = act i nd"
  using assms act_view [of nd' nd i] by (auto simp: keep_def node_ok_def slots_ok_def)

lemma keep_step:
  assumes "keep A nd x" "\<And>x. node_ok x \<Longrightarrow> \<forall>i \<in> A. act i x \<Longrightarrow> node_ok (f x) \<and> slot_view (f x) = slot_view x"
  shows "keep A nd (f x)"
  unfolding keep_def
proof
  assume p: "node_ok nd \<and> (\<forall>i \<in> A. act i nd)"
  then have "node_ok x" "slot_view x = slot_view nd" "\<forall>i \<in> A. act i x"
    using keepD [OF assms(1)] by blast+
  with assms(2) [of x] show "node_ok (f x) \<and> slot_view (f x) = slot_view nd" by metis
qed

lemma keep_trans: "keep A nd x \<Longrightarrow> (\<And>x. keep A x (f x)) \<Longrightarrow> keep A nd (f x)"
  by (rule keep_step) (auto simp: keep_def)

lemma keep_view: "keep A nd x \<Longrightarrow> (\<And>x. ok_view (f x) = ok_view x) \<Longrightarrow> keep A nd (f x)"
  by (rule keep_step) (auto intro: node_ok_view simp: ok_view_def adverts_ok_def)

lemma keep_fold:
  assumes "\<And>z x. z \<in> set zs \<Longrightarrow> keep A x (f z x)"
  shows "keep A nd x \<Longrightarrow> keep A nd (fold f zs x)"
  using assms
proof (induction zs arbitrary: x)
  case (Cons z zs)
  have "keep A nd (f z x)" by (rule keep_trans [OF Cons.prems(1)]) (simp add: Cons.prems(2))
  then show ?case using Cons.IH [of "f z x"] Cons.prems(2) by simp
qed simp

lemma keep_mono: "keep B nd x \<Longrightarrow> B \<subseteq> A \<Longrightarrow> keep A nd x"
  by (auto simp: keep_def)

section \<open>Operations that touch none of it\<close>

lemma ok_view_upd_sess: "(\<And>s. alive (f s) = alive s) \<Longrightarrow> ok_view (upd_sess i f nd) = ok_view nd"
proof -
  assume f: "\<And>s. alive (f s) = alive s"
  have "map alive ((sessions nd)[i := f (sessions nd ! i)]) = map alive (sessions nd)"
    by (cases "i < length (sessions nd)") (simp_all add: map_update f list_update_same_conv list_update_beyond)
  then show ?thesis by (simp add: ok_view_def adverts_ok_def slot_view_def upd_sess_def)
qed

lemma ok_view_fields [simp]:
  "ok_view (nd\<lparr>sess_events := a\<rparr>) = ok_view nd" "ok_view (nd\<lparr>sess_closed := b\<rparr>) = ok_view nd"
  "ok_view (nd\<lparr>sess_reaped := b\<rparr>) = ok_view nd" "ok_view (nd\<lparr>links := c\<rparr>) = ok_view nd"
  "ok_view (nd\<lparr>port_links := d\<rparr>) = ok_view nd"
  "ok_view (nd\<lparr>reap_bad_since := e, sess_migrated := b\<rparr>) = ok_view (nd\<lparr>reap_bad_since := e\<rparr>)"
  by (simp_all add: ok_view_def adverts_ok_def slot_view_def)

lemma ok_view_arrays [simp]:
  "ok_view (nd\<lparr>link_opts := (link_opts nd)[i := v]\<rparr>) = ok_view nd"
  "ok_view (nd\<lparr>reap_bad_since := (reap_bad_since nd)[i := v]\<rparr>) = ok_view nd"
  "ok_view (nd\<lparr>nbr_entered := (nbr_entered nd)[i := w]\<rparr>) = ok_view nd"
  "ok_view (nd\<lparr>ka_echo_at := (ka_echo_at nd)[i := v]\<rparr>) = ok_view nd"
  by (simp_all add: ok_view_def adverts_ok_def slot_view_def)

lemma ok_view_adv_frame: "adv_frame nd nd' \<Longrightarrow> ok_view nd' = ok_view nd"
proof -
  assume a: "adv_frame nd nd'"
  have "alive (sess_core s) = alive s" for s by (simp add: alive_def sess_core_def)
  then have al: "map alive ss = map alive (map sess_core ss)" for ss by simp
  have "map sess_core (sessions nd') = map sess_core (sessions nd)" using a by (simp add: adv_frame_def)
  then have "map alive (sessions nd') = map alive (sessions nd)" by (simp only: al [of "sessions nd'"] al [of "sessions nd"])
  then show ?thesis using a by (simp add: adv_frame_def slot_aux_def ok_view_def adverts_ok_def slot_view_def)
qed

lemma ok_view_send [simp]: "ok_view (flex_send_frame ev l pid fr nd) = ok_view nd"
  by (rule ok_view_adv_frame [OF adv_frame_send])

lemma ok_view_set_flexlink [simp]: "ok_view (set_flexlink l b nd) = ok_view nd"
  by (simp add: set_flexlink_def upd_link_def)

lemma ok_view_note_event [simp]: "ok_view (note_event ev p w nd) = ok_view nd"
  by (simp add: note_event_def)

lemma ok_view_send_init [simp]: "ok_view (flex_send_init ev l i nd) = ok_view nd"
  by (simp add: flex_send_init_def Let_def ok_view_upd_sess alive_def split: option.split)

lemma ok_view_keepalive [simp]: "ok_view (send_keepalive ev l nd) = ok_view nd"
  by (simp add: send_keepalive_def split: option.split)

lemma ok_view_own_routes [simp]: "ok_view (flex_send_own_routes ev l b nd) = ok_view nd"
  by (simp add: flex_send_own_routes_def Let_def split: option.split prod.split)

lemma ok_view_send_lt [simp]: "ok_view (snd (flex_send_link_time ev l i nd)) = ok_view nd"
  by (simp add: flex_send_link_time_def Let_def ok_view_upd_sess alive_def split: option.split)

lemma ok_view_drain [simp]: "ok_view (flex_advertise_drain ev p nd) = ok_view nd"
  by (rule ok_view_adv_frame [OF adv_frame_drain])

lemma ok_view_check [simp]: "ok_view (flex_advertise_check ev p a b c d nd) = ok_view nd"
  by (rule ok_view_adv_frame [OF adv_frame_check])

lemma ok_view_upd_adv: "(\<And>st. advs (f st) = advs st) \<Longrightarrow> ok_view (upd_adv i f nd) = ok_view nd"
  using adverts_ok_update [of "f (advertised nd ! i)" nd i]
  by (simp add: adv_fits_def ok_view_def slot_view_def upd_adv_def)

lemma ok_view_fold: "(\<And>z x. ok_view (f z x) = ok_view x) \<Longrightarrow> ok_view (fold f zs nd) = ok_view nd"
  by (induction zs arbitrary: nd) simp_all

lemma ok_view_walk [simp]: "ok_view (snd (snd (flex_advertise_walk_for_peer ev p b c nd))) = ok_view nd"
proof -
  have "ok_view (snd (snd (fold (walk_step ev p c) zs s))) = ok_view (snd (snd s))" for zs s
    by (induction zs arbitrary: s) (simp_all add: walk_step_def Let_def split: prod.split)
  then show ?thesis by (simp add: flex_advertise_walk_for_peer_def)
qed

lemma ok_view_rehandshake [simp]: "ok_view (rehandshake ev l i nd) = ok_view nd"
  by (simp add: rehandshake_def ok_view_upd_sess alive_def)

lemma ok_view_same_link [simp]: "ok_view (same_link ev l i nd) = ok_view nd"
  by (simp add: same_link_def Let_def ok_view_upd_sess alive_def)

lemma ok_view_tick_keepalive [simp]: "ok_view (tick_keepalive ev l i nd) = ok_view nd"
  by (simp add: tick_keepalive_def ok_view_upd_sess alive_def)

lemma ok_view_upd_port_link [simp]: "ok_view (upd_port_link i f nd) = ok_view nd"
  by (simp add: upd_port_link_def)

lemma ok_view_upd_link [simp]: "ok_view (upd_link i f nd) = ok_view nd"
  by (simp add: upd_link_def)

section \<open>Rewrites for composed operations\<close>

lemma keep_ok_view: "keep A nd x \<Longrightarrow> ok_view x' = ok_view x \<Longrightarrow> keep A nd x'"
  using keep_view [of A nd x "\<lambda>y. if y = x then x' else y"] by auto

text \<open>What a neighbour was told is forgotten, or replaced by a table that fits.\<close>

lemma keep_set_advs: "keep A nd x \<Longrightarrow> adv_fits st \<Longrightarrow> keep A nd (set_advs i st x)"
proof (erule keep_step)
  fix y :: node assume ok: "node_ok y" and st: "adv_fits st"
  have "adverts_ok (set_advs i st y)"
    using ok st set_update_subset_insert [of "advertised y" i st] by (auto simp: node_ok_def tables_ok_def adverts_ok_def set_advs_def)
  moreover have "learned_ok (set_advs i st y) = learned_ok y" by (simp add: learned_ok_def set_advs_def)
  moreover have "via_ok (set_advs i st y) v = via_ok y v" for v by (simp add: via_ok_def act_def set_advs_def)
  moreover have "slots_ok (set_advs i st y) = slots_ok y" by (simp add: slots_ok_def act_def set_advs_def)
  moreover have "dests (set_advs i st y) = dests y" by (simp add: set_advs_def)
  ultimately show "node_ok (set_advs i st y) \<and> slot_view (set_advs i st y) = slot_view y"
    using ok by (simp add: node_ok_def tables_ok_def) (simp add: slot_view_def set_advs_def)
qed

lemma adv_fits0 [simp]: "adv_fits adv_state0"
  by (simp add: adv_fits_def adv_state0_def)

lemma keep_restart: "keep A nd x \<Longrightarrow> keep A nd (FlexNet_NotePeerL2Restart ev ax port x)"
proof (erule keep_trans)
  fix x :: node
  have "keep A x (upd_sess i (\<lambda>s. s\<lparr>pcf_quiesced := False, quiesced_since := 0, sent_routes := False\<rparr>) x)" for i
    by (rule keep_ok_view [OF keep_refl]) (simp add: ok_view_upd_sess alive_def)
  then show "keep A x (FlexNet_NotePeerL2Restart ev ax port x)"
    by (simp add: FlexNet_NotePeerL2Restart_def keep_set_advs split: option.split)
qed

text \<open>An update of a neighbour's table that keeps its keys.\<close>

lemma keep_upd_learned:
  assumes "keep A nd x"
    "\<And>st. keys_ok learned_key FLEXNET_MAX_LEARNED_PER_NEIGHBOUR (routes st) \<Longrightarrow>
       keys_ok learned_key FLEXNET_MAX_LEARNED_PER_NEIGHBOUR (routes (f st))"
  shows "keep A nd (upd_learned i f x)"
  using assms(1)
proof (rule keep_step)
  fix y assume ok: "node_ok y" "\<forall>i \<in> A. act i y"
  have sv: "slot_view (upd_learned i f y) = slot_view y" by (simp add: slot_view_def upd_learned_def)
  have "length (sessions y) = FLEXNET_MAX_SESSIONS" using ok(1) by (simp add: node_ok_def slots_ok_def)
  from act_view [OF sv this] have a: "act j (upd_learned i f y) = act j y" for j .
  have "learned_ok (upd_learned i f y)"
  proof (cases "i < FLEXNET_MAX_SESSIONS")
    case True
    then show ?thesis using ok(1) learned_ok_upd [of y f i] learned_ok_slot [of y i] assms(2)
      by (simp add: node_ok_def tables_ok_def adverts_ok_def)
  next
    case False
    then show ?thesis using ok(1) by (simp add: node_ok_def tables_ok_def adverts_ok_def upd_learned_def learned_ok_def list_update_beyond)
  qed
  with ok(1) have "node_ok (upd_learned i f y)"
    using a by (auto simp: node_ok_def slots_ok_def tables_ok_def adverts_ok_def via_ok_def) (auto simp: upd_learned_def)
  with sv show "node_ok (upd_learned i f y) \<and> slot_view (upd_learned i f y) = slot_view y" by simp
qed

text \<open>New rows of the destination table: the keys stay, and every row is routed through an active session.\<close>

lemma keep_dests:
  assumes "keep A nd x"
    "\<And>y. node_ok y \<Longrightarrow> \<forall>i \<in> A. act i y \<Longrightarrow> keys_ok dest_key FLEXNET_MAX_DESTS (f y) \<and>
       (\<forall>d \<in> set (f y). via_ok y (d_via_session_idx d))"
  shows "keep A nd (x\<lparr>dests := f x\<rparr>)"
  using assms(1)
proof (rule keep_step)
  fix y assume ok: "node_ok y" "\<forall>i \<in> A. act i y"
  have "via_ok (y\<lparr>dests := f y\<rparr>) v = via_ok y v" for v by (simp add: via_ok_def act_def)
  then show "node_ok (y\<lparr>dests := f y\<rparr>) \<and> slot_view (y\<lparr>dests := f y\<rparr>) = slot_view y"
    using assms(2) [OF ok] ok(1) by (simp add: node_ok_def tables_ok_def adverts_ok_def slots_ok_def act_def slot_view_def)
qed

lemma keep_dest_row:
  assumes "keep A nd x"
    "\<And>y. node_ok y \<Longrightarrow> \<forall>i \<in> A. act i y \<Longrightarrow> i < length (dests y) \<Longrightarrow>
       dest_key (f y) = dest_key (dests y ! i) \<and> via_ok y (d_via_session_idx (f y))"
  shows "keep A nd (x\<lparr>dests := (dests x)[i := f x]\<rparr>)"
  using assms(1)
proof (rule keep_dests)
  fix y assume ok: "node_ok y" "\<forall>i \<in> A. act i y"
  show "keys_ok dest_key FLEXNET_MAX_DESTS ((dests y)[i := f y]) \<and>
      (\<forall>d \<in> set ((dests y)[i := f y]). via_ok y (d_via_session_idx d))"
  proof (cases "i < length (dests y)")
    case True
    then have f: "dest_key (f y) = dest_key (dests y ! i)" "via_ok y (d_via_session_idx (f y))"
      using assms(2) [OF ok] by auto
    show ?thesis using ok(1) dst.update_ok [OF _ f(1)] f(2) set_update_subset_insert [of "dests y" i "f y"]
      by (auto simp: node_ok_def tables_ok_def adverts_ok_def)
  next
    case False
    then show ?thesis using ok(1) by (simp add: list_update_beyond node_ok_def tables_ok_def adverts_ok_def)
  qed
qed

section \<open>The tables of destinations and learned routes\<close>

lemma keep_learned_add:
  assumes "keep A nd x" "length (d_callsign inc) \<le> 9"
  shows "keep A nd (flex_learned_add ev si inc x)"
  using assms(1)
proof (rule keep_step)
  fix y assume ok: "node_ok y" "\<forall>i \<in> A. act i y"
  let ?z = "flex_learned_add ev si inc y"
  have lf: "learn_frame y ?z" by (rule learn_frame_add)
  have "alive (sess_core s) = alive s" for s by (simp add: alive_def sess_core_def)
  then have al: "map alive ss = map alive (map sess_core ss)" for ss by simp
  have "map alive (sessions ?z) = map alive (sessions y)"
    using lf by (simp only: al [of "sessions ?z"] al [of "sessions y"] learn_frame_def)
  then have sv: "slot_view ?z = slot_view y" using lf by (simp add: learn_frame_def slot_view_def slot_aux_def)
  have l: "length (sessions y) = FLEXNET_MAX_SESSIONS" using ok(1) by (simp add: node_ok_def slots_ok_def)
  note a = act_view [OF sv l]
  have "slots_ok ?z"
  proof -
    have "i < session_count ?z \<and> s_LINK (sessions ?z ! i) \<noteq> None" if "act i ?z" for i
    proof -
      have "act i y" using that a by simp
      then have "i < session_count y \<and> s_LINK (sessions y ! i) \<noteq> None" "i < length (sessions y)"
        using ok(1) l by (auto simp: node_ok_def slots_ok_def act_def)
      then show ?thesis using slot_view_eqD [OF sv] by simp
    qed
    then show ?thesis using ok(1) lf slot_view_eqD [OF sv]
      by (auto simp: node_ok_def slots_ok_def learn_frame_def slot_aux_def)
  qed
  moreover have "tables_ok ?z" using ok(1) learned_add_ok [OF _ assms(2)] lf
    by (simp add: node_ok_def tables_ok_def adverts_ok_def learn_frame_def)
  moreover have "dests ?z = dests y" using lf by (simp add: learn_frame_def)
  ultimately show "node_ok ?z \<and> slot_view ?z = slot_view y" using ok(1) a sv by (simp add: node_ok_def via_ok_def)
qed

lemma elect_active: "el_si (elect nd d) = Some si \<Longrightarrow> act si nd"
proof -
  have "\<forall>i \<in> set zs. i < FLEXNET_MAX_SESSIONS \<Longrightarrow> el_si (fold (elect_step nd d) zs el) = Some si \<Longrightarrow>
      el_si el \<noteq> Some si \<Longrightarrow> act si nd" for zs el
  proof (induction zs arbitrary: el)
    case (Cons z zs)
    show ?case
    proof (cases "el_si (elect_step nd d z el) = Some si")
      case True
      with Cons.prems(3) have "z = si" "reelect_offer nd d z \<noteq> None"
        by (auto simp: elect_step_def split: option.splits if_splits)
      with Cons.prems(1) show ?thesis by (auto simp: act_def reelect_offer_def split: if_splits)
    next
      case False
      with Cons show ?thesis by simp
    qed
  qed simp
  from this [of "[0..<FLEXNET_MAX_SESSIONS]" election0]
  show "el_si (elect nd d) = Some si \<Longrightarrow> act si nd" by (simp add: elect_def election0_def split: if_splits)
qed

lemma reelect_row:
  "flex_dest_reelect ev i nd = nd\<lparr>dests := (dests nd)[i := dests (flex_dest_reelect ev i nd) ! i]\<rparr>"
  by (cases "i < length (dests nd)") (simp_all add: flex_dest_reelect_def Let_def list_update_beyond)

lemma keep_reelect:
  assumes "keep A nd x"
  shows "keep A nd (flex_dest_reelect ev i x)"
proof (subst reelect_row, rule keep_dest_row [OF assms])
  fix y :: node assume "i < length (dests y)"
  moreover from this have "via_ok y (d_via_session_idx (dests (flex_dest_reelect ev i y) ! i))"
    by (auto simp: flex_dest_reelect_def Let_def via_ok_def dest: elect_active split: option.split)
  ultimately show "dest_key (dests (flex_dest_reelect ev i y) ! i) = dest_key (dests y ! i) \<and>
      via_ok y (d_via_session_idx (dests (flex_dest_reelect ev i y) ! i))"
    using reelect_key by blast
qed

lemma keep_skips:
  "keep A nd x \<Longrightarrow> keep A nd (x\<lparr>rtt0_skips := n\<rparr>)" "keep A nd x \<Longrightarrow> keep A nd (x\<lparr>local_echo_skips := n\<rparr>)"
  by (rule keep_ok_view, assumption, simp add: ok_view_def adverts_ok_def slot_view_def)+

lemma keep_merge:
  assumes "keep A nd x" "si \<in> A" "length (d_callsign inc) \<le> 9"
  shows "keep A nd (snd (flex_dtable_merge ev inc (Some si) x))"
proof (rule keep_trans [OF assms(1)])
  fix x :: node
  let ?found = "flex_find_dest x (d_callsign inc) (d_ssid_lo inc) (d_ssid_hi inc)"
  have "via_ok y (int si)" if "\<forall>i \<in> A. act i y" for y :: node using that assms(2) by (simp add: via_ok_def)
  note v = this
  have via: "d_via_session_idx (row_update ev (int si) port via eff b d) = int si" for port via eff b d
    by (simp add: row_update_def Let_def)
  have row: "keep A x (x\<lparr>dests := (dests x)[i := row_update ev (int si) port via eff b (dests x ! i)]\<rparr>)" for i port via eff b
    by (rule keep_dest_row) (simp_all add: row_update_key via v)
  have heard: "keep A x (x\<lparr>dests := (dests x)[i := (dests x ! i)\<lparr>d_last_updated := t\<rparr>]\<rparr>)" for i t
  proof (rule keep_dest_row [where f = "\<lambda>x. (dests x ! i)\<lparr>d_last_updated := t\<rparr>", OF keep_refl])
    fix y :: node assume "node_ok y" "i < length (dests y)"
    then show "dest_key ((dests y ! i)\<lparr>d_last_updated := t\<rparr>) = dest_key (dests y ! i) \<and>
        via_ok y (d_via_session_idx ((dests y ! i)\<lparr>d_last_updated := t\<rparr>))"
      by (auto simp: dest_key_def node_ok_def)
  qed
  note add = keep_learned_add [OF _ assms(3)]
  show "keep A x (snd (flex_dtable_merge ev inc (Some si) x))"
  proof (cases ?found)
    case (Some i)
    show ?thesis
      by (simp add: flex_dtable_merge_def Let_def Some keep_skips row heard add keep_reelect)
  next
    case None
    have new: "keep A x (x\<lparr>dests := dests x @ [d]\<rparr>)"
      if d: "dest_key d = dkey (d_callsign inc) (d_ssid_lo inc) (d_ssid_hi inc)" "d_via_session_idx d = int si"
        "length (dests x) < FLEXNET_MAX_DESTS" for d
      unfolding keep_def
    proof (rule impI, erule conjE)
      assume ok: "node_ok x" "\<forall>i \<in> A. act i x"
      have "keys_ok dest_key FLEXNET_MAX_DESTS (dests x @ [d])"
        using ok(1) dst.append_ok [of "dests x" d] d None by (simp add: node_ok_def tables_ok_def adverts_ok_def find_dest_idx)
      moreover have "\<forall>d \<in> set (dests x @ [d]). via_ok x (d_via_session_idx d)"
        using ok d(2) v by (auto simp: node_ok_def)
      ultimately show "node_ok (x\<lparr>dests := dests x @ [d]\<rparr>) \<and> slot_view (x\<lparr>dests := dests x @ [d]\<rparr>) = slot_view x"
        using ok(1) by (simp add: node_ok_def tables_ok_def adverts_ok_def slots_ok_def act_def via_ok_def slot_view_def)
    qed
    have k: "dest_key (inc\<lparr>d_rtt := a, d_port := b, d_via_session_idx := c, d_last_updated := e\<rparr>) =
        dkey (d_callsign inc) (d_ssid_lo inc) (d_ssid_hi inc)"
      "dest_key (inc\<lparr>d_rtt := a, d_port := b, d_via_session_idx := c, d_last_updated := e, d_via_callsign := w\<rparr>) =
        dkey (d_callsign inc) (d_ssid_lo inc) (d_ssid_hi inc)" for a b c e w
      by (simp_all add: dest_key_def dkey_def)
    show ?thesis
      by (simp add: flex_dtable_merge_def Let_def None keep_skips new k add)
  qed
qed

lemma keep_merge_entries:
  "keep A nd x \<Longrightarrow> si \<in> A \<Longrightarrow> \<forall>e \<in> set es. length (d_callsign e) \<le> 9 \<Longrightarrow> keep A nd (merge_entries ev si es x)"
  unfolding merge_entries_def by (rule keep_fold) (simp_all add: keep_merge)

lemma keep_rx_compact: "keep A nd x \<Longrightarrow> si \<in> A \<Longrightarrow> keep A nd (rx_compact schar ev si data x)"
  unfolding rx_compact_def by (rule keep_merge_entries) (auto dest: parsed_calls_short)

lemma keep_reelect_via: "keep A nd x \<Longrightarrow> keep A nd (flex_dest_reelect_via ev si x)"
  unfolding flex_dest_reelect_via_def Let_def by (rule keep_fold) (simp_all add: keep_reelect)

section \<open>Sessions that learn they are established\<close>

lemma nbr_split_length: "length (fst (nbr_split s)) \<le> 9"
  using length_takeWhile_le [of "\<lambda>c. c \<noteq> CHR ''-''" "take 9 s"]
  by (simp add: nbr_split_def Let_def base_of_def FLEXNET_MAX_CALLSIGN_def)

lemma keep_mark_direct: "keep A nd x \<Longrightarrow> keep A nd (upd_learned si (set_route i (\<lambda>r. r\<lparr>l_direct := True\<rparr>)) x)"
  by (erule keep_upd_learned) (rule keys_ok_set_route, simp_all add: learned_key_def)

lemma keep_neighbour_entry:
  assumes "keep A nd x" "si \<in> A"
  shows "keep A nd (flex_add_neighbour_entry ev si x)"
proof (rule keep_trans [OF assms(1)])
  fix x :: node
  define base where "base l = fst (nbr_split (link_peer ev x l))" for l
  define ssid where "ssid l = snd (nbr_split (link_peer ev x l))" for l
  have b: "nbr_split (link_peer ev x l) = (base l, ssid l)" for l by (simp add: base_def ssid_def)
  have len: "length (base l) \<le> 9" for l by (simp add: base_def nbr_split_length)
  have m: "keep A x (snd (flex_dtable_merge ev
      (dest_entry0\<lparr>d_callsign := base l, d_ssid_lo := ssid l, d_ssid_hi := h, d_rtt := 1, d_via_callsign := w, d_port := p\<rparr>)
      (Some si) (x\<lparr>nbr_entered := (nbr_entered x)[si := True]\<rparr>)))" for l h w p
    by (rule keep_merge [OF _ assms(2)]) (rule keep_ok_view [OF keep_refl], simp_all add: len)
  show "keep A x (flex_add_neighbour_entry ev si x)"
  proof (cases "s_LINK (sessions x ! si)")
    case None
    then show ?thesis by (simp add: flex_add_neighbour_entry_def)
  next
    case (Some l)
    let ?hi = "nbr_hi (sessions x ! si) (base l) (ssid l) (routes (learned x ! si))"
    define y where "y = snd (flex_dtable_merge ev
      (dest_entry0\<lparr>d_callsign := base l, d_ssid_lo := ssid l, d_ssid_hi := ?hi, d_rtt := 1,
         d_via_callsign := take (FLEXNET_MAX_CALLSIGN - 1) (link_peer ev x l), d_port := s_port (sessions x ! si)\<rparr>)
      (Some si) (x\<lparr>nbr_entered := (nbr_entered x)[si := True]\<rparr>))"
    have "keep A x y" unfolding y_def by (rule m)
    then have "keep A x (if \<not> transit_enabled y then y
        else case first_idx (\<lambda>r. l_lo r = ssid l \<and> l_hi r = ?hi \<and> call_eq10 (l_call r) (base l)) (routes (learned y ! si)) of
          None \<Rightarrow> y | Some i \<Rightarrow> upd_learned si (set_route i (\<lambda>r. r\<lparr>l_direct := True\<rparr>)) y)"
      by (simp add: keep_mark_direct split: option.split)
    then show ?thesis
      by (simp only: flex_add_neighbour_entry_def Some option.case Let_def b prod.case y_def [symmetric] keep_refl if_cancel split: if_split) simp
  qed
qed

lemma keep_established:
  assumes "keep A nd x" "si \<in> A"
  shows "keep A nd (flex_note_peer_established ev si x)"
proof (rule keep_trans [OF assms(1)])
  fix x :: node
  have "keep A x (upd_sess si (\<lambda>s. s\<lparr>flex_est_inferred := True\<rparr>) x)"
    by (rule keep_ok_view [OF keep_refl]) (simp add: ok_view_upd_sess alive_def)
  then show "keep A x (flex_note_peer_established ev si x)"
    by (simp add: flex_note_peer_established_def Let_def keep_neighbour_entry assms(2))
qed

section \<open>Walks and link times\<close>

lemma keep_learned_flags:
  "keep A nd x \<Longrightarrow> (\<And>st. routes (f st) = routes st) \<Longrightarrow> keep A nd (upd_learned i f x)"
  by (erule keep_upd_learned) simp

lemma keep_seed: "keep A nd x \<Longrightarrow> keep A nd (flex_advertise_seed_peer ev p x)"
proof (erule keep_trans)
  fix x :: node
  obtain w q y where wk: "flex_advertise_walk_for_peer ev p False False x = (w, q, y)" by (cases "flex_advertise_walk_for_peer ev p False False x")
  then have "ok_view y = ok_view x" by (metis ok_view_walk snd_conv)
  then show "keep A x (flex_advertise_seed_peer ev p x)"
    by (simp add: flex_advertise_seed_peer_def Let_def wk) (intro conjI impI keep_learned_flags keep_ok_view [OF keep_refl], simp_all)
qed

lemma keep_neighbours: "keep A nd x \<Longrightarrow> keep A nd (flex_advertise_neighbours ev p x)"
proof (erule keep_trans)
  fix x :: node
  obtain w q y where wk: "flex_advertise_walk_for_peer ev p True True x = (w, q, y)" by (cases "flex_advertise_walk_for_peer ev p True True x")
  then have "ok_view y = ok_view x" by (metis ok_view_walk snd_conv)
  then show "keep A x (flex_advertise_neighbours ev p x)"
    by (simp add: flex_advertise_neighbours_def Let_def wk) (intro conjI impI keep_learned_flags keep_ok_view [OF keep_refl], simp_all)
qed

lemma keep_poison: "keep A nd x \<Longrightarrow> keep A nd (flex_advertise_poison_session ev i x)"
proof (erule keep_trans)
  fix x :: node
  have "ok_view (check_others ev i lr y) = ok_view y" for lr y
    unfolding check_others_def by (rule ok_view_fold) simp
  then have "ok_view (drain_all ev (fold (check_others ev i) zs x)) = ok_view x" for zs
    unfolding drain_all_def by (subst ok_view_fold) (simp_all add: ok_view_fold)
  then have "keep A x (set_advs i st (upd_learned i (\<lambda>st. st\<lparr>died_at := t\<rparr>) (drain_all ev (fold (check_others ev i) zs x))))"
      if "adv_fits st" for st t zs
    by (intro keep_set_advs keep_learned_flags keep_ok_view [OF keep_refl]) (simp_all add: that)
  then show "keep A x (flex_advertise_poison_session ev i x)"
    by (simp add: flex_advertise_poison_session_def Let_def)
qed

lemma keep_lt_trigger: "keep A nd x \<Longrightarrow> keep A nd (lt_trigger ev si x)"
proof (erule keep_trans)
  fix x :: node
  let ?y = "upd_learned si (\<lambda>st. st\<lparr>lt_anchor := our_link_time (sessions x ! si)\<rparr>) x"
  have f: "ok_view (fold (\<lambda>p nd. if p = si \<or> \<not> s_active (sessions nd ! p) then nd
        else flex_advertise_drain ev p (fold (\<lambda>lr. flex_advertise_check ev p (l_call lr) (l_lo lr) (l_hi lr) False) rs nd)) zs ?y) =
      ok_view ?y" for rs zs
    by (rule ok_view_fold) (simp add: ok_view_fold)
  have "keep A x ?y" by (rule keep_learned_flags) simp_all
  then show "keep A x (lt_trigger ev si x)"
    by (auto simp: lt_trigger_def Let_def intro!: keep_ok_view [OF _ f])
qed

lemma keep_lt_sample: "keep A nd x \<Longrightarrow> keep A nd (flex_link_time_sample ev si x)"
proof (erule keep_trans)
  fix x :: node
  have "alive (lt_fold a s) = alive s" for a s by (simp add: lt_fold_def Let_def alive_def)
  then have "keep A x (upd_sess si (lt_fold a) x)" for a by (intro keep_ok_view [OF keep_refl] ok_view_upd_sess)
  moreover have "keep A x (upd_sess si (\<lambda>s. s\<lparr>lt_tx_pending := False\<rparr>) x)"
    by (rule keep_ok_view [OF keep_refl]) (simp add: ok_view_upd_sess alive_def)
  ultimately show "keep A x (flex_link_time_sample ev si x)"
    by (simp add: flex_link_time_sample_def Let_def keep_lt_trigger)
qed

section \<open>CE frames\<close>

lemma keep_first_routes: "keep A nd x \<Longrightarrow> keep A nd (send_first_routes ev l si x)"
  unfolding send_first_routes_def
  by (rule keep_seed, erule keep_ok_view) (simp add: ok_view_upd_sess alive_def)

lemma keep_sess_field: "keep A nd x \<Longrightarrow> (\<And>s. alive (f s) = alive s) \<Longrightarrow> keep A nd (upd_sess i f x)"
  by (erule keep_ok_view) (rule ok_view_upd_sess)

lemmas keep_plain = keep_ok_view [OF _ ok_view_send] keep_ok_view [OF _ ok_view_send_lt] keep_ok_view [OF _ ok_view_keepalive]
  keep_ok_view [OF _ ok_view_own_routes] keep_ok_view [OF _ ok_view_drain] keep_ok_view [OF _ ok_view_upd_adv]
  keep_ok_view [OF _ ok_view_walk] keep_set_advs keep_ok_view [OF _ ok_view_send_init]
  keep_ok_view [OF _ ok_view_note_event] keep_ok_view [OF _ ok_view_set_flexlink]

lemma keep_ce_init: "keep A nd x \<Longrightarrow> si \<in> A \<Longrightarrow> keep A nd (ce_init ev l si data x)"
  by (simp add: ce_init_def ce_init_shape_def ce_reinit_def Let_def keep_plain keep_sess_field keep_neighbour_entry
      keep_first_routes alive_def)

lemma keep_ka_echo: "keep A nd x \<Longrightarrow> keep A nd (x\<lparr>ka_echo_at := snd (flex_ka_should_echo i b t (ka_echo_at x))\<rparr>)"
  by (erule keep_ok_view) (simp add: flex_ka_should_echo_def ok_view_def adverts_ok_def slot_view_def)

lemma keep_ce_keepalive: "keep A nd x \<Longrightarrow> si \<in> A \<Longrightarrow> keep A nd (ce_keepalive ev l si data x)"
  by (simp add: ce_keepalive_def Let_def case_prod_beta keep_plain keep_sess_field keep_established keep_first_routes
      keep_ka_echo alive_def)

lemma keep_ce_link_time: "keep A nd x \<Longrightarrow> si \<in> A \<Longrightarrow> keep A nd (ce_link_time ev l si data x)"
  by (simp add: ce_link_time_def Let_def keep_plain keep_sess_field keep_established keep_lt_sample alive_def)

lemma keep_ce_status_pos: "keep A nd x \<Longrightarrow> si \<in> A \<Longrightarrow> keep A nd (ce_status_pos ev l si x)"
  by (simp add: ce_status_pos_def Let_def keep_plain keep_sess_field keep_established alive_def)

section \<open>Paths\<close>

lemma session_for_call_active: "node_ok nd \<Longrightarrow> flex_session_for_call ev nd call = Some i \<Longrightarrow> act i nd"
  by (auto simp: flex_session_for_call_def act_def node_ok_def slots_ok_def split: if_splits dest: first_idx_SomeD)

lemma keep_probe_session: "keep A nd x \<Longrightarrow> keep A nd (snd (flex_probe_session ev di target x))"
proof (erule keep_trans)
  fix x :: node
  let ?d = "dests x ! nat di"
  have r: "keep A x (x\<lparr>dests := (dests x)[nat di := ?d\<lparr>d_via_session_idx := int h\<rparr>]\<rparr>)"
    if h: "flex_session_for_call ev x (d_via_callsign ?d) = Some h" for h
    unfolding keep_def
  proof (rule impI, erule conjE)
    assume ok: "node_ok x" "\<forall>i \<in> A. act i x"
    then have a: "act h x" using h session_for_call_active by blast
    have "keep {h} x (x\<lparr>dests := (dests x)[nat di := (dests x ! nat di)\<lparr>d_via_session_idx := int h\<rparr>]\<rparr>)"
      by (rule keep_dest_row [where f = "\<lambda>x. (dests x ! nat di)\<lparr>d_via_session_idx := int h\<rparr>"]) (auto simp: dest_key_def via_ok_def)
    with ok a show "node_ok (x\<lparr>dests := (dests x)[nat di := ?d\<lparr>d_via_session_idx := int h\<rparr>]\<rparr>) \<and>
        slot_view (x\<lparr>dests := (dests x)[nat di := ?d\<lparr>d_via_session_idx := int h\<rparr>]\<rparr>) = slot_view x"
      by (simp add: keep_def)
  qed
  show "keep A x (snd (flex_probe_session ev di target x))"
    by (simp add: flex_probe_session_def Let_def r split: option.split)
qed

lemma keep_path_req_ex: "keep A nd x \<Longrightarrow> keep A nd (fst (snd (flex_send_path_req_ex ev di c s x ps)))"
proof (erule keep_trans)
  fix x :: node
  obtain r y where p: "flex_probe_session ev di (target_full c s) x = (r, y)" by (cases "flex_probe_session ev di (target_full c s) x")
  have "keep A x y" using keep_probe_session [OF keep_refl, of A x ev di "target_full c s"] p by simp
  then show "keep A x (fst (snd (flex_send_path_req_ex ev di c s x ps)))"
    by (simp add: flex_send_path_req_ex_def Let_def p keep_plain split: option.split prod.split)
qed

lemma keep_ondemand: "keep A nd x \<Longrightarrow> keep A nd (fst (snd (flex_ondemand_probe ev di target x ps)))"
proof (erule keep_trans)
  fix x :: node
  let ?d = "dests x ! nat di"
  obtain r y ps1 where p: "flex_send_path_req_ex ev di (d_callsign ?d) (d_ssid_lo ?d) x ps = (r, y, ps1)"
    by (cases "flex_send_path_req_ex ev di (d_callsign ?d) (d_ssid_lo ?d) x ps")
  have "keep A x y" using keep_path_req_ex [OF keep_refl, of A x ev di "d_callsign ?d" "d_ssid_lo ?d" ps] p by simp
  then show "keep A x (fst (snd (flex_ondemand_probe ev di target x ps)))"
    by (simp add: flex_ondemand_probe_def Let_def p)
qed

lemma keep_forward: "keep A nd x \<Longrightarrow> keep A nd (fst (snd (flex_forward_path_req ev si t di orig hops data x ps)))"
  by (erule keep_trans) (simp add: flex_forward_path_req_def Let_def keep_plain split: option.split)

lemma keep_answer: "keep A nd x \<Longrightarrow> keep A nd (fst (answer_path_req ev l si f t b data x ps))"
proof (erule keep_trans)
  fix x :: node
  show "keep A x (fst (answer_path_req ev l si f t b data x ps))"
    using keep_forward [OF keep_refl, of A x]
    by (simp add: answer_path_req_def Let_def keep_plain split: option.split)
qed

lemma keep_handle_req: "keep A nd x \<Longrightarrow> keep A nd (fst (flex_handle_path_req ev b l si data x ps))"
proof (erule keep_trans)
  fix x :: node
  have fwd: "keep A x (fst (case flex_forward_path_req ev si t di orig hops data x ps of
        (True, nd1, ps1) \<Rightarrow> (nd1, ps1)
      | (False, nd1, ps1) \<Rightarrow> (case flex_ondemand_probe ev di t nd1 ps1 of
          (probed, nd2, ps2) \<Rightarrow> (nd2, if probed then flex_defer_path_req b (e_now ev) (int si) t data ps2 else ps2))))"
    for t di orig hops
  proof -
    obtain ok y ps1 where f: "flex_forward_path_req ev si t di orig hops data x ps = (ok, y, ps1)"
      by (cases "flex_forward_path_req ev si t di orig hops data x ps")
    have y: "keep A x y" using keep_forward [OF keep_refl, of A x ev si t di orig hops data ps] f by simp
    have "keep A x (fst (snd (flex_ondemand_probe ev di t y ps1)))" by (rule keep_ondemand [OF y])
    with y show ?thesis by (simp add: f split: prod.split bool.split) (metis fst_conv snd_conv)
  qed
  show "keep A x (fst (flex_handle_path_req ev b l si data x ps))"
    by (simp add: flex_handle_path_req_def Let_def keep_answer fwd split: option.split path_answer.split)
qed

lemma keep_relay: "keep A nd x \<Longrightarrow> keep A nd (fst (snd (flex_relay_path_rep ev orig hops data x ps)))"
  by (erule keep_trans) (simp add: flex_relay_path_rep_def Let_def keep_plain split: option.split)

lemma keep_row_path:
  assumes "keep A nd x" "\<And>d. dest_key (f d) = dest_key d" "\<And>d. d_via_session_idx (f d) = d_via_session_idx d"
  shows "keep A nd (x\<lparr>dests := (dests x)[i := f (dests x ! i)]\<rparr>)"
proof (rule keep_trans [OF assms(1)])
  fix x :: node
  show "keep A x (x\<lparr>dests := (dests x)[i := f (dests x ! i)]\<rparr>)"
  proof (rule keep_dest_row [where f = "\<lambda>x. f (dests x ! i)", OF keep_refl])
    fix y :: node assume "node_ok y" "i < length (dests y)"
    then have "via_ok y (d_via_session_idx (dests y ! i))" using nth_mem by (simp add: node_ok_def)
    then show "dest_key (f (dests y ! i)) = dest_key (dests y ! i) \<and> via_ok y (d_via_session_idx (f (dests y ! i)))"
      by (simp add: assms(2,3))
  qed
qed

lemma keep_cache_answer: "keep A nd x \<Longrightarrow> keep A nd (fst (cache_answer ev pr hops x ps))"
proof (erule keep_trans)
  fix x :: node
  have "keep A x (x\<lparr>dests := (dests x)[i := (\<lambda>d. d\<lparr>d_path_len := int (length hops), d_path_hops := store_hops hops (d_path_hops d),
      d_path_updated := e_now ev\<rparr>) (dests x ! i)]\<rparr>)" for i
    by (rule keep_row_path [OF keep_refl]) (simp_all add: dest_key_def)
  then show "keep A x (fst (cache_answer ev pr hops x ps))" by (simp add: cache_answer_def Let_def)
qed

lemma keep_replay_one: "keep A nd (fst s) \<Longrightarrow> keep A nd (fst (replay_one ev base i s))"
proof (cases s)
  case (Pair x ps)
  assume "keep A nd (fst s)"
  then have "keep A nd x" by (simp add: Pair)
  then have "keep A nd (fst (replay_one ev base i (x, ps)))"
    by (rule keep_trans) (simp add: replay_one_def Let_def keep_handle_req split: option.split)
  then show ?thesis by (simp add: Pair)
qed

lemma keep_replay: "keep A nd (fst s) \<Longrightarrow> keep A nd (fst (replay_deferred ev base s))"
proof -
  have "keep A nd (fst s) \<Longrightarrow> keep A nd (fst (fold (replay_one ev base) zs s))" for zs
    by (induction zs arbitrary: s) (simp_all add: keep_replay_one)
  then show "keep A nd (fst s) \<Longrightarrow> keep A nd (fst (replay_deferred ev base s))" by (simp add: replay_deferred_def)
qed

lemma keep_handle_rep: "keep A nd x \<Longrightarrow> keep A nd (fst (flex_handle_path_rep ev l data x ps))"
proof (erule keep_trans)
  fix x :: node
  have rep: "keep A x (fst (case (if v = SPROBE_ANSWERED then cache_answer ev pr hops x ps else (x, ps)) of
      (nd1, ps1) \<Rightarrow> replay_deferred ev base (nd1, g ps1)))" for v pr hops base g
    using keep_cache_answer [OF keep_refl, of A x ev pr hops ps] by (auto intro!: keep_replay split: prod.splits)
  show "keep A x (fst (flex_handle_path_rep ev l data x ps))"
    by (simp add: flex_handle_path_rep_def Let_def keep_relay rep split: option.split)
qed

section \<open>The rest of the timer's work\<close>

lemma keep_poll_slot: "keep A nd x \<Longrightarrow> keep A nd (poll_slot ev i x)"
proof (erule keep_trans)
  fix x :: node
  have offer: "ok_view (offer_again ev i p y) = ok_view y" for p y
    by (simp add: offer_again_def ok_view_fold)
  have key: "dest_key (shift_cost a d) = dest_key d" and via: "d_via_session_idx (shift_cost a d) = d_via_session_idx d" for a d
    by (simp_all add: shift_cost_def Let_def dest_key_def)
  have rows: "keep A x (x\<lparr>link_opts := lo, dests := map (\<lambda>d. if d_via_session_idx d = int i then shift_cost a d else d) (dests x)\<rparr>)"
    if lo: "length lo = length (link_opts x)" for a lo
    unfolding keep_def
  proof (rule impI, erule conjE)
    let ?f = "\<lambda>d. if d_via_session_idx d = int i then shift_cost a d else d"
    assume ok: "node_ok x"
    have "map dest_key (map ?f (dests x)) = map dest_key (dests x)" by (simp add: key)
    then have "keys_ok dest_key FLEXNET_MAX_DESTS (map ?f (dests x))"
      using ok by (simp only: keys_ok_def node_ok_def tables_ok_def adverts_ok_def length_map)
    then show "node_ok (x\<lparr>link_opts := lo, dests := map ?f (dests x)\<rparr>) \<and>
        slot_view (x\<lparr>link_opts := lo, dests := map ?f (dests x)\<rparr>) = slot_view x"
      using ok lo by (auto simp: node_ok_def tables_ok_def adverts_ok_def slots_ok_def act_def via_ok_def slot_view_def learned_ok_def via)
  qed
  have ch: "keep A x (flex_link_opts_changed ev i old new x)" for old new
  proof -
    let ?n2 = "if penalty_of new - penalty_of old = 0 then x\<lparr>link_opts := (link_opts x)[i := new]\<rparr>
      else x\<lparr>link_opts := (link_opts x)[i := new], dests := map (\<lambda>d. if d_via_session_idx d = int i
             then shift_cost (penalty_of new - penalty_of old) d else d) (dests x)\<rparr>"
    have n2: "keep A x ?n2" by (simp add: rows keep_ok_view [OF keep_refl])
    have v: "ok_view (fold (offer_again ev i) zs y) = ok_view y" for zs y by (rule ok_view_fold) (rule offer)
    have "ok_view (flex_link_opts_changed ev i old new x) = ok_view ?n2"
      by (simp add: flex_link_opts_changed_def Let_def v)
    then show ?thesis by (rule keep_ok_view [OF n2])
  qed
  show "keep A x (poll_slot ev i x)" by (simp add: poll_slot_def Let_def ch split: option.split)
qed

lemma keep_session_tick: "keep A nd x \<Longrightarrow> keep A nd (session_tick ev i x)"
proof (erule keep_trans)
  fix x :: node
  have k: "keep A x (tick_keepalive ev l i x)" for l by (rule keep_ok_view [OF keep_refl]) simp
  have a: "keep A y (tick_advert ev l i y)" for l y
    by (simp add: tick_advert_def keep_neighbours keep_plain keep_learned_flags)
  have r: "keep A y (tick_reseed ev l i y)" for l y by (simp add: tick_reseed_def keep_first_routes)
  have "keep A x (tick_reseed ev l i (tick_advert ev l i (tick_keepalive ev l i x)))" for l
    by (rule keep_trans [OF keep_trans [OF k a] r])
  then show "keep A x (session_tick ev i x)"
    by (simp add: session_tick_def keep_plain split: option.split)
qed

lemma keep_load_entry: "keep A nd x \<Longrightarrow> keep A nd (load_entry call lo hi upd hops x)"
proof (erule keep_trans)
  fix x :: node
  define f where "f = (\<lambda>d :: dest_entry. d\<lparr>d_path_len := int (length hops), d_path_updated := upd, d_path_hops := store_hops hops (d_path_hops d)\<rparr>)"
  have fk: "dest_key (f d) = dest_key d" "d_via_session_idx (f d) = d_via_session_idx d" for d by (simp_all add: f_def dest_key_def)
  show "keep A x (load_entry call lo hi upd hops x)"
  proof (cases "flex_find_dest x call lo hi")
    case (Some i)
    have "keep A x (x\<lparr>dests := (dests x)[i := f (dests x ! i)]\<rparr>)" by (rule keep_row_path [OF keep_refl fk])
    then show ?thesis by (simp add: load_entry_def Let_def Some f_def)
  next
    case None
    let ?d = "f (dest_entry0\<lparr>d_callsign := call, d_ssid_lo := lo, d_ssid_hi := hi, d_rtt := FLEXNET_RTT_INFINITY,
      d_via_session_idx := -1\<rparr>)"
    have k: "dest_key ?d = dkey call lo hi" by (simp add: f_def dest_key_def dkey_def)
    have "keep A x (x\<lparr>dests := dests x @ [?d]\<rparr>)" if room: "length (dests x) < FLEXNET_MAX_DESTS"
      unfolding keep_def
    proof (rule impI, erule conjE)
      assume ok: "node_ok x"
      have "keys_ok dest_key FLEXNET_MAX_DESTS (dests x @ [?d])"
        using ok dst.append_ok [of "dests x" ?d] k None room by (simp add: node_ok_def tables_ok_def adverts_ok_def find_dest_idx)
      then show "node_ok (x\<lparr>dests := dests x @ [?d]\<rparr>) \<and> slot_view (x\<lparr>dests := dests x @ [?d]\<rparr>) = slot_view x"
        using ok by (auto simp: node_ok_def tables_ok_def adverts_ok_def slots_ok_def act_def via_ok_def slot_view_def learned_ok_def fk)
    qed
    then show ?thesis by (simp add: load_entry_def Let_def None f_def)
  qed
qed

lemma keep_cache_load: "keep A nd x \<Longrightarrow> flex_path_cache_load ev ls x = Some y \<Longrightarrow> keep A nd y"
proof (induction ls arbitrary: x)
  case (Cons a ls)
  then show ?case using Cons.IH [OF keep_load_entry [OF Cons.prems(1)]] by (auto split: cache_entry.splits)
qed simp

lemma keep_bg_probe: "keep A nd (lf_node s) \<Longrightarrow> keep A nd (lf_node (bg_probe n ev s))"
proof (induction n arbitrary: s)
  case (Suc n)
  let ?i = "if path_probe_idx s \<ge> length (dests (lf_node s)) then 0 else path_probe_idx s"
  let ?e = "dests (lf_node s) ! ?i"
  obtain r y ps where p: "flex_send_path_req_ex ev (int ?i) (d_callsign ?e) (d_ssid_lo ?e) (lf_node s) (lf_ps s) = (r, y, ps)"
    by (cases "flex_send_path_req_ex ev (int ?i) (d_callsign ?e) (d_ssid_lo ?e) (lf_node s) (lf_ps s)")
  have y: "keep A nd y"
    using keep_path_req_ex [OF Suc.prems, of ev "int ?i" "d_callsign ?e" "d_ssid_lo ?e" "lf_ps s"] p by simp
  show ?case
    unfolding bg_probe.simps Let_def p prod.case
    using Suc.IH Suc.prems y by (simp only: life.simps split: if_split) simp
qed simp

end
