(* ===== verification/Flex_Digi.thy ===== *)
theory Flex_Digi
  imports Flex_Hooks Flex_L2
begin

unbundle bit_operations_syntax

text \<open>
  The digipeater part of LinBPQ's layer 2 (L2Code.c, \<open>L2Routine\<close> and \<open>Digipeat\<close>), which calls
  \<open>FlexNet_L2Transit\<close>: a received frame whose digi chain is not done is delivered here, repeated or
  dropped. A message is the buffer from DEST onward, as in Flex_L2. The statistics of the port and the
  log are left out.
\<close>

section \<open>Ports\<close>

text \<open>
  What of \<open>PORTCONTROL\<close> matters for digipeating besides its number and limits: its aliases, the cross
  band port and mask, the cross port table. \<open>CompareAliases\<close> and the node's alias are LinBPQ's.
\<close>

record digi_port = l2_port +
  d_alias :: "byte list"
  d_alias2 :: "byte list"
  d_digiport :: int
  d_digimask :: nat
  d_xdigis :: "(byte list \<times> int \<times> bool) list"

record aliases =
  a_same :: "byte list \<Rightarrow> byte list \<Rightarrow> bool"
  a_mine :: "byte list"

text \<open>
  What becomes of the frame: released, put on the queue of a port with a port number in its header,
  given to \<open>DigiToMultiplePorts\<close>, or handled by this node, its control field at an offset.
\<close>

datatype l2_rx = RxReleased | RxQueued int int l2_msg | RxMulti l2_msg | RxLocal nat l2_msg

section \<open>Digipeat\<close>

definition mark_hop :: "nat \<Rightarrow> l2_msg \<Rightarrow> l2_msg" where
  "mark_hop our m = m\<lparr>m_buf := (m_buf m)[our + 6 := (m_buf m ! (our + 6)) OR 0x80]\<rparr>"

text \<open>The last address entry from \<open>our\<close> on, given up 56 bytes after the first digi.\<close>

definition digi_end :: "l2_msg \<Rightarrow> nat \<Rightarrow> nat option" where
  "digi_end m our = map_option (\<lambda>k. our + 7 * k) (first_idx (\<lambda>k. end_bit m (our + 7 * k)) [0..<Suc ((70 - our) div 7)])"

definition is_ui :: "byte \<Rightarrow> bool" where
  "is_ui ctl \<longleftrightarrow> ctl AND 0xEF = 3"

definition put_on_port :: "env \<Rightarrow> int \<Rightarrow> l2_msg \<Rightarrow> l2_rx" where
  "put_on_port ev p m = (case e_ports ev p of None \<Rightarrow> RxReleased | Some v \<Rightarrow> RxQueued p p m)"

definition cross_band :: "env \<Rightarrow> digi_port \<Rightarrow> l2_msg \<Rightarrow> l2_rx" where
  "cross_band ev port m =
     (if d_digiport port \<noteq> 0 then put_on_port ev (d_digiport port) m
      else RxQueued (p_num port) (p_num port) m)"

definition Digipeat :: "env \<Rightarrow> digi_port \<Rightarrow> l2_msg \<Rightarrow> nat \<Rightarrow> int \<Rightarrow> bool \<Rightarrow> l2_rx" where
  "Digipeat ev port m our to_port ui_only =
     (if p_digiflag port = 0 \<and> to_port = 0 then RxReleased
      else
        let m1 = mark_hop our m in
        case digi_end m1 our of
          None \<Rightarrow> RxReleased
        | Some e \<Rightarrow>
            let ui = is_ui (m_buf m1 ! (e + 7)) in
            if to_port \<noteq> 0 then (if ui \<or> \<not> ui_only then put_on_port ev to_port m1 else RxReleased)
            else if ui then (if d_digimask port = 0 then cross_band ev port m1 else RxMulti m1)
            else if p_digiflag port = -1 then RxReleased
            else cross_band ev port m1)"

section \<open>The walk over the digi chain\<close>

definition digi_is_ours :: "aliases \<Rightarrow> env \<Rightarrow> digi_port \<Rightarrow> byte list \<Rightarrow> bool" where
  "digi_is_ours al ev port call \<longleftrightarrow> e_cmp ev call (e_mycall ev) \<or> a_same al call (a_mine al) \<or>
     e_cmp ev call (d_alias port) \<or> e_cmp ev call (d_alias2 port)"

text \<open>A pending digi of this node that is neither of an active link nor the last before a local call.\<close>

definition digi_transit :: "env \<Rightarrow> digi_port \<Rightarrow> l2_msg \<Rightarrow> nat \<Rightarrow> node \<Rightarrow> l2_state \<Rightarrow> l2_rx \<times> node \<times> l2_state" where
  "digi_transit ev port m d nd st =
     (let out = FlexNet_L2Transit ev (l2_port.truncate port) m d nd st in
      (case o_verdict out of
         L2Drop \<Rightarrow> RxReleased
       | L2Send our p \<Rightarrow> Digipeat ev port (o_msg out) our p (p \<noteq> 0 \<and> p_digiflag port = -1),
       o_node out, o_st out))"

definition digi_cross :: "env \<Rightarrow> digi_port \<Rightarrow> l2_msg \<Rightarrow> nat \<Rightarrow> l2_rx" where
  "digi_cross ev port m d =
     (case first_idx (\<lambda>x. e_cmp ev (entry_at m d) (fst x)) (d_xdigis port) of
        None \<Rightarrow> RxReleased
      | Some i \<Rightarrow> (case d_xdigis port ! i of (call, p, ui_only) \<Rightarrow> Digipeat ev port m d p ui_only))"

text \<open>
  The loop: \<open>n\<close> counts the digis still allowed, \<open>off\<close> is the entry looked at last, ORIGIN at first. Nothing is left of
  the count after eight digis, whether the address ends there or not.
\<close>

fun l2_digis :: "aliases \<Rightarrow> env \<Rightarrow> digi_port \<Rightarrow> nat \<Rightarrow> nat \<Rightarrow> l2_msg \<Rightarrow> node \<Rightarrow> l2_state \<Rightarrow> l2_rx \<times> node \<times> l2_state" where
  "l2_digis al ev port 0 off m nd st = (RxReleased, nd, st)"
| "l2_digis al ev port (Suc n) off m nd st =
     (if end_bit m off then (RxLocal (off + 7) m, nd, st)
      else
        let d = off + 7 in
        if (m_buf m ! (d + 6)) AND 0x80 \<noteq> 0 then l2_digis al ev port n d m nd st
        else if \<not> digi_is_ours al ev port (entry_at m d) then (digi_cross ev port m d, nd, st)
        else if fst (FindLink ev nd (entry_at m 7) (entry_at m 0) (p_num port))
        then l2_digis al ev port n d (mark_hop d m) nd st
        else if end_bit m d \<and> FlexNet_IsLocalCall ev nd (entry_at m 0)
        then (RxLocal (d + 7) (mark_hop d m), nd, st)
        else digi_transit ev port m d nd st)"

text \<open>Senders the node does not listen to: 7-byte entries up to an empty one, compared without SSID.\<close>

definition CheckExcludeList :: "byte list list \<Rightarrow> byte list \<Rightarrow> bool" where
  "CheckExcludeList ex call \<longleftrightarrow> \<not> list_ex (\<lambda>e. take 6 call = take 6 e) (takeWhile (\<lambda>e. e ! 0 \<noteq> 0) ex)"

definition l2_receive ::
  "aliases \<Rightarrow> byte list list \<Rightarrow> env \<Rightarrow> digi_port \<Rightarrow> l2_msg \<Rightarrow> node \<Rightarrow> l2_state \<Rightarrow> l2_rx \<times> node \<times> l2_state" where
  "l2_receive al ex ev port m nd st =
     (if \<not> CheckExcludeList ex (entry_at m 7) then (RxReleased, nd, st)
      else l2_digis al ev port 8 7 m nd st)"

end
