(* ===== verification/Flex_Cmd.thy ===== *)
theory Flex_Cmd
  imports Flex_Timer "HOL-Library.List_Lexorder" "HOL-Library.Product_Lexorder"
begin

text \<open>
  The operator's commands on destinations and paths (FlexNetCode.c): FLEXPROBE sends a path request and
  lists what became of the last ones (\<open>FlexNet_CmdProbe\<close>), D shows one destination or lists the table
  (\<open>FlexNet_CmdDest\<close>). A command's result is the text of its reply; what LinBPQ does with it
  is left out. \<open>qsort\<close> is a parameter: the C library leaves open how it sorts.
\<close>

section \<open>Text\<close>

text \<open>\<open>%-ns\<close>.\<close>

definition rpad :: "nat \<Rightarrow> string \<Rightarrow> string" where
  "rpad n s = s @ replicate (n - length s) SP"

definition joined :: "string \<Rightarrow> string list \<Rightarrow> string" where
  "joined sep xs = concat (map (\<lambda>x. sep @ x) xs)"

section \<open>FLEXPROBE\<close>

definition FLEXNET_SYSOP_PROBE_GAP :: int where "FLEXNET_SYSOP_PROBE_GAP = 5"

definition flex_sysop_probe_state_str :: "sprobe \<Rightarrow> string" where
  "flex_sysop_probe_state_str st =
     (case st of SPROBE_PENDING \<Rightarrow> ''waiting'' | SPROBE_ANSWERED \<Rightarrow> ''answered''
      | SPROBE_LOOP \<Rightarrow> ''loop, not cached'' | SPROBE_WRONG_END \<Rightarrow> ''wrong end, not cached''
      | SPROBE_TIMEOUT \<Rightarrow> ''no answer'')"

definition probe_line :: "env \<Rightarrow> sysop_probe \<Rightarrow> string" where
  "probe_line ev r =
     (let res = take 31 (if sp_state r = SPROBE_PENDING then ''waiting''
                else flex_sysop_probe_state_str (sp_state r) @ '' in '' @ dec_of_int (sp_elapsed r) @ ''s'')
      in rpad 12 (sp_target r) @ [SP] @ rpad 12 (sp_via r) @ [SP] @ rpad 6 (dec_of_int (sp_qso r)) @ [SP] @
         rpad 6 (dec_of_int (e_now ev - sp_sent r)) @ [SP] @ res @ [CR] @
         (if sp_hops r = [] then []
          else ''  '' @ (if sp_state r = SPROBE_ANSWERED then ''route'' else ''chain'') @ '': '' @
               flex_normalize_callsign (e_conv ev) (e_mycall ev) 20 @ joined [SP] (sp_hops r) @ [CR]))"

text \<open>Newest first: backwards from the slot before the next one.\<close>

definition probe_order :: "path_state \<Rightarrow> sysop_probe list" where
  "probe_order ps =
     filter sp_in_use (map (\<lambda>k. sysop_ring ps ! ((sysop_next ps + FLEXNET_SYSOP_PROBE_RING - 1 - k) mod FLEXNET_SYSOP_PROBE_RING))
       [0..<FLEXNET_SYSOP_PROBE_RING])"

definition flex_cmd_probe_list :: "env \<Rightarrow> path_state \<Rightarrow> string" where
  "flex_cmd_probe_list ev ps =
     (let rs = probe_order ps in
      if rs = [] then ''No path queries sent. Usage: FLEXPROBE <call>[-ssid]'' @ [CR]
      else ''FlexNet path queries (newest first):'' @ [CR] @
           ''Target       Via          QSO    Age    Result'' @ [CR] @ concat (map (probe_line ev) rs))"

definition probe_target :: "dest_entry \<Rightarrow> int \<Rightarrow> string" where
  "probe_target d ssid = take 13 (if ssid = 0 then d_callsign d else d_callsign d @ ''-'' @ dec_of_int ssid)"

text \<open>The time of the last query (0 for none) is passed and returned beside the state.\<close>

definition flex_cmd_probe_send :: "env \<Rightarrow> string \<Rightarrow> int \<Rightarrow> int \<Rightarrow> life \<Rightarrow> string \<times> int \<times> life" where
  "flex_cmd_probe_send ev call ssid before s =
     (let nd = lf_node s; wait = FLEXNET_SYSOP_PROBE_GAP - (e_now ev - before) in
      if before \<noteq> 0 \<and> wait > 0
      then (''Wait '' @ dec_of_int wait @ ''s before the next path query'' @ [CR], before, s)
      else case flex_find_best_dest nd call ssid of
        None \<Rightarrow> (call @ '': no FlexNet route (see D)'' @ [CR], before, s)
      | Some di \<Rightarrow>
          let d = dests nd ! di; use = (if ssid \<ge> 0 then ssid else d_ssid_lo d); target = probe_target d use in
          if case_eq target (flex_normalize_callsign (e_conv ev) (e_mycall ev) 20)
          then (target @ '' is this node'' @ [CR], before, s)
          else case flex_send_path_req_ex ev (int di) (d_callsign d) use nd (lf_ps s) of
            (r, nd1, ps1) \<Rightarrow>
              let s1 = s\<lparr>lf_node := nd1, lf_ps := ps1\<rparr> in
              case r of
                ProbeFull \<Rightarrow> (''All '' @ dec_of_nat FLEXNET_MAX_PATH_PROBES @ '' path queries are pending - try again in '' @
                               dec_of_int FLEXNET_PATH_PROBE_TIMEOUT @ ''s'' @ [CR], before, s1)
              | ProbeNoNeighbour \<Rightarrow> (target @ '': no FlexNet neighbour to ask'' @ [CR], before, s1)
              | ProbeBuild \<Rightarrow> (target @ '': path query could not be built'' @ [CR], before, s1)
              | ProbeSent slot via \<Rightarrow>
                  let q = pp_qso (probes ps1 ! slot) in
                  case flex_sysop_probe_add target via q (e_now ev) ps1 of
                    (ring, ps2) \<Rightarrow>
                      (''Path query for '' @ target @ '' sent via '' @ via @ '' (QSO '' @ dec_of_int q @ ''). Result within '' @
                         dec_of_int FLEXNET_PATH_PROBE_TIMEOUT @ ''s: FLEXPROBE'' @ [CR],
                       e_now ev, s1\<lparr>lf_ps := ps2\<lparr>probes := (probes ps2)[slot := (probes ps2 ! slot)\<lparr>pp_sysop_ring := ring\<rparr>]\<rparr>\<rparr>))"

definition FlexNet_CmdProbe :: "env \<Rightarrow> string option \<Rightarrow> int \<Rightarrow> life \<Rightarrow> string \<times> int \<times> life" where
  "FlexNet_CmdProbe ev tail before s =
     (case flex_parse_probe_target tail of
        ProbeList \<Rightarrow> (flex_cmd_probe_list ev (lf_ps s), before, s)
      | ProbeMalformed \<Rightarrow> (''Usage: FLEXPROBE [<call>[-ssid]]'' @ [CR], before, s)
      | ProbeTarget call ssid \<Rightarrow> flex_cmd_probe_send ev call ssid before s)"

section \<open>D: the arguments\<close>

datatype cache_filter = AnyPath | CachedOnly | UncachedOnly
datatype dest_sort = Unsorted | SortCost | SortCall | SortAge

record dest_query =
  q_call :: "string option"
  q_via :: "string option"
  q_cache :: cache_filter
  q_sort :: dest_sort

definition dest_query0 :: dest_query where
  "dest_query0 = \<lparr>q_call = None, q_via = None, q_cache = AnyPath, q_sort = Unsorted\<rparr>"

text \<open>A token is cut off after nine characters; the rest is the next token.\<close>

definition tok_stop :: "char \<Rightarrow> bool" where
  "tok_stop c \<longleftrightarrow> c = SP \<or> c = CR \<or> c = LF \<or> c = CHR 0x00"

definition dest_tok :: "string \<Rightarrow> string \<times> string" where
  "dest_tok s = (let t = take 9 (takeWhile (\<lambda>c. \<not> tok_stop c) s) in (map to_upper t, drop (length t) s))"

definition skip_sp :: "string \<Rightarrow> string" where
  "skip_sp s = dropWhile (\<lambda>c. c = SP) s"

definition dest_option :: "string \<Rightarrow> dest_query \<Rightarrow> dest_query" where
  "dest_option tok q =
     (if hd tok = CHR ''/'' \<and> tl tok \<noteq> []
      then (if tl tok = ''COST'' then q\<lparr>q_sort := SortCost\<rparr>
            else if tl tok = ''CALL'' then q\<lparr>q_sort := SortCall\<rparr>
            else if tl tok = ''AGE'' then q\<lparr>q_sort := SortAge\<rparr> else q)
      else if tok = ''!'' then q\<lparr>q_cache := CachedOnly\<rparr>
      else if tok = ''?'' then q\<lparr>q_cache := UncachedOnly\<rparr>
      else if q_call q = None then q\<lparr>q_call := Some tok\<rparr> else q)"

lemma dest_tok_shorter: "length (snd (dest_tok s)) \<le> length s"
  by (simp add: dest_tok_def Let_def)

lemma dest_tok_progress: "\<not> arg_end s \<Longrightarrow> \<not> tok_stop (hd s) \<Longrightarrow> length (snd (dest_tok s)) < length s"
  by (cases s) (auto simp: dest_tok_def Let_def arg_end_def)

lemma skip_sp_shorter: "length (skip_sp s) \<le> length s"
  by (simp add: skip_sp_def length_dropWhile_le)

lemma skip_sp_hd: "\<not> arg_end (skip_sp s) \<Longrightarrow> \<not> tok_stop (hd (skip_sp s))"
  using hd_dropWhile [of "\<lambda>c. c = SP" s] by (auto simp: skip_sp_def arg_end_def tok_stop_def)

lemma dest_tok_first:
  assumes "\<not> arg_end (skip_sp s)" "dest_tok (skip_sp s) = (tok, r)"
  shows "length r < length s"
  using dest_tok_progress [OF assms(1) skip_sp_hd [OF assms(1)]] skip_sp_shorter [of s] assms(2) by simp

lemma dest_tok_second:
  assumes "\<not> arg_end (skip_sp s)" "dest_tok (skip_sp s) = (tok, r)" "dest_tok (skip_sp r) = (t, r2)"
  shows "length r2 < length s"
  using dest_tok_first [OF assms(1,2)] dest_tok_shorter [of "skip_sp r"] skip_sp_shorter [of r] assms(3) by simp

function dest_args :: "string \<Rightarrow> dest_query \<Rightarrow> dest_query" where
  "dest_args s q =
     (if arg_end (skip_sp s) then q
      else case dest_tok (skip_sp s) of (tok, r) \<Rightarrow>
        if hd tok = CHR ''<''
        then (if tl tok \<noteq> [] then dest_args r (q\<lparr>q_via := Some (tl tok)\<rparr>)
              else case dest_tok (skip_sp r) of (t, r2) \<Rightarrow>
                dest_args r2 (if t = [] then q else q\<lparr>q_via := Some t\<rparr>))
        else dest_args r (dest_option tok q))"
  by pat_completeness auto
termination
  by (relation "measure (\<lambda>(s, q). length s)")
    (auto dest!: sym [of "(_, _)"] intro: dest_tok_first dest_tok_second)

declare dest_args.simps [simp del]

section \<open>D: one destination\<close>

definition path_fresh :: "env \<Rightarrow> dest_entry \<Rightarrow> bool" where
  "path_fresh ev d \<longleftrightarrow> d_path_len d > 0 \<and> e_now ev - d_path_updated d < FLEXNET_PATH_CACHE_TTL"

definition flex_show_dest_detail :: "env \<Rightarrow> dest_entry \<Rightarrow> int \<Rightarrow> string" where
  "flex_show_dest_detail ev e query_ssid =
     (let me = own_call ev in
      ''*** '' @ d_callsign e @ ''  ('' @ dec_of_int (d_ssid_lo e) @ ''-'' @ dec_of_int (d_ssid_hi e) @ '') T='' @
      dec_of_int (d_rtt e) @ [CR] @ ''*** route: '' @ me @
      (if path_fresh ev e \<and>
          \<not> flex_chain_has_call (dest_path e) (flex_normalize_callsign (e_conv ev) (e_mycall ev) 20) \<and>
          flex_chain_ends_at (dest_path e) (d_callsign e) (d_ssid_lo e) (d_ssid_hi e)
       then joined [SP] (dest_path e) @ [CR]
       else (if d_via_callsign e \<noteq> '''' \<and> \<not> case_eq (d_via_callsign e) (d_callsign e) then SP # d_via_callsign e else '''') @
            SP # d_callsign e @ (if query_ssid \<ge> 0 then ''-'' @ dec_of_int query_ssid else '''') @ [CR]))"

text \<open>A callsign with an optional SSID, in buffers of ten characters: no SSID is -1.\<close>

definition dash_split :: "string \<Rightarrow> string \<times> int" where
  "dash_split s =
     (let b = takeWhile (\<lambda>c. c \<noteq> CHR ''-'') s; r = drop (length b) s in
      if r = [] then (take 9 s, -1)
      else if 0 < length b \<and> length b < FLEXNET_MAX_CALLSIGN then (b, atoi (tl r)) else ('''', -1))"

section \<open>D: the list\<close>

datatype dest_match = MatchAll | MatchPrefix string | MatchSuffix string | MatchInside string

definition dest_match_of :: "string option \<Rightarrow> dest_match" where
  "dest_match_of q =
     (case q of None \<Rightarrow> MatchAll
      | Some f \<Rightarrow>
          let star = CHR ''*''; leading = (f \<noteq> [] \<and> hd f = star); trailing = (f \<noteq> [] \<and> f ! (length f - 1) = star) in
          if f = [star] then MatchAll
          else if leading \<and> trailing \<and> length f > 2 then MatchInside (butlast (tl f))
          else if leading \<and> length f > 1 then MatchSuffix (tl f)
          else if trailing \<and> length f > 1 then MatchPrefix (butlast f)
          else MatchPrefix f)"

definition call_matches :: "dest_match \<Rightarrow> string \<Rightarrow> bool" where
  "call_matches m call =
     (case m of MatchAll \<Rightarrow> True
      | MatchPrefix s \<Rightarrow> case_eq (take (length s) call) s
      | MatchSuffix s \<Rightarrow> length s \<le> length call \<and> case_eq (drop (length call - length s) call) s
      | MatchInside s \<Rightarrow> find_sub (map to_upper (take 9 s)) (map to_upper (take 9 call)) \<noteq> None)"

definition via_matches :: "string option \<Rightarrow> string \<Rightarrow> bool" where
  "via_matches q via =
     (case q of None \<Rightarrow> True
      | Some v \<Rightarrow> (case dash_split v of (vc, vs) \<Rightarrow> case dash_split via of (ec, es) \<Rightarrow>
          ec \<noteq> '''' \<and> case_eq ec vc \<and> \<not> (vs \<ge> 0 \<and> es \<noteq> vs)))"

definition cache_matches :: "env \<Rightarrow> cache_filter \<Rightarrow> dest_entry \<Rightarrow> bool" where
  "cache_matches ev q d =
     (case q of AnyPath \<Rightarrow> True | CachedOnly \<Rightarrow> path_fresh ev d | UncachedOnly \<Rightarrow> \<not> path_fresh ev d)"

definition dest_shown :: "env \<Rightarrow> dest_query \<Rightarrow> dest_entry \<Rightarrow> bool" where
  "dest_shown ev q d \<longleftrightarrow> d_rtt d < FLEXNET_RTT_INFINITY \<and> d_callsign d \<noteq> '''' \<and>
     via_matches (q_via q) (d_via_callsign d) \<and> cache_matches ev (q_cache q) d \<and>
     call_matches (dest_match_of (q_call q)) (d_callsign d)"

text \<open>\<open>strcasecmp\<close>, whose sign is all that counts: the bytes in lower case, in lexicographic order.\<close>

definition lower_bytes :: "string \<Rightarrow> nat list" where
  "lower_bytes s = map (\<lambda>c. if is_upper c then of_char c + 32 else of_char c) s"

definition casecmp :: "string \<Rightarrow> string \<Rightarrow> int" where
  "casecmp a b = (if lower_bytes a < lower_bytes b then -1 else if lower_bytes a = lower_bytes b then 0 else 1)"

definition path_time :: "dest_entry \<Rightarrow> int" where
  "path_time d = (if d_path_len d > 0 then d_path_updated d else 0)"

definition flex_dest_cmp_qs :: "dest_sort \<Rightarrow> dest_entry list \<Rightarrow> nat \<Rightarrow> nat \<Rightarrow> int" where
  "flex_dest_cmp_qs mode ds ia ib =
     (let a = ds ! ia; b = ds ! ib in
      case mode of
        SortCost \<Rightarrow> if d_rtt a \<noteq> d_rtt b then d_rtt a - d_rtt b else casecmp (d_callsign a) (d_callsign b)
      | SortCall \<Rightarrow> if casecmp (d_callsign a) (d_callsign b) \<noteq> 0 then casecmp (d_callsign a) (d_callsign b)
                    else d_ssid_lo a - d_ssid_lo b
      | SortAge \<Rightarrow> if path_time a \<noteq> path_time b then (if path_time b > path_time a then 1 else -1)
                   else casecmp (d_callsign a) (d_callsign b)
      | Unsorted \<Rightarrow> int ia - int ib)"

type_synonym sorter = "(nat \<Rightarrow> nat \<Rightarrow> int) \<Rightarrow> nat list \<Rightarrow> nat list"

definition dest_rows :: "sorter \<Rightarrow> env \<Rightarrow> dest_query \<Rightarrow> dest_entry list \<Rightarrow> nat list" where
  "dest_rows qs ev q ds =
     filter (\<lambda>i. dest_shown ev q (ds ! i))
       (if q_sort q = Unsorted then [0..<length ds] else qs (flex_dest_cmp_qs (q_sort q) ds) [0..<length ds])"

definition dest_cell :: "env \<Rightarrow> dest_entry \<Rightarrow> string" where
  "dest_cell ev d =
     rpad 24 (take 39 (rpad 6 (d_callsign d) @ [SP] @
       rpad 5 (take 11 (dec_of_int (d_ssid_lo d) @ ''-'' @ dec_of_int (d_ssid_hi d))) @ [SP] @
       lpad 5 (dec_of_int (d_rtt d)) @ (if path_fresh ev d then ''! '' else ''  '')))"

text \<open>Three cells to a line.\<close>

fun cell_lines :: "string list \<Rightarrow> string" where
  "cell_lines (a # b # c # cs) = a @ b @ c @ [CR] @ cell_lines cs"
| "cell_lines [] = ''''"
| "cell_lines cs = concat cs @ [CR]"

definition local_calls_line :: "node \<Rightarrow> string" where
  "local_calls_line nd =
     (let ls = filter (\<lambda>e. lc_state e = LOCAL_BOUND) (locals nd) in
      if ls = [] then ''''
      else ''Local calls (cost 1):'' @ concat (map (\<lambda>e. SP # flex_local_format e @
             (if lc_ext_port e \<noteq> 0 then take 11 (''(p'' @ dec_of_int (lc_ext_port e) @ '')'') else '''')) ls) @ [CR])"

definition dest_list :: "sorter \<Rightarrow> env \<Rightarrow> dest_query \<Rightarrow> node \<Rightarrow> string" where
  "dest_list qs ev q nd =
     (let rows = dest_rows qs ev q (dests nd) in
      ''FlexNet Destinations:'' @ [CR] @ cell_lines (map (\<lambda>i. dest_cell ev (dests nd ! i)) rows) @
      (if rows = [] then ''(no matching destinations)'' @ [CR]
       else [CR] @ dec_of_nat (length rows) @ '' destinations'' @ [CR]) @
      (if dest_match_of (q_call q) = MatchAll then local_calls_line nd else ''''))"

section \<open>D: the command\<close>

text \<open>The row a call without a wildcard is about.\<close>

definition dest_named :: "node \<Rightarrow> string \<Rightarrow> (nat \<times> int) option" where
  "dest_named nd f =
     (if CHR ''*'' \<in> set f then None
      else case dash_split f of (call, ssid) \<Rightarrow> map_option (\<lambda>i. (i, ssid)) (flex_find_best_dest nd call ssid))"

definition FlexNet_CmdDest :: "sorter \<Rightarrow> env \<Rightarrow> string \<Rightarrow> node \<Rightarrow> string" where
  "FlexNet_CmdDest qs ev tail nd =
     (let q = dest_args tail dest_query0; ext = (case q_call q of None \<Rightarrow> 0 | Some f \<Rightarrow> flex_external_port nd f) in
      if ext \<noteq> 0
      then the (q_call q) @ '': external station on port '' @ dec_of_int ext @ '' (FLEXNETEXTERNAL, advertised at cost 1)'' @ [CR]
      else if (case q_call q of None \<Rightarrow> False | Some f \<Rightarrow> flex_local_find nd f \<noteq> None)
      then the (q_call q) @ '': local call of this node (FLEXNETLOCAL, advertised at cost 1)'' @ [CR]
      else if dests nd = [] then ''No FlexNet destinations'' @ [CR]
      else case Option.bind (q_call q) (dest_named nd) of
        Some (i, ssid) \<Rightarrow> flex_show_dest_detail ev (dests nd ! i) ssid
      | None \<Rightarrow> dest_list qs ev q nd)"

end
