(* ===== verification/Flex_Life.thy ===== *)
theory Flex_Life
  imports Flex_Keep Flex_Digi Flex_Cmd
begin

text \<open>
  The layer as a transition system: what LinBPQ and the neighbours can make it do, one call at a time,
  with the clock, the ports and the neighbours free to be anything at every step, and LinBPQ's own
  changes of its link table in between. What holds in every state it can reach.
\<close>

section \<open>Reading the configuration leaves the tables alone\<close>

lemma more_if: "flex_config.more x = m \<Longrightarrow> flex_config.more y = m \<Longrightarrow> flex_config.more (if b then x else y) = m"
  by simp

lemma more_local_add [simp]: "flex_config.more (snd (flex_local_add b s f c)) = flex_config.more c"
  by (simp add: flex_local_add_def)

lemma more_collect [simp]: "flex_config.more (flex_local_collect_apps b as c) = flex_config.more c"
  by (induction b as c rule: flex_local_collect_apps.induct) (auto split: option.split)

lemma more_local_tokens [simp]: "flex_config.more (foldl local_line_token c ts) = flex_config.more c"
  by (induction ts arbitrary: c) (simp_all add: local_line_token_def split: option.split)

lemma more_external_add [simp]: "flex_config.more (external_add b s p c) = flex_config.more c"
  by (simp add: external_add_def case_prod_beta split: option.split)

lemma more_ssidrange [simp]: "flex_config.more (snd (flex_parse_ssidrange_line l c)) = flex_config.more c"
  unfolding flex_parse_ssidrange_line_def Let_def by (simp only: snd_conv if_distrib [of snd] if_distrib [of flex_config.more]) simp

lemma more_local_line [simp]: "flex_config.more (snd (flex_parse_local_line l c)) = flex_config.more c"
  unfolding flex_parse_local_line_def Let_def by simp

lemma more_external_line [simp]: "flex_config.more (snd (flex_parse_external_line l c)) = flex_config.more c"
  unfolding flex_parse_external_line_def Let_def by (simp split: option.split)

lemma more_on_bool:
  "(\<And>b. flex_config.more (f b) = m) \<Longrightarrow> flex_config.more x = m \<Longrightarrow> flex_config.more y = m \<Longrightarrow>
    flex_config.more (on_bool r f x y) = m"
  by (simp add: on_bool_def split: option.split)

lemma more_global_line [simp]: "flex_config.more (global_line l c) = flex_config.more c"
  unfolding global_line_def by (intro more_if more_on_bool) simp_all

lemma more_port_line [simp]: "flex_config.more (snd (flex_parse_port_block_line conv l s)) = flex_config.more (snd s)"
proof (cases s)
  case (Pair ps c)
  have e: "flex_config.more (snd (end_port ps c)) = flex_config.more c" by (simp add: end_port_def Let_def)
  have l: "flex_config.more (flex_parse_port_link conv n v c) = flex_config.more c" for n v
    by (simp add: flex_parse_port_link_def Let_def case_prod_beta split: option.split)
  show ?thesis unfolding Pair flex_parse_port_block_line_def Let_def prod.case
    by (simp add: e l split: option.split)
qed

lemma more_load_line: "flex_config.more (snd (load_line conv s l)) = flex_config.more (snd s)"
  using more_port_line [of conv l s] by (simp add: load_line_def case_prod_beta)

lemma more_load_lines: "flex_config.more (snd (foldl (load_line conv) s xs)) = flex_config.more (snd s)"
  by (induction xs arbitrary: s) (simp_all add: more_load_line)

lemma more_load [simp]: "flex_config.more (flex_load_config conv ls c) = flex_config.more c"
  by (simp add: flex_load_config_def more_load_lines split: option.split)

lemma more_local_init [simp]: "flex_config.more (flex_local_init a b c d e) = flex_config.more e"
  by (simp add: flex_local_init_def flex_local_resolve_def Let_def split: prod.split)

lemma ok_view_more: "flex_config.more nd' = flex_config.more nd \<Longrightarrow> ok_view nd' = ok_view (nd :: node)"
  by (cases nd; cases nd') (simp add: ok_view_def adverts_ok_def slot_view_def)

section \<open>Sessions come and go\<close>

text \<open>A slot changes its occupant, or gives it up when no row is routed through it.\<close>

lemma node_ok_sess:
  assumes "node_ok nd" "i < FLEXNET_MAX_SESSIONS"
    and "s_active (f (sessions nd ! i)) \<Longrightarrow> i < session_count nd \<and> s_LINK (f (sessions nd ! i)) \<noteq> None"
    and "act i nd \<Longrightarrow> s_active (f (sessions nd ! i)) \<or> (\<forall>d \<in> set (dests nd). d_via_session_idx d \<noteq> int i)"
  shows "node_ok (upd_sess i f nd)"
proof -
  have l: "length (sessions nd) = FLEXNET_MAX_SESSIONS" using assms(1) by (simp add: node_ok_def slots_ok_def)
  have nth: "sessions (upd_sess i f nd) ! j = (if j = i then f (sessions nd ! i) else sessions nd ! j)" for j
    using assms(2) l by (simp add: upd_sess_def)
  have a: "act j (upd_sess i f nd) = (if j = i then s_active (f (sessions nd ! i)) else act j nd)" for j
    using assms(2) by (simp add: act_def nth)
  have "slots_ok (upd_sess i f nd)"
    using assms(1,3) a nth by (auto simp: node_ok_def slots_ok_def) (simp_all add: upd_sess_def)
  moreover have "tables_ok (upd_sess i f nd)"
    using assms(1) by (simp add: node_ok_def tables_ok_def adverts_ok_def learned_ok_def upd_sess_def)
  moreover have "via_ok (upd_sess i f nd) (d_via_session_idx d)" if d: "d \<in> set (dests nd)" for d
  proof (cases "d_via_session_idx d < 0")
    case True
    then show ?thesis by (simp add: via_ok_def)
  next
    case False
    then have v: "act (nat (d_via_session_idx d)) nd" using assms(1) d by (auto simp: node_ok_def via_ok_def)
    show ?thesis
    proof (cases "nat (d_via_session_idx d) = i")
      case True
      then have "d_via_session_idx d = int i" using False by simp
      then show ?thesis using assms(4) v True d by (auto simp: via_ok_def a)
    next
      case False
      then show ?thesis using v by (simp add: via_ok_def a)
    qed
  qed
  ultimately show ?thesis by (simp add: node_ok_def) (simp add: upd_sess_def)
qed

lemma node_okD:
  assumes "node_ok nd"
  shows "length (sessions nd) = FLEXNET_MAX_SESSIONS" "session_count nd \<le> FLEXNET_MAX_SESSIONS"
    "act i nd \<Longrightarrow> i < session_count nd" "act i nd \<Longrightarrow> s_LINK (sessions nd ! i) \<noteq> None"
  using assms by (auto simp: node_ok_def slots_ok_def)

lemma node_ok_keep: "keep {} nd nd' \<Longrightarrow> node_ok nd \<Longrightarrow> node_ok nd'"
  by (simp add: keep_def)

lemma node_ok_relink:
  assumes "node_ok nd" "act i nd" "s_active (f (sessions nd ! i))" "s_LINK (f (sessions nd ! i)) \<noteq> None"
  shows "node_ok (upd_sess i f nd)"
  by (rule node_ok_sess [OF assms(1)]) (use assms node_okD [OF assms(1)] in \<open>auto simp: act_def\<close>)

lemma first_session:
  assumes "node_ok nd" "first_idx P (sessions nd) = Some i" "\<And>s. P s \<Longrightarrow> s_active s"
  shows "act i nd"
  using first_idx_SomeD [OF assms(2)] assms(3) node_okD(1) [OF assms(1)] by (auto simp: act_def)

lemma moved_link_ok: "node_ok nd \<Longrightarrow> act i nd \<Longrightarrow> node_ok (moved_link ev l i nd)"
proof -
  assume ok: "node_ok nd" "act i nd"
  let ?x = "set_flexlink l True (set_flexlink (the (s_LINK (sessions nd ! i))) False nd)"
  have x: "node_ok ?x" by (rule node_ok_view [OF _ ok(1)]) simp
  have sx: "sessions ?x = sessions nd" by (simp add: set_flexlink_def upd_link_def)
  let ?y = "upd_sess i (\<lambda>s. s\<lparr>s_LINK := Some l, peer_callsign := link_call nd l\<rparr>) ?x"
  have y: "node_ok ?y" by (rule node_ok_relink [OF x]) (use ok(2) sx in \<open>simp_all add: act_def\<close>)
  have "ok_view (moved_link ev l i nd) = ok_view ?y" by (simp add: moved_link_def Let_def)
  from node_ok_view [OF this y] show ?thesis .
qed

lemma adopt_ok: "node_ok nd \<Longrightarrow> node_ok (snd (flex_learned_adopt ev i call nd)) \<and>
    slot_view (snd (flex_learned_adopt ev i call nd)) = slot_view nd"
proof -
  assume ok: "node_ok nd"
  have k: "keep {} nd (upd_learned si f nd)" if "f = (\<lambda>st. st\<lparr>died_at := 0\<rparr>)" for si f
    using that by (simp add: keep_learned_flags)
  have "keep {} nd (upd_learned si (\<lambda>_. learned0) (upd_learned i (\<lambda>_. (learned nd ! si)\<lparr>died_at := 0\<rparr>) nd))"
    if "si < FLEXNET_MAX_SESSIONS" for si
  proof -
    have "keys_ok learned_key FLEXNET_MAX_LEARNED_PER_NEIGHBOUR (routes (learned nd ! si))"
      using ok learned_ok_slot [of nd si] that by (simp add: node_ok_def tables_ok_def adverts_ok_def)
    then show ?thesis by (intro keep_upd_learned keep_refl) (simp_all add: learned0_def)
  qed
  then have "keep {} nd (snd (flex_learned_adopt ev i call nd))"
    using k by (auto simp: flex_learned_adopt_def first_idx_upt split: option.split)
  then show ?thesis using ok by (simp add: keep_def)
qed

lemma keep_learned0: "keep A nd x \<Longrightarrow> keep A nd (upd_learned i (\<lambda>_. learned0) x)"
  by (erule keep_upd_learned) (simp add: learned0_def)

lemma fresh_tables_ok:
  assumes "node_ok nd" "i < FLEXNET_MAX_SESSIONS" "\<not> act i nd"
  shows "node_ok (fresh_tables ev i call nd) \<and> \<not> act i (fresh_tables ev i call nd) \<and>
    session_count (fresh_tables ev i call nd) = session_count nd"
proof -
  have u: "node_ok (upd_sess i (\<lambda>_. session0) nd)"
    by (rule node_ok_sess [OF assms(1,2)]) (use assms(3) in \<open>simp_all add: session0_def\<close>)
  let ?w = "(upd_sess i (\<lambda>_. session0) nd)\<lparr>ka_echo_at := (ka_echo_at nd)[i := 0]\<rparr>"
  let ?x = "set_advs i adv_state0 ?w"
  have kv: "ok_view ?w = ok_view (upd_sess i (\<lambda>_. session0) nd)"
    by (simp add: ok_view_def adverts_ok_def slot_view_def upd_sess_def)
  have w: "node_ok ?w" by (rule node_ok_view [OF kv u])
  have kx: "keep {} ?w ?x" by (rule keep_set_advs [OF keep_refl adv_fits0])
  have x: "node_ok ?x" "slot_view ?x = slot_view ?w" using keepD [OF kx w] by simp_all
  obtain b y where ad: "flex_learned_adopt ev i call ?x = (b, y)" by (cases "flex_learned_adopt ev i call ?x")
  have y: "node_ok y" "slot_view y = slot_view ?x" using adopt_ok [OF x(1), of ev i call] ad by auto
  let ?z = "if b then y else upd_learned i (\<lambda>_. learned0) y"
  have "keep {} y (upd_learned i (\<lambda>st. st\<lparr>l_peer_call := take 19 call, died_at := 0\<rparr>) ?z)"
    by (intro keep_learned_flags) (simp_all add: keep_learned0)
  moreover have "fresh_tables ev i call nd = upd_learned i (\<lambda>st. st\<lparr>l_peer_call := take 19 call, died_at := 0\<rparr>) ?z"
    by (simp add: fresh_tables_def Let_def ad split: bool.split)
  ultimately have f: "node_ok (fresh_tables ev i call nd)" "slot_view (fresh_tables ev i call nd) = slot_view y"
    using y(1) by (simp_all add: keep_def)
  have sv: "slot_view (fresh_tables ev i call nd) = slot_view (upd_sess i (\<lambda>_. session0) nd)"
    using f(2) y(2) x(2) kv by (simp add: ok_view_def)
  have "\<not> act i (upd_sess i (\<lambda>_. session0) nd)"
    using assms(2) node_okD(1) [OF assms(1)] by (simp add: act_def upd_sess_def session0_def)
  then have "\<not> act i (fresh_tables ev i call nd)" using act_view [OF sv node_okD(1) [OF u]] by simp
  with f(1) sv show ?thesis by (simp add: slot_view_def upd_sess_def)
qed

lemma first_free_below_count:
  assumes "node_ok nd" "first_idx (\<lambda>s. \<not> s_active s) (sessions nd) = Some i"
  shows "i < FLEXNET_MAX_SESSIONS" "\<not> act i nd" "i \<le> session_count nd"
proof -
  show i: "i < FLEXNET_MAX_SESSIONS" using first_idx_less [OF assms(2)] node_okD(1) [OF assms(1)] by simp
  show "\<not> act i nd" using first_idx_sat [OF assms(2)] by (simp add: act_def)
  show "i \<le> session_count nd"
  proof (cases i)
    case (Suc j)
    then have "s_active (sessions nd ! j)" using first_idx_before [OF assms(2), of j] by simp
    then have "act j nd" using Suc i by (simp add: act_def)
    then show ?thesis using node_okD(3) [OF assms(1)] Suc by fastforce
  qed simp
qed

lemma start_session_ok:
  assumes "node_ok nd" "i < FLEXNET_MAX_SESSIONS" "\<not> act i nd" "i \<le> session_count nd"
  shows "node_ok (start_session ev l port i nd)"
proof -
  let ?call = "link_peer ev nd l" and ?lo = "FlexNet_PeerLinkOpts ev nd (link_call nd l) port"
  let ?ft = "fresh_tables ev i ?call nd"
  let ?c = "if session_count ?ft < FLEXNET_MAX_SESSIONS then session_count ?ft + 1 else session_count ?ft"
  have ft: "node_ok ?ft" "\<not> act i ?ft" "session_count ?ft = session_count nd"
    using fresh_tables_ok [OF assms(1,2,3)] by auto
  let ?x = "?ft\<lparr>session_count := ?c\<rparr>"
  have ax: "act j ?x = act j ?ft" for j by (simp add: act_def)
  have x: "node_ok ?x"
    using ft(1) ax by (auto simp: node_ok_def slots_ok_def tables_ok_def adverts_ok_def learned_ok_def via_ok_def)
  have ic: "i < ?c" using assms(2,4) ft(3) node_okD(2) [OF assms(1)] by auto
  let ?f = "\<lambda>s. s\<lparr>s_LINK := Some l, s_port := port, s_active := True, our_link_time := 2,
                   session_start := e_now ev, peer_callsign := link_call nd l\<rparr>"
  have y: "node_ok (upd_sess i ?f ?x)"
    by (rule node_ok_sess [OF x assms(2)]) (use ic in simp_all)
  let ?n2 = "(upd_sess i ?f ?ft)\<lparr>link_opts := (link_opts (upd_sess i ?f ?ft))[i := (if ?lo < 0 then 0 else ?lo)],
                    reap_bad_since := (reap_bad_since (upd_sess i ?f ?ft))[i := 0],
                    sess_started := sess_started (upd_sess i ?f ?ft) + 1,
                    session_count := (if session_count (upd_sess i ?f ?ft) < FLEXNET_MAX_SESSIONS
                      then session_count (upd_sess i ?f ?ft) + 1 else session_count (upd_sess i ?f ?ft))\<rparr>"
  have v: "ok_view ?n2 = ok_view (upd_sess i ?f ?x)" by (simp add: ok_view_def adverts_ok_def slot_view_def upd_sess_def)
  have n2: "node_ok ?n2" by (rule node_ok_view [OF v y])
  have nb: "ok_view ((upd_sess i g w)\<lparr>nbr_entered := (nbr_entered w)[i := b]\<rparr>) = ok_view (upd_sess i g w)" for g w b
    by (simp add: ok_view_def adverts_ok_def slot_view_def upd_sess_def)
  have up: "ok_view (upd_sess i (\<lambda>s. s\<lparr>last_keepalive := t\<rparr>) w) = ok_view w" for w t
    by (rule ok_view_upd_sess) (simp add: alive_def)
  have "ok_view (start_session ev l port i nd) = ok_view ?n2"
    unfolding start_session_def Let_def nb up ok_view_keepalive ok_view_send_init ok_view_set_flexlink ok_view_note_event ..
  from node_ok_view [OF this n2] show ?thesis .
qed

lemma init_session_ok:
  assumes "node_ok nd"
  shows "node_ok (init_session ev l port nd)"
proof (cases "first_idx (\<lambda>s. s_active s \<and> s_LINK s = Some l) (sessions nd)")
  case (Some i)
  have "ok_view (same_link ev l i nd) = ok_view nd" by simp
  from node_ok_view [OF this assms] show ?thesis by (simp add: init_session_def Some)
next
  case None
  note n1 = None
  show ?thesis
  proof (cases "first_idx (link_moved nd l port) (sessions nd)")
    case (Some i)
    have "act i nd" by (rule first_session [OF assms Some]) (simp add: link_moved_def)
    then show ?thesis using moved_link_ok [OF assms] by (simp add: init_session_def n1 Some)
  next
    case None
    then show ?thesis using first_free_below_count [OF assms] start_session_ok [OF assms]
      by (simp add: init_session_def n1 assms split: option.split)
  qed
qed

lemma slots_ok_reelect: "slots_ok (flex_dest_reelect ev k nd) = slots_ok nd"
  by (simp add: flex_dest_reelect_def Let_def slots_ok_def act_def)

text \<open>Rows routed through a slot that just died are chosen again, one by one.\<close>

lemma reelect_via_ok:
  assumes "slots_ok nd" "tables_ok nd" "\<forall>d \<in> set (dests nd). via_ok nd (d_via_session_idx d) \<or> d_via_session_idx d = int i"
  shows "node_ok (flex_dest_reelect_via ev i nd)"
proof -
  define step where "step = (\<lambda>k nd. let d = dests nd ! k in
             if d_via_session_idx d = int i \<or> (d_via_session_idx d < 0 \<and> d_rtt d < FLEXNET_RTT_INFINITY)
             then flex_dest_reelect ev k nd else nd)"
  define good where "good = (\<lambda>n y. slots_ok y \<and> tables_ok y \<and> sessions y = sessions nd \<and> length (dests y) = length (dests nd) \<and>
     (\<forall>k < length (dests nd). via_ok nd (d_via_session_idx (dests y ! k)) \<or>
        n \<le> k \<and> d_via_session_idx (dests y ! k) = int i))"
  have "good n (fold step [0..<n] nd)" if "n \<le> length (dests nd)" for n
    using that
  proof (induction n)
    case 0
    then show ?case using assms by (simp add: good_def)
  next
    case (Suc n)
    let ?y = "fold step [0..<n] nd"
    have g: "good n ?y" using Suc by simp
    have n: "n < length (dests ?y)" using g Suc.prems by (simp add: good_def)
    let ?z = "flex_dest_reelect ev n ?y"
    have sz: "sessions ?z = sessions ?y" by (simp add: reelect_frame)
    have slots: "slots_ok ?z" using g by (simp add: good_def slots_ok_reelect)
    have v: "via_ok nd (d_via_session_idx (dests ?z ! n))"
      using n g by (auto simp: flex_dest_reelect_def Let_def via_ok_def act_def good_def dest: elect_active split: option.split)
    have o': "dests ?z ! k = dests ?y ! k" if "k \<noteq> n" for k by (rule reelect_not_touched [OF that])
    have re: "good (Suc n) ?z"
      using g v o' slots reelect_tables_ok [of ?y n ev] n sz
      unfolding good_def by (metis Suc_leI dests_reelect le_neq_implies_less length_list_update)
    show ?case
    proof (cases "d_via_session_idx (dests ?y ! n) = int i \<or>
        (d_via_session_idx (dests ?y ! n) < 0 \<and> d_rtt (dests ?y ! n) < FLEXNET_RTT_INFINITY)")
      case True
      then have "step n ?y = ?z" unfolding step_def Let_def by (rule if_P)
      then have "fold step [0..<Suc n] nd = ?z" by simp
      with re show ?thesis by simp
    next
      case False
      then have "step n ?y = ?y" unfolding step_def Let_def by (rule if_not_P)
      then have "fold step [0..<Suc n] nd = ?y" by simp
      moreover have "good (Suc n) ?y" using g False unfolding good_def by (metis Suc_leI le_neq_implies_less)
      ultimately show ?thesis by simp
    qed
  qed
  from this [of "length (dests nd)"] have g: "good (length (dests nd)) (flex_dest_reelect_via ev i nd)"
    by (simp add: flex_dest_reelect_via_def step_def)
  have "via_ok (flex_dest_reelect_via ev i nd) (d_via_session_idx d)" if d: "d \<in> set (dests (flex_dest_reelect_via ev i nd))" for d
  proof -
    obtain k where "k < length (dests nd)" "d = dests (flex_dest_reelect_via ev i nd) ! k"
      using d g by (auto simp: in_set_conv_nth good_def)
    then have "via_ok nd (d_via_session_idx d)" using g by (auto simp: good_def)
    then show ?thesis using g by (simp add: via_ok_def act_def good_def)
  qed
  then show ?thesis using g by (simp add: node_ok_def good_def)
qed

text \<open>A session ends: its slot is given up, and nothing stays routed through it.\<close>

lemma node_ok_end:
  assumes "node_ok nd" "i < FLEXNET_MAX_SESSIONS" "\<And>s. \<not> s_active (f s)"
  shows "node_ok (flex_dest_reelect_via ev i (upd_sess i f nd))"
proof (rule reelect_via_ok)
  let ?x = "upd_sess i f nd"
  have l: "length (sessions nd) = FLEXNET_MAX_SESSIONS" by (rule node_okD(1) [OF assms(1)])
  have a: "act j ?x = (j \<noteq> i \<and> act j nd)" for j
    using assms(2,3) l by (simp add: act_def upd_sess_def nth_list_update)
  have nth: "j \<noteq> i \<Longrightarrow> sessions ?x ! j = sessions nd ! j" for j by (simp add: upd_sess_def)
  show "slots_ok ?x" using assms(1) a nth by (auto simp: node_ok_def slots_ok_def) (simp_all add: upd_sess_def)
  show "tables_ok ?x" using assms(1) by (simp add: node_ok_def tables_ok_def adverts_ok_def learned_ok_def upd_sess_def)
  have "dests ?x = dests nd" by (simp add: upd_sess_def)
  then show "\<forall>d \<in> set (dests ?x). via_ok ?x (d_via_session_idx d) \<or> d_via_session_idx d = int i"
    using assms(1) a by (auto simp: node_ok_def via_ok_def)
qed

lemma close_ok:
  assumes "node_ok nd"
  shows "node_ok (FlexNet_CloseSession ev l nd)"
proof (cases "flex_find_session nd l")
  case None
  then show ?thesis using assms by (simp add: FlexNet_CloseSession_def)
next
  case (Some i)
  have i: "i < FLEXNET_MAX_SESSIONS"
    using first_idx_less [OF Some [unfolded flex_find_session_def]] node_okD(1) [OF assms] by simp
  let ?x = "upd_learned i (\<lambda>st. st\<lparr>died_at := e_now ev\<rparr>)
    (note_event ev (link_peer ev nd l) ''closed by L2'' (nd\<lparr>sess_closed := sess_closed nd + 1\<rparr>))"
  have "keep {} nd ?x" by (intro keep_learned_flags keep_ok_view [OF keep_refl]) simp_all
  then have "node_ok ?x" using assms by (rule node_ok_keep)
  then have "node_ok (set_flexlink l False ?x)" by (intro node_ok_view [OF ok_view_set_flexlink])
  from node_ok_end [OF this i, of "\<lambda>s. s\<lparr>s_active := False, s_LINK := None\<rparr>" ev]
  have "node_ok (flex_dest_reelect_via ev i (upd_sess i (\<lambda>s. s\<lparr>s_active := False, s_LINK := None\<rparr>) (set_flexlink l False ?x)))"
    by simp
  moreover have "upd_sess i f (set_flexlink l b y) = set_flexlink l b (upd_sess i f y)" for f b y
    by (simp add: upd_sess_def set_flexlink_def upd_link_def)
  ultimately have "node_ok (flex_dest_reelect_via ev i (set_flexlink l False (upd_sess i (\<lambda>s. s\<lparr>s_active := False, s_LINK := None\<rparr>) ?x)))"
    by simp
  then show ?thesis by (simp add: FlexNet_CloseSession_def Let_def Some node_ok_keep [OF keep_poison [OF keep_refl]])
qed

lemma adopt_session_ok:
  assumes "node_ok nd" "act i nd"
  shows "node_ok (adopt_session l i nd)"
proof -
  let ?x = "case s_LINK (sessions nd ! i) of None \<Rightarrow> nd | Some old \<Rightarrow> if old \<noteq> l then set_flexlink old False nd else nd"
  have v: "ok_view ?x = ok_view nd" by (simp split: option.split)
  have s: "sessions ?x = sessions nd" by (simp add: set_flexlink_def upd_link_def split: option.split)
  have x: "node_ok ?x" by (rule node_ok_view [OF v assms(1)])
  let ?y = "upd_sess i (\<lambda>s. s\<lparr>s_LINK := Some l, peer_callsign := link_call nd l\<rparr>) ?x"
  have y: "node_ok ?y" by (rule node_ok_relink [OF x]) (use assms(2) s in \<open>simp_all add: act_def\<close>)
  have "ok_view (adopt_session l i nd) = ok_view ?y" unfolding adopt_session_def Let_def by (simp split del: if_split)
  from node_ok_view [OF this y] show ?thesis .
qed

lemma fold_ok: "(\<And>z x. ok x \<Longrightarrow> ok (f z x)) \<Longrightarrow> ok x \<Longrightarrow> ok (fold f zs x)"
  by (induction zs arbitrary: x) simp_all

lemma try_adopt_ok:
  assumes "node_ok nd"
  shows "node_ok (snd (FlexNet_TryAdoptSession ev l port nd))"
proof -
  have "node_ok (fold (close_declared ev l port) zs nd)" for zs
    by (rule fold_ok [where ok = node_ok]) (auto simp: close_declared_def Let_def close_ok assms split: option.split)
  moreover have "node_ok (adopt_session l i nd)" if "first_idx (adopt_match ev port c) (sessions nd) = Some i" for c i
    by (rule adopt_session_ok [OF assms first_session [OF assms that]]) (simp add: adopt_match_def)
  ultimately show ?thesis using assms by (simp add: FlexNet_TryAdoptSession_def Let_def split: option.split)
qed

lemma reap_session_ok:
  assumes "node_ok nd" "i < FLEXNET_MAX_SESSIONS"
  shows "node_ok (reap_session ev i nd)"
proof -
  let ?s = "sessions nd ! i"
  let ?x = "upd_learned i (\<lambda>st. st\<lparr>died_at := e_now ev\<rparr>)
    (drop_old_link ?s (nd\<lparr>reap_bad_since := (reap_bad_since nd)[i := 0]\<rparr>))"
  have "ok_view (drop_old_link ?s (nd\<lparr>reap_bad_since := (reap_bad_since nd)[i := 0]\<rparr>)) = ok_view nd"
    by (simp add: drop_old_link_def split: option.split)
  then have "keep {} nd ?x" by (intro keep_learned_flags keep_ok_view [OF keep_refl]) simp_all
  then have x: "node_ok ?x" using assms(1) by (rule node_ok_keep)
  define g where "g = (\<lambda>y. note_event ev (if peer_callsign ?s ! 0 = 0 then '''' else flex_normalize_callsign (e_conv ev) (peer_callsign ?s) 20)
    (reap_reason nd ?s) (y\<lparr>sess_reaped := sess_reaped y + 1\<rparr>))"
  have comm: "g (upd_sess i f y) = upd_sess i f (g y)" for f y by (simp add: g_def note_event_def upd_sess_def)
  have gv: "ok_view (g y) = ok_view y" for y by (simp add: g_def)
  have gx: "node_ok (g ?x)" by (rule node_ok_view [OF gv x])
  let ?r = "flex_dest_reelect_via ev i (upd_sess i (\<lambda>s. s\<lparr>s_active := False\<rparr>) (g ?x))"
  have r: "node_ok ?r" by (rule node_ok_end [OF gx assms(2)]) simp
  have "slot_view ?r = slot_view (upd_sess i (\<lambda>s. s\<lparr>s_active := False\<rparr>) (g ?x))"
  proof -
    have "sessions (fold (\<lambda>k nd. if C k nd then flex_dest_reelect ev k nd else nd) zs y) = sessions y \<and>
        session_count (fold (\<lambda>k nd. if C k nd then flex_dest_reelect ev k nd else nd) zs y) = session_count y" for C zs y
    proof (induction zs arbitrary: y)
      case (Cons z zs)
      have "session_count (flex_dest_reelect ev z y) = session_count y" by (simp add: flex_dest_reelect_def Let_def)
      then show ?case using Cons by (simp add: reelect_frame)
    qed simp
    then show ?thesis unfolding flex_dest_reelect_via_def Let_def by (simp add: slot_view_def)
  qed
  then have "\<not> act i ?r"
    using act_view [of ?r "upd_sess i (\<lambda>s. s\<lparr>s_active := False\<rparr>) (g ?x)" i] node_okD(1) [OF gx] assms(2)
    by (simp add: act_def upd_sess_def)
  moreover have kp: "keep {} ?r (flex_advertise_poison_session ev i ?r)" by (rule keep_poison [OF keep_refl])
  ultimately have p: "node_ok (flex_advertise_poison_session ev i ?r)" "\<not> act i (flex_advertise_poison_session ev i ?r)"
    using r keepD [OF kp r] by simp_all
  have "node_ok (upd_sess i (\<lambda>_. session0) (flex_advertise_poison_session ev i ?r))"
    by (rule node_ok_sess [OF p(1) assms(2)]) (use p(2) in \<open>simp_all add: session0_def\<close>)
  moreover have "reap_session ev i nd = upd_sess i (\<lambda>_. session0) (flex_advertise_poison_session ev i
      (flex_dest_reelect_via ev i (g (upd_sess i (\<lambda>s. s\<lparr>s_active := False\<rparr>) ?x))))"
    by (simp only: reap_session_def Let_def g_def)
  ultimately show ?thesis by (simp only: comm)
qed

lemma reap_slot_ok:
  assumes "node_ok nd" "i < FLEXNET_MAX_SESSIONS"
  shows "node_ok (reap_slot ev i nd)"
proof -
  have b: "node_ok (nd\<lparr>reap_bad_since := (reap_bad_since nd)[i := v]\<rparr>)" for v
    by (rule node_ok_view [OF _ assms(1)]) simp
  have "node_ok (migrate_session ev i l y)" if y: "node_ok y" "act i y" for l y
  proof -
    let ?x = "drop_old_link (sessions y ! i) y"
    have v: "ok_view ?x = ok_view y" "sessions ?x = sessions y"
      by (simp_all add: drop_old_link_def set_flexlink_def upd_link_def split: option.split)
    have z: "node_ok (upd_sess i (\<lambda>s. s\<lparr>s_LINK := Some l\<rparr>) ?x)"
      by (rule node_ok_relink [OF node_ok_view [OF v(1) y(1)]]) (use y(2) v(2) in \<open>simp_all add: act_def\<close>)
    have "ok_view (migrate_session ev i l y) = ok_view (upd_sess i (\<lambda>s. s\<lparr>s_LINK := Some l\<rparr>) ?x)"
      by (simp add: migrate_session_def Let_def)
    from node_ok_view [OF this z] show ?thesis .
  qed
  then show ?thesis using assms b reap_session_ok [OF b assms(2)]
    by (simp add: reap_slot_def Let_def act_def split: prod.split option.split)
qed

lemma reaper_ok: "node_ok nd \<Longrightarrow> node_ok (session_reaper ev nd)"
proof -
  have "\<forall>z \<in> set zs. z < FLEXNET_MAX_SESSIONS \<Longrightarrow> node_ok nd \<Longrightarrow> node_ok (fold (reap_slot ev) zs nd)" for zs nd
    by (induction zs arbitrary: nd) (simp_all add: reap_slot_ok)
  then show "node_ok nd \<Longrightarrow> node_ok (session_reaper ev nd)" by (simp add: session_reaper_def)
qed

section \<open>The operations on the whole state\<close>

lemma init_ok:
  assumes "node_ok (lf_node s)"
  shows "node_ok (lf_node (FlexNet_Init ev s))"
proof (cases "init_done s")
  case True
  then show ?thesis using assms by (simp add: FlexNet_Init_def)
next
  case False
  let ?n0 = "(lf_node s)\<lparr>dests := [], sessions := replicate FLEXNET_MAX_SESSIONS session0, session_count := 0,
    learned := replicate FLEXNET_MAX_SESSIONS learned0, advertised := replicate FLEXNET_MAX_SESSIONS adv_state0\<rparr>"
  have na: "\<not> act i ?n0" for i by (auto simp: act_def session0_def)
  have "keys_ok learned_key FLEXNET_MAX_LEARNED_PER_NEIGHBOUR (routes learned0)" by (simp add: learned0_def)
  then have "node_ok ?n0" using assms na by (simp add: node_ok_def slots_ok_def tables_ok_def adverts_ok_def learned_ok_def)
  moreover have "ok_view (flex_port_links_resolve ev y) = ok_view y" for y by (simp add: flex_port_links_resolve_def)
  then have "ok_view (lf_node (FlexNet_Init ev s)) = ok_view ?n0"
    using False ok_view_more [OF more_local_init] ok_view_more [OF more_load] by (simp add: FlexNet_Init_def Let_def)
  ultimately show ?thesis using node_ok_view by blast
qed

lemma FlexNet_InitSession_ok: "node_ok (lf_node s) \<Longrightarrow> node_ok (lf_node (FlexNet_InitSession ev l port s))"
  by (simp add: FlexNet_InitSession_def on_node_def init_session_ok init_ok)

lemma ce_dispatch_keep: "keep {si} (lf_node s) (lf_node (ce_dispatch ev l si data s))"
proof -
  have rx: "keep {si} (lf_node s) (rx_compact (e_schar ev) ev si data (flex_note_peer_established ev si (lf_node s)))"
    by (rule keep_rx_compact [OF keep_established]) simp_all
  have req: "keep {si} (lf_node s) (lf_node (on_paths (flex_handle_path_req ev False l si data) s))"
    using keep_handle_req [OF keep_refl, of "{si}" "lf_node s" ev False l si data "lf_ps s"]
    by (simp add: on_paths_def case_prod_beta)
  have rep: "keep {si} (lf_node s) (lf_node (on_paths (flex_handle_path_rep ev l data) s))"
    using keep_handle_rep [OF keep_refl, of "{si}" "lf_node s" ev l data "lf_ps s"]
    by (simp add: on_paths_def case_prod_beta)
  show ?thesis
    by (simp add: ce_dispatch_def on_node_def keep_ce_init keep_ce_keepalive keep_ce_link_time keep_ce_status_pos keep_plain
        rx req rep split: option.split ce_frame.split)
qed

lemma find_session_act: "node_ok nd \<Longrightarrow> flex_find_session nd l = Some i \<Longrightarrow> act i nd"
  using first_idx_SomeD [of "\<lambda>s. s_LINK s = Some l \<and> s_active s" "take (session_count nd) (sessions nd)" i]
  by (auto simp: flex_find_session_def act_def node_ok_def slots_ok_def)

lemma process_ce_ok:
  assumes "node_ok (lf_node s)"
  shows "node_ok (lf_node (snd (FlexNet_ProcessCE ev l buf s)))"
proof -
  have d: "node_ok (lf_node (ce_dispatch ev l si data t))" if "node_ok (lf_node t)" "flex_find_session (lf_node t) l = Some si" for si data t
    using keepD(1) [OF ce_dispatch_keep that(1)] find_session_act [OF that] by simp
  show ?thesis using assms d FlexNet_InitSession_ok [OF assms]
    by (auto simp: FlexNet_ProcessCE_def Let_def split: option.split)
qed

lemma keep_l3rtt: "keep A nd x \<Longrightarrow> keep A nd (fst (answer_l3rtt ev l data x ps))"
  by (erule keep_trans) (simp add: answer_l3rtt_def Let_def keep_plain split: option.split)

lemma keep_probe_reply: "keep A nd x \<Longrightarrow> flex_check_probe_reply ev data x ps = Some (b, y, ps') \<Longrightarrow> keep A nd y"
proof -
  assume k: "keep A nd x" and f: "flex_check_probe_reply ev data x ps = Some (b, y, ps')"
  have "keep A nd (x\<lparr>dests := (dests x)[i := (\<lambda>d. d\<lparr>d_path_len := n, d_path_hops := store_hops hs (d_path_hops d),
      d_path_updated := t\<rparr>) (dests x ! i)]\<rparr>)" for i n hs t
    by (rule keep_row_path [OF k]) (simp_all add: dest_key_def)
  then show ?thesis using k f by (auto simp: flex_check_probe_reply_def Let_def split: option.splits if_splits)
qed

lemma process_cf_keep: "FlexNet_ProcessCF ev l buf nd ps = Some (c, nd', ps') \<Longrightarrow> keep {} nd nd'"
proof -
  assume f: "FlexNet_ProcessCF ev l buf nd ps = Some (c, nd', ps')"
  have a: "keep {} nd (fst (answer_l3rtt ev l (tl buf) y qs))" if "flex_check_probe_reply ev (tl buf) nd ps = Some (b, y, qs)" for b y qs
    by (rule keep_l3rtt [OF keep_probe_reply [OF keep_refl that]])
  show ?thesis
  proof (cases "length buf < 2 \<or> flex_find_l3rtt_tag (tl buf) = None")
    case True
    then show ?thesis using f by (auto simp: FlexNet_ProcessCF_def Let_def keep_plain split: if_splits)
  next
    case False
    then obtain b y qs where p: "flex_check_probe_reply ev (tl buf) nd ps = Some (b, y, qs)"
      using f by (auto simp: FlexNet_ProcessCF_def Let_def split: option.splits)
    have "nd' = y \<or> nd' = fst (answer_l3rtt ev l (tl buf) y qs)"
      using f False by (cases b) (auto simp: FlexNet_ProcessCF_def Let_def p)
    then show ?thesis using a [OF p] keep_probe_reply [OF keep_refl p] by auto
  qed
qed

lemma keep_link_ok:
  assumes "node_ok (lf_node s)"
  shows "node_ok (lf_node (keep_link ev i s))"
proof -
  have pl: "node_ok (lf_node (on_node (upd_port_link j f) t)) = node_ok (lf_node t)" for j f t
    using node_ok_view [of "upd_port_link j f (lf_node t)" "lf_node t"] node_ok_view [of "lf_node t" "upd_port_link j f (lf_node t)"]
    by (auto simp: on_node_def)
  have op: "node_ok (lf_node (snd (flex_port_link_open ev i l s)))" for l
  proof (cases "e_ports ev (pl_port (port_links (lf_node s) ! i))")
    case None
    then show ?thesis using assms by (simp add: flex_port_link_open_def Let_def)
  next
    case (Some v)
    then have "ok_view (lf_node (snd (flex_port_link_open ev i l s))) = ok_view (lf_node s)"
      by (simp add: flex_port_link_open_def Let_def on_node_def)
    from node_ok_view [OF this assms] show ?thesis .
  qed
  show ?thesis
  proof (cases "FindLink ev (lf_node s) (pl_axcall (port_links (lf_node s) ! i)) (e_mycall ev) (pl_port (port_links (lf_node s) ! i))")
    case (Pair found lo)
    have o': "flex_port_link_open ev i l s = (b, t) \<Longrightarrow> node_ok (lf_node t)" for l b t using op [of l] by simp
    show ?thesis
      by (cases found; cases lo) (auto simp: keep_link_def Let_def Pair pl assms FlexNet_InitSession_ok dest: o' split: prod.split bool.split)
  qed
qed

lemma timer_front_ok:
  assumes "node_ok (lf_node s)"
  shows "node_ok (lf_node (flex_link_opts_poll ev (flex_port_links_keep ev (FlexNet_Init ev s))))"
proof -
  let ?a = "FlexNet_Init ev s"
  have "node_ok (lf_node ?a)" by (rule init_ok [OF assms])
  then have "node_ok (lf_node (flex_port_links_keep ev ?a))"
    unfolding flex_port_links_keep_def
    by (auto intro!: fold_ok [where ok = "\<lambda>s. node_ok (lf_node s)"] keep_link_ok)
  moreover have "keep {} (lf_node t) (lf_node (flex_link_opts_poll ev t))" for t
    by (simp add: flex_link_opts_poll_def on_node_def keep_fold keep_poll_slot)
  ultimately show ?thesis by (rule node_ok_keep [rotated])
qed

lemma timer_sessions_ok:
  assumes "node_ok (lf_node s)"
  shows "node_ok (lf_node (timer_sessions ev s))"
proof -
  let ?a = "on_node (session_reaper ev) s"
  have "node_ok (lf_node ?a)" using assms by (simp add: on_node_def reaper_ok)
  moreover have "node_ok (lf_node (proactive_link ev l t))" if "node_ok (lf_node t)" for l t
    using that by (simp add: proactive_link_def Let_def FlexNet_InitSession_ok split: option.split)
  ultimately have b: "node_ok (lf_node (proactive_scan ev ?a))"
    unfolding proactive_scan_def by (auto intro!: fold_ok [where ok = "\<lambda>s. node_ok (lf_node s)"])
  have "keep {} (lf_node t) (lf_node (on_node (fold (session_tick ev) zs) t))" for t zs
    by (simp add: on_node_def keep_fold keep_session_tick)
  then have c: "node_ok (lf_node (on_node (fold (session_tick ev) [0..<FLEXNET_MAX_SESSIONS]) (proactive_scan ev ?a)))"
    using b by (rule node_ok_keep)
  have "keep {} (lf_node t) (lf_node (background_probe ev t))" for t
    by (simp add: background_probe_def keep_bg_probe)
  then show ?thesis unfolding timer_sessions_def by (rule node_ok_keep) (use c in simp)
qed

lemma timer_ok:
  assumes "node_ok (lf_node s)" "FlexNet_Timer ev s = Some s'"
  shows "node_ok (lf_node s')"
proof -
  let ?a = "flex_link_opts_poll ev (flex_port_links_keep ev (FlexNet_Init ev s))"
  obtain t where t: "cache_load_once ev ?a = Some t" "s' = timer_sessions ev (cache_save_due ev t)"
    using assms(2) by (auto simp: FlexNet_Timer_def)
  have "keep {} (lf_node ?a) (lf_node t)"
    using t(1) by (auto simp: cache_load_once_def keep_cache_load [OF keep_refl] split: if_splits option.splits)
  then have "node_ok (lf_node t)" using timer_front_ok [OF assms(1)] by (rule node_ok_keep)
  moreover have "lf_node (cache_save_due ev t) = lf_node t" by (simp add: cache_save_due_def split: prod.split)
  ultimately show ?thesis unfolding t(2) by (intro timer_sessions_ok) simp
qed

lemma connect_node: "lf_node (snd (snd (flexnet_connect ev dest digis s))) = lf_node s"
proof -
  have f: "lf_node (snd (FlexNet_FindRoute ev dest s)) = lf_node s"
    by (simp add: FlexNet_FindRoute_def Let_def split: option.split)
  have n: "lf_node (snd (neighbour_of_route port t)) = lf_node t" for port t
    by (simp add: neighbour_of_route_def Let_def split: option.split)
  have g: "lf_node (snd (FlexNet_GetNeighborCall ev port t)) = lf_node t" for port t
    by (simp add: FlexNet_GetNeighborCall_def Let_def n split: option.split)
  obtain port t where p: "FlexNet_FindRoute ev dest s = (port, t)" by (cases "FlexNet_FindRoute ev dest s")
  obtain nb u where q: "FlexNet_GetNeighborCall ev port t = (nb, u)" by (cases "FlexNet_GetNeighborCall ev port t")
  have "lf_node t = lf_node s" "lf_node u = lf_node t" using f p g [of port t] q by (metis snd_conv)+
  then show ?thesis by (simp add: flexnet_connect_def p q split: option.split)
qed

lemma default_ok:
  "node_ok (lf_node s) \<Longrightarrow> flexnet_default ev l pid info s = Some (fate, s') \<Longrightarrow> node_ok (lf_node s')"
  using process_ce_ok [of s ev l info] by (auto simp: flexnet_default_def ce_fate_def split: if_splits)

lemma i_frame_ok:
  assumes "node_ok (lf_node s)" "l2_i_frame ev l port pid info s = Some (fate, s')"
  shows "node_ok (lf_node s')"
proof -
  let ?t = "if \<not> FlexNetLink (links (lf_node s) ! l) \<and> FlexNet_IsPeerFlexNetMapped ev (lf_node s) (link_call (lf_node s) l) port
     then FlexNet_InitSession ev l port s else s"
  have t: "node_ok (lf_node ?t)" using assms(1) by (simp add: FlexNet_InitSession_ok)
  have "node_ok (lf_node s')" if "l2_ce_frame ev l port info s = Some (fate, s')"
    using that process_ce_ok [OF t, of ev l info] default_ok [OF t]
    unfolding l2_ce_frame_def Let_def ce_fate_def by (auto split: if_splits)
  moreover have "node_ok (lf_node s')" if "l2_cf_frame ev l info s = Some (fate, s')"
    using that default_ok [OF assms(1)] node_ok_keep [OF process_cf_keep assms(1)]
    unfolding l2_cf_frame_def by (auto split: if_splits)
  ultimately show ?thesis using assms default_ok [OF assms(1)] by (auto simp: l2_i_frame_def split: if_splits)
qed

section \<open>Frames of others, and the operator's commands\<close>

lemma keep_heal_via: "keep A nd x \<Longrightarrow> keep A nd (heal_via ev di x)"
proof (erule keep_trans)
  fix x :: node
  let ?d = "dests x ! di"
  have r: "keep A x (x\<lparr>dests := (dests x)[di := ?d\<lparr>d_via_session_idx := int h\<rparr>]\<rparr>)"
    if h: "flex_session_for_call ev x (d_via_callsign ?d) = Some h" for h
    unfolding keep_def
  proof (rule impI, erule conjE)
    assume ok: "node_ok x" "\<forall>i \<in> A. act i x"
    then have a: "act h x" using h session_for_call_active by blast
    have "keep {h} x (x\<lparr>dests := (dests x)[di := (dests x ! di)\<lparr>d_via_session_idx := int h\<rparr>]\<rparr>)"
      by (rule keep_dest_row [where f = "\<lambda>x. (dests x ! di)\<lparr>d_via_session_idx := int h\<rparr>"]) (auto simp: dest_key_def via_ok_def)
    with ok a show "node_ok (x\<lparr>dests := (dests x)[di := ?d\<lparr>d_via_session_idx := int h\<rparr>]\<rparr>) \<and>
        slot_view (x\<lparr>dests := (dests x)[di := ?d\<lparr>d_via_session_idx := int h\<rparr>]\<rparr>) = slot_view x"
      by (simp add: keep_def)
  qed
  show "keep A x (heal_via ev di x)" by (simp add: heal_via_def Let_def r split: option.split)
qed

lemma keep_pick_hop: "keep A nd (fst (snd (snd (flex_l2_pick_hop ev eo kind ax t nd st))))"
  by (simp add: flex_l2_pick_hop_def flex_l2_resolve_hop_def Let_def keep_heal_via split: option.split prod.split)

lemma o_node_send_from [simp]: "o_node (send_from ev port our m nd st) = nd"
  by (simp add: send_from_def split: prod.split)

lemma o_node_l2_forward [simp]: "o_node (l2_forward ev port m our ei nh pinned hp kind nd st) = nd"
  by (simp add: l2_forward_def leave_alone_def split: prod.split bool.split)

lemma keep_transit: "keep A nd (o_node (FlexNet_L2Transit ev port m our nd st))"
proof -
  have "keep A nd (o_node (l2_outbound ev port m our kind nd st1))" for kind st1
  proof -
    obtain ei st2 where f: "flex_l2_find (e_now ev) (entry_at m 7) (entry_at m 0) (p_num port) False st1 = (ei, st2)"
      by (cases "flex_l2_find (e_now ev) (entry_at m 7) (entry_at m 0) (p_num port) False st1")
    obtain h pinned nd1 st3 where p: "flex_l2_pick_hop ev (map_option (\<lambda>i. circuits st2 ! i) ei) kind (entry_at m 0)
        (l2_call ev (entry_at m 0)) nd st2 = (h, pinned, nd1, st3)" by (metis prod_cases4)
    have "keep A nd nd1" using keep_pick_hop [of A nd ev "map_option (\<lambda>i. circuits st2 ! i) ei" kind] p by (metis fst_conv snd_conv)
    then show ?thesis by (simp add: l2_outbound_def f p split: l2_hop.split)
  qed
  then show ?thesis
    by (simp add: FlexNet_L2Transit_def Let_def leave_alone_def split: option.split prod.split)
qed

lemma keep_l2_receive: "keep A nd (fst (snd (l2_receive al ex ev port m nd st)))"
proof -
  have "keep A nd (fst (snd (l2_digis al ev port n off m nd st)))" for n off m
    by (induction n arbitrary: off m) (simp_all add: Let_def digi_transit_def keep_transit)
  then show ?thesis by (simp add: l2_receive_def)
qed

lemma keep_cmd_probe: "keep A (lf_node s) (lf_node (snd (snd (FlexNet_CmdProbe ev tail before s))))"
proof -
  have "keep A (lf_node s) (lf_node (snd (snd (flex_cmd_probe_send ev call ssid before s))))" for call ssid
  proof (cases "flex_find_best_dest (lf_node s) call ssid")
    case None
    then show ?thesis by (simp add: flex_cmd_probe_send_def Let_def)
  next
    case (Some di)
    let ?d = "dests (lf_node s) ! di"
    let ?use = "if ssid \<ge> 0 then ssid else d_ssid_lo ?d"
    obtain r nd1 ps1 where p: "flex_send_path_req_ex ev (int di) (d_callsign ?d) ?use (lf_node s) (lf_ps s) = (r, nd1, ps1)"
      by (metis prod_cases3)
    have "keep A (lf_node s) nd1" using keep_path_req_ex [OF keep_refl, of A "lf_node s" ev "int di" "d_callsign ?d" ?use "lf_ps s"] p by simp
    then show ?thesis
      by (simp add: flex_cmd_probe_send_def Let_def Some p split: probe_result.split prod.split)
  qed
  then show ?thesis by (simp add: FlexNet_CmdProbe_def split: probe_arg.split)
qed

section \<open>The transition system\<close>

text \<open>
  One call of LinBPQ into the layer, with the environment of that moment. \<open>digi_frame\<close> is a frame to be
  digipeated, with the forwarding hook in any state of its circuits; \<open>cmd_links\<close> is FL +, which initialises
  the layer. \<open>bpq_link\<close> is LinBPQ changing an entry of its link table on its own.
\<close>

inductive flex_step :: "life \<Rightarrow> life \<Rightarrow> bool" where
  timer: "FlexNet_Timer ev s = Some s' \<Longrightarrow> flex_step s s'"
| sabm_new: "flex_step s (l2_sabm_new ev origin port s)"
| connected: "flex_step s (snd (l2_sabm_accepted ev l port s))"
| i_frame: "l2_i_frame ev l port pid info s = Some (fate, s') \<Longrightarrow> flex_step s s'"
| user_connect: "flex_step s (snd (snd (flexnet_connect ev dest digis s)))"
| digi_frame: "flex_step s (on_node (\<lambda>nd. fst (snd (l2_receive al ex ev port m nd st))) s)"
| cmd_probe: "flex_step s (snd (snd (FlexNet_CmdProbe ev tail before s)))"
| cmd_links: "flex_step s (FlexNet_Init ev s)"
| bpq_link: "flex_step s (on_node (upd_link l (\<lambda>_. b)) s)"

inductive reachable :: "life \<Rightarrow> bool" where
  start: "reachable (life0 (node0 c ls))"
| step: "reachable s \<Longrightarrow> flex_step s s' \<Longrightarrow> reachable s'"


lemma node0_ok: "node_ok (node0 c ls)"
proof -
  have "keys_ok learned_key FLEXNET_MAX_LEARNED_PER_NEIGHBOUR (routes learned0)" by (simp add: learned0_def)
  moreover have "\<not> act i (node0 c ls)" for i
    by (cases "i < FLEXNET_MAX_SESSIONS") (auto simp: act_def node0_def flex_config.defs session0_def)
  ultimately show ?thesis
    by (simp add: node_ok_def slots_ok_def tables_ok_def adverts_ok_def learned_ok_def node0_def flex_config.defs)
qed

lemma accepted_ok: "node_ok (lf_node s) \<Longrightarrow> node_ok (lf_node (snd (l2_sabm_accepted ev l port s)))"
proof -
  assume ok: "node_ok (lf_node s)"
  let ?n = "set_flexlink l True (lf_node s)"
  have "node_ok ?n" using ok by (rule node_ok_view [OF ok_view_set_flexlink])
  from try_adopt_ok [OF this, of ev l port] show ?thesis
    using ok by (auto simp: l2_sabm_accepted_def Let_def FlexNet_InitSession_ok split: prod.split)
qed

lemma sabm_ok: "node_ok (lf_node s) \<Longrightarrow> node_ok (lf_node (l2_sabm_new ev origin port s))"
  using keep_restart [OF keep_refl, of "{}" "lf_node s" ev origin port] node_ok_keep by (auto simp: l2_sabm_new_def on_node_def)

lemma bpq_link_ok: "node_ok (lf_node s) \<Longrightarrow> node_ok (lf_node (on_node (upd_link l (\<lambda>_. b)) s))"
  using node_ok_view [OF ok_view_upd_link [of l "\<lambda>_. b" "lf_node s"]] by (simp add: on_node_def)

lemma step_ok:
  assumes "flex_step s s'" "node_ok (lf_node s)"
  shows "node_ok (lf_node s')"
  using assms(1)
proof cases
  case timer
  show ?thesis by (rule timer_ok [OF assms(2) timer])
next
  case sabm_new
  then show ?thesis by (simp only: sabm_ok [OF assms(2)])
next
  case connected
  then show ?thesis by (simp only: accepted_ok [OF assms(2)])
next
  case i_frame
  show ?thesis by (rule i_frame_ok [OF assms(2) i_frame])
next
  case user_connect
  then show ?thesis by (simp only: connect_node assms(2))
next
  case digi_frame
  then show ?thesis using node_ok_keep [OF keep_l2_receive assms(2)] by (simp add: on_node_def)
next
  case cmd_probe
  then show ?thesis using node_ok_keep [OF keep_cmd_probe assms(2)] by simp
next
  case cmd_links
  then show ?thesis by (simp only: init_ok [OF assms(2)])
next
  case bpq_link
  then show ?thesis by (simp only: bpq_link_ok [OF assms(2)])
qed

lemma reachable_ok: "reachable s \<Longrightarrow> node_ok (lf_node s)"
  by (induction rule: reachable.induct) (simp_all add: life0_def node0_ok step_ok)

text \<open>C35: whatever frames arrive, links come and go and options change, in every state the layer can reach
  the destination table (2000 rows), what each neighbour taught the node (256) and what each has been told
  (256) fit their arrays, no destination and no learned route is listed twice, and every active session has
  a link and lies below the count \<open>flex_find_session\<close> searches up to.\<close>

theorem reachable_tables:
  assumes "reachable s"
  shows "slots_ok (lf_node s) \<and> tables_ok (lf_node s)"
  using reachable_ok [OF assms] by (simp add: node_ok_def)

text \<open>C36: no destination stays routed through a session that has ended: in every reachable state the next
  hop of a row is a session that is active.\<close>

theorem reachable_routes_live:
  assumes "reachable s" "d \<in> set (dests (lf_node s))" "d_via_session_idx d \<ge> 0"
  shows "d_via_session_idx d < int FLEXNET_MAX_SESSIONS \<and> s_active (sessions (lf_node s) ! nat (d_via_session_idx d))"
proof -
  have "via_ok (lf_node s) (d_via_session_idx d)" using reachable_ok [OF assms(1)] assms(2) by (simp add: node_ok_def)
  with assms(3) show ?thesis by (auto simp: via_ok_def act_def)
qed

text \<open>C40: a frame that arrives on the link of an active session is handled by a session of that link; none
  is started for it.\<close>

theorem reachable_frames_find_session:
  assumes "reachable s" "si < FLEXNET_MAX_SESSIONS" "s_active (sessions (lf_node s) ! si)"
    and "s_LINK (sessions (lf_node s) ! si) = Some l" "2 \<le> length buf"
  shows "\<exists>sj. s_LINK (sessions (lf_node s) ! sj) = Some l \<and> s_active (sessions (lf_node s) ! sj) \<and>
    FlexNet_ProcessCE ev l buf s = (True, ce_dispatch ev l sj (tl buf) s)"
proof -
  let ?nd = "lf_node s"
  have ok: "node_ok ?nd" by (rule reachable_ok [OF assms(1)])
  have "act si ?nd" using assms(2,3) by (simp add: act_def)
  then have c: "si < session_count ?nd" by (rule node_okD(3) [OF ok])
  have len: "length (sessions ?nd) = FLEXNET_MAX_SESSIONS" by (rule node_okD(1) [OF ok])
  have "flex_find_session ?nd l \<noteq> None"
  proof
    assume "flex_find_session ?nd l = None"
    then have n: "\<forall>x \<in> set (take (session_count ?nd) (sessions ?nd)). \<not> (s_LINK x = Some l \<and> s_active x)"
      by (simp add: flex_find_session_def first_idx_None_iff)
    have "sessions ?nd ! si \<in> set (take (session_count ?nd) (sessions ?nd))"
      using c assms(2) len by (auto simp: in_set_conv_nth intro!: exI [of _ si])
    with n assms(3,4) show False by blast
  qed
  then obtain sj where sj: "flex_find_session ?nd l = Some sj" by blast
  then have "s_LINK (sessions ?nd ! sj) = Some l" "s_active (sessions ?nd ! sj)"
    using first_idx_SomeD [OF sj [unfolded flex_find_session_def]] by auto
  then show ?thesis using sj assms(5) by (auto simp: FlexNet_ProcessCE_def Let_def)
qed

section \<open>The hypotheses can hold\<close>

text \<open>A node whose only neighbour is accepted on link 0.\<close>

definition life_env :: env where
  "life_env = demo_env\<lparr>e_axip := [(1, [\<lparr>arp_call = [1,0,0,0,0,0,0], arp_flex = True, arp_opts = 0\<rparr>])]\<rparr>"

definition life_start :: life where
  "life_start = life0 (node0 (default_config\<lparr>transit_enabled := True\<rparr>) [demo_link 1, demo_link 2])"

definition life_up :: life where
  "life_up = snd (l2_sabm_accepted life_env 0 1 life_start)"

lemma reachable_up: "reachable life_up"
  unfolding life_up_def by (rule reachable.step [OF _ connected]) (simp add: life_start_def reachable.start)

lemma life_up_session: "s_active (sessions (lf_node life_up) ! 0)" "s_LINK (sessions (lf_node life_up) ! 0) = Some 0"
  by code_simp+

lemma reachable_tables_witness: "slots_ok (lf_node life_up) \<and> tables_ok (lf_node life_up)"
  by (rule reachable_tables [OF reachable_up])

lemma life_find: "flex_find_session (lf_node life_up) 0 = Some 0"
  by code_simp

lemma reachable_frames_find_session_witness:
  "\<exists>sj. s_LINK (sessions (lf_node life_up) ! sj) = Some 0 \<and> s_active (sessions (lf_node life_up) ! sj) \<and>
    FlexNet_ProcessCE life_env 0 ''30'' life_up = (True, ce_dispatch life_env 0 sj ''0'' life_up)"
  using reachable_frames_find_session [OF reachable_up _ life_up_session, of "''30''" life_env]
  by (simp add: FLEXNET_MAX_SESSIONS_def)

text \<open>The same node after the INIT of its neighbour, with the neighbour's own row.\<close>

definition life_init :: life where
  "life_init = (case l2_i_frame life_env 0 1 0xCE (CHR 0xCE # the (flex_build_init 10 5)) life_up of Some r \<Rightarrow> snd r)"

lemma life_init_returns: "l2_i_frame life_env 0 1 0xCE (CHR 0xCE # the (flex_build_init 10 5)) life_up \<noteq> None"
  by code_simp

lemma reachable_init: "reachable life_init"
proof -
  obtain fate t where t: "l2_i_frame life_env 0 1 0xCE (CHR 0xCE # the (flex_build_init 10 5)) life_up = Some (fate, t)"
    using life_init_returns by fastforce
  then have "reachable t" by (rule reachable.step [OF reachable_up i_frame])
  then show ?thesis using t by (simp add: life_init_def)
qed

lemma life_init_row: "map d_via_session_idx (dests (lf_node life_init)) = [0]"
  by code_simp

lemma reachable_routes_live_witness:
  "\<exists>d. dests (lf_node life_init) = [d] \<and> d_via_session_idx d = 0 \<and>
    0 < int FLEXNET_MAX_SESSIONS \<and> s_active (sessions (lf_node life_init) ! 0)"
proof -
  obtain d where d: "dests (lf_node life_init) = [d]" "d_via_session_idx d = 0"
    using life_init_row by (auto simp: map_eq_Cons_conv)
  show ?thesis using d reachable_routes_live [OF reachable_init, of d] by simp
qed

end
