(* ===== verification/Flex_Life_Props.thy ===== *)
theory Flex_Life_Props
  imports Flex_Life
begin

text \<open>
  More about the life of sessions: what one pass of the reaper does to all of them, connects along the
  elected routes, what a frame without payload costs.
\<close>

section \<open>The reaper\<close>

text \<open>What one pass of the reaper makes of session \<open>i\<close>, judged by the state before the pass.\<close>

definition reaped :: "env \<Rightarrow> node \<Rightarrow> nat \<Rightarrow> session" where
  "reaped ev nd i =
     (let s = sessions nd ! i; v = fst (flex_reap_decide (session_link nd s) (reap_bad_since nd ! i) (e_now ev)) in
      if \<not> s_active s \<or> v = REAP_KEEP then s
      else case migration_target ev nd s of
             Some l \<Rightarrow> s\<lparr>s_LINK := Some l\<rparr>
           | None \<Rightarrow> if v = REAP_WAIT then s else session0)"

text \<open>What the reaper reads, and no other session's turn changes.\<close>

definition reap_links :: "node \<Rightarrow> bpq_link list" where
  "reap_links nd = map (\<lambda>b. b\<lparr>FlexNetLink := False\<rparr>) (links nd)"

definition reap_view :: "node \<Rightarrow> session list \<times> int list \<times> bpq_link list" where
  "reap_view nd = (map sess_core (sessions nd), reap_bad_since nd, reap_links nd)"

lemma reap_view_adv_frame: "adv_frame nd nd' \<Longrightarrow> reap_view nd' = reap_view nd"
  by (simp add: adv_frame_def reap_view_def reap_links_def slot_aux_def)

lemma reap_view_fold: "(\<And>z x. reap_view (f z x) = reap_view x) \<Longrightarrow> reap_view (fold f zs nd) = reap_view nd"
  by (induction zs arbitrary: nd) simp_all

lemma reap_view_simps [simp]:
  "reap_view (upd_learned i f nd) = reap_view nd" "reap_view (note_event ev p w nd) = reap_view nd"
  "reap_view (set_advs i st nd) = reap_view nd" "reap_view (nd\<lparr>sess_reaped := n\<rparr>) = reap_view nd"
  "reap_view (nd\<lparr>sess_migrated := n\<rparr>) = reap_view nd" "reap_view (nd\<lparr>dests := ds\<rparr>) = reap_view nd"
  by (simp_all add: reap_view_def reap_links_def upd_learned_def note_event_def set_advs_def)

lemma reap_view_set_flexlink [simp]: "reap_view (set_flexlink l b nd) = reap_view nd"
proof -
  have "map f (xs[l := y]) = map f xs" if "l < length xs \<Longrightarrow> f y = f (xs ! l)" for f :: "bpq_link \<Rightarrow> bpq_link" and xs y
    using that by (cases "l < length xs") (auto simp: map_update list_update_same_conv list_update_beyond)
  then show ?thesis by (simp add: reap_view_def reap_links_def set_flexlink_def upd_link_def)
qed

lemma reap_view_drop [simp]: "reap_view (drop_old_link s nd) = reap_view nd"
  by (simp add: drop_old_link_def split: option.split)

lemma reap_view_reelect_via [simp]: "reap_view (flex_dest_reelect_via ev i nd) = reap_view nd"
proof -
  have "reap_view (flex_dest_reelect ev z x) = reap_view x" for z x by (subst reelect_row) simp
  then show ?thesis unfolding flex_dest_reelect_via_def Let_def by (intro reap_view_fold) simp
qed

lemma reap_view_poison [simp]: "reap_view (flex_advertise_poison_session ev i nd) = reap_view nd"
proof -
  have "reap_view (check_others ev i lr y) = reap_view y" for lr y
    unfolding check_others_def by (rule reap_view_fold) (simp add: reap_view_adv_frame [OF adv_frame_check])
  then have "reap_view (drain_all ev (fold (check_others ev i) zs nd)) = reap_view nd" for zs
    unfolding drain_all_def
    by (subst reap_view_fold) (simp_all add: reap_view_fold reap_view_adv_frame [OF adv_frame_drain])
  then show ?thesis by (simp add: flex_advertise_poison_session_def Let_def)
qed

lemma reap_view_sess: "reap_view (upd_sess i f nd) =
  ((fst (reap_view nd))[i := sess_core (f (sessions nd ! i))], snd (reap_view nd))"
  by (simp add: reap_view_def upd_sess_def map_update reap_links_def)

lemma reap_view_bad: "reap_view (nd\<lparr>reap_bad_since := bs\<rparr>) = (fst (reap_view nd), bs, snd (snd (reap_view nd)))"
  by (simp add: reap_view_def reap_links_def)

lemma reap_bad_view: "reap_bad_since nd = fst (snd (reap_view nd))"
  by (simp add: reap_view_def)

lemma sessions_drop_old_link [simp]: "sessions (drop_old_link s nd) = sessions nd"
  by (simp add: drop_old_link_def set_flexlink_def upd_link_def split: option.split)

lemma migrate_view:
  "reap_view (migrate_session ev i l nd) =
    ((fst (reap_view nd))[i := sess_core ((sessions nd ! i)\<lparr>s_LINK := Some l\<rparr>)], (reap_bad_since nd)[i := 0], snd (snd (reap_view nd)))"
proof -
  let ?x = "set_flexlink l True (upd_sess i (\<lambda>s. s\<lparr>s_LINK := Some l\<rparr>) (drop_old_link (sessions nd ! i) nd))"
  have x: "reap_view ?x = ((fst (reap_view nd))[i := sess_core ((sessions nd ! i)\<lparr>s_LINK := Some l\<rparr>)], snd (reap_view nd))"
    by (simp add: reap_view_sess)
  then have "reap_bad_since ?x = reap_bad_since nd" by (simp add: reap_bad_view)
  with x show ?thesis by (simp add: migrate_session_def Let_def reap_view_bad)
qed

lemma reap_session_view:
  "reap_view (reap_session ev i nd) =
    ((fst (reap_view nd))[i := sess_core session0], (reap_bad_since nd)[i := 0], snd (snd (reap_view nd)))"
proof -
  let ?b = "nd\<lparr>reap_bad_since := (reap_bad_since nd)[i := 0]\<rparr>"
  show ?thesis
    by (simp add: reap_session_def Let_def reap_view_sess reap_view_bad)
qed

text \<open>Equal views give the reaper equal reasons.\<close>

lemma core_fields:
  "sess_core s = sess_core t \<Longrightarrow> s_active s = s_active t \<and> s_LINK s = s_LINK t \<and> s_port s = s_port t \<and>
    peer_callsign s = peer_callsign t \<and> sess_core (s\<lparr>s_LINK := L\<rparr>) = sess_core (t\<lparr>s_LINK := L\<rparr>)"
  by (cases s; cases t) (simp add: sess_core_def)

lemma reap_links_nth:
  assumes "reap_links nd = reap_links nd'"
  shows "length (links nd) = length (links nd')" "view_of (links nd ! l) = view_of (links nd' ! l)"
    "link_call nd l = link_call nd' l" "LINKPORT (links nd ! l) = LINKPORT (links nd' ! l)"
proof -
  have beyond: "xs ! n = [] ! (n - length xs)" if "length xs \<le> n" for xs :: "bpq_link list" and n
    using that by (induction xs arbitrary: n) (auto simp: nth_Cons split: nat.split)
  show len: "length (links nd) = length (links nd')"
    using arg_cong [OF assms, of length] by (simp add: reap_links_def)
  have "(links nd ! l)\<lparr>FlexNetLink := False\<rparr> = (links nd' ! l)\<lparr>FlexNetLink := False\<rparr>"
  proof (cases "l < length (links nd)")
    case True
    then show ?thesis using arg_cong [OF assms, of "\<lambda>x. x ! l"] len by (simp add: reap_links_def)
  next
    case False
    then show ?thesis using beyond [of "links nd" l] beyond [of "links nd'" l] len by simp
  qed
  then show "view_of (links nd ! l) = view_of (links nd' ! l)"
    "link_call nd l = link_call nd' l" "LINKPORT (links nd ! l) = LINKPORT (links nd' ! l)"
    by (cases "links nd ! l"; cases "links nd' ! l"; simp add: view_of_def link_call_def)+
qed

lemma reaped_cong:
  assumes "reap_links nd = reap_links nd'" "sess_core (sessions nd ! i) = sess_core (sessions nd' ! i)"
    and "reap_bad_since nd ! i = reap_bad_since nd' ! i"
  shows "sess_core (reaped ev nd i) = sess_core (reaped ev nd' i)"
proof -
  note f = core_fields [OF assms(2)] and l = reap_links_nth [OF assms(1)]
  have "session_link nd (sessions nd ! i) = session_link nd' (sessions nd' ! i)"
    using f l(2) by (simp add: session_link_def)
  moreover have "migration_target ev nd (sessions nd ! i) = migration_target ev nd' (sessions nd' ! i)"
    using f l by (simp add: migration_target_def migrates_to_def link_up_def cong: first_idx_cong)
  ultimately show ?thesis using f assms(2,3) by (simp add: reaped_def Let_def split: option.split)
qed

lemma reap_slot_view:
  assumes "i < length (sessions nd)"
  shows "\<exists>b. reap_view (reap_slot ev i nd) =
    ((map sess_core (sessions nd))[i := sess_core (reaped ev nd i)], (reap_bad_since nd)[i := b], reap_links nd)"
proof -
  obtain v bad where d: "flex_reap_decide (session_link nd (sessions nd ! i)) (reap_bad_since nd ! i) (e_now ev) = (v, bad)"
    by fastforce
  let ?s = "sessions nd ! i" and ?n = "nd\<lparr>reap_bad_since := (reap_bad_since nd)[i := bad]\<rparr>"
  have same: "(map sess_core (sessions nd))[i := sess_core ?s] = map sess_core (sessions nd)"
    using assms by (simp add: list_update_same_conv)
  have m: "migration_target ev ?n ?s = migration_target ev nd ?s"
    by (simp add: migration_target_def migrates_to_def link_up_def link_call_def Let_def cong: first_idx_cong)
  have n: "reap_view ?n = (map sess_core (sessions nd), (reap_bad_since nd)[i := bad], reap_links nd)"
    by (simp add: reap_view_bad) (simp add: reap_view_def)
  show ?thesis
  proof (cases "s_active ?s \<and> v \<noteq> REAP_KEEP")
    case False
    then show ?thesis
      using d same by (cases "s_active ?s")
        (auto simp: reap_slot_def reaped_def Let_def reap_view_def reap_links_def intro: exI [of _ bad] exI [of _ "reap_bad_since nd ! i"])
  next
    case True
    then show ?thesis
      using d m n same
      by (cases "migration_target ev nd ?s"; cases "v = REAP_WAIT")
        (auto simp: reap_slot_def reaped_def Let_def migrate_view reap_session_view intro: exI [of _ bad] exI [of _ 0])
  qed
qed

text \<open>C34: one pass of the reaper treats every session by the state before the pass, whatever happens to the others
  in the same pass: an inactive or healthy session is left alone, one whose link is gone moves to
  another link of the same neighbour on the same port, and without one its slot is cleared, at once when it
  has no link at all and after the grace period otherwise.\<close>

theorem reaper_judges_each_alone:
  assumes "length (sessions nd) = FLEXNET_MAX_SESSIONS"
  shows "map sess_core (sessions (session_reaper ev nd)) = map (\<lambda>i. sess_core (reaped ev nd i)) [0..<FLEXNET_MAX_SESSIONS]"
proof -
  have "\<forall>n \<le> length (sessions nd). let x = fold (reap_slot ev) [0..<n] nd in
      map sess_core (sessions x) = map (\<lambda>i. sess_core (reaped ev nd i)) [0..<n] @ drop n (map sess_core (sessions nd)) \<and>
      reap_links x = reap_links nd \<and> (\<forall>i \<ge> n. reap_bad_since x ! i = reap_bad_since nd ! i)"
  proof (intro allI impI)
    fix n assume "n \<le> length (sessions nd)"
    then show "let x = fold (reap_slot ev) [0..<n] nd in
      map sess_core (sessions x) = map (\<lambda>i. sess_core (reaped ev nd i)) [0..<n] @ drop n (map sess_core (sessions nd)) \<and>
      reap_links x = reap_links nd \<and> (\<forall>i \<ge> n. reap_bad_since x ! i = reap_bad_since nd ! i)"
    proof (induction n)
      case 0
      then show ?case by simp
    next
      case (Suc n)
      define x where "x = fold (reap_slot ev) [0..<n] nd"
      have IH: "map sess_core (sessions x) = map (\<lambda>i. sess_core (reaped ev nd i)) [0..<n] @ drop n (map sess_core (sessions nd))"
        "reap_links x = reap_links nd" "\<And>i. n \<le> i \<Longrightarrow> reap_bad_since x ! i = reap_bad_since nd ! i"
        using Suc by (simp_all add: x_def Let_def)
      have len: "length (sessions x) = length (sessions nd)"
        using arg_cong [OF IH(1), of length] Suc.prems by simp
      have n: "sess_core (sessions x ! n) = sess_core (sessions nd ! n)"
        using arg_cong [OF IH(1), of "\<lambda>xs. xs ! n"] Suc.prems len by (simp add: nth_append)
      obtain b where b: "reap_view (reap_slot ev n x) =
          ((map sess_core (sessions x))[n := sess_core (reaped ev x n)], (reap_bad_since x)[n := b], reap_links x)"
        using reap_slot_view [of n x ev] Suc.prems len by auto
      have r: "sess_core (reaped ev x n) = sess_core (reaped ev nd n)"
        by (rule reaped_cong [OF IH(2) n IH(3)]) simp
      have "drop n (map sess_core (sessions nd)) = sess_core (sessions nd ! n) # drop (Suc n) (map sess_core (sessions nd))"
        using Suc.prems by (simp add: Cons_nth_drop_Suc [symmetric])
      then have "(map sess_core (sessions x))[n := sess_core (reaped ev nd n)] =
          map (\<lambda>i. sess_core (reaped ev nd i)) [0..<Suc n] @ drop (Suc n) (map sess_core (sessions nd))"
        by (simp add: IH(1) list_update_append)
      then show ?case using b IH r by (auto simp: x_def [symmetric] Let_def reap_view_def)
    qed
  qed
  from this [rule_format, OF order_refl] show ?thesis
    by (simp add: session_reaper_def assms Let_def)
qed

text \<open>The first neighbour's link fails after the second has been silent for the grace period.\<close>

definition reap_node :: node where
  "reap_node = demo_node\<lparr>links := [demo_link 1\<lparr>L2STATE := 2\<rparr>, demo_link 2\<lparr>L2STATE := 2\<rparr>],
     reap_bad_since := [999, 900] @ replicate 6 0\<rparr>"

theorem reaper_judges_each_alone_witness:
  "map sess_core (sessions (session_reaper demo_env reap_node)) =
     map (\<lambda>i. sess_core (reaped demo_env reap_node i)) [0..<FLEXNET_MAX_SESSIONS] \<and>
   s_active (reaped demo_env reap_node 0) \<and> \<not> s_active (reaped demo_env reap_node 1)"
proof (intro conjI)
  show "map sess_core (sessions (session_reaper demo_env reap_node)) =
     map (\<lambda>i. sess_core (reaped demo_env reap_node i)) [0..<FLEXNET_MAX_SESSIONS]"
    by (rule reaper_judges_each_alone) code_simp
qed code_simp+

section \<open>The buffer of a CE frame\<close>

text \<open>
  On a FlexNet link a CE frame with a payload, of a link with a session, is handled and its buffer is
  released; one without payload is neither handled nor released.
\<close>

lemma ce_frame_fate:
  assumes "FlexNetLink (links (lf_node s) ! l)" "flex_find_session (lf_node s) l = Some si"
  shows "l2_i_frame ev l port 0xCE info s =
    Some (if length info < 2 then (L2Lost, s) else (L2Released, ce_dispatch ev l si (tl info) s))"
  using assms by (simp add: l2_i_frame_def l2_ce_frame_def Let_def ce_fate_def FlexNet_ProcessCE_def)

end
