(* ===== verification/Flex_Transit.thy ===== *)
theory Flex_Transit
  imports Flex_CF_Props Flex_Life_Props
begin

text \<open>
  Layer 3 frames in transit over the reachable states: when one is passed on, how and to whom; and the state,
  reached when BPQ uses a link slot again, in which one goes back on the link it came from.
\<close>

section \<open>Frames in transit\<close>

definition l3_destination :: "string \<Rightarrow> byte list" where
  "l3_destination data = take 7 (drop 7 (to_bytes data))"

definition time_to_live :: "string \<Rightarrow> nat" where
  "time_to_live data = of_char (data ! 14)"

text \<open>The session a frame of link \<open>l\<close> is taken to have come over: the first of that link.\<close>

definition arrival_session :: "node \<Rightarrow> nat \<Rightarrow> int" where
  "arrival_session nd l =
     (case first_idx (\<lambda>s. s_active s \<and> s_LINK s = Some l) (sessions nd) of None \<Rightarrow> -1 | Some i \<Rightarrow> int i)"

definition shared_link :: "node \<Rightarrow> nat \<Rightarrow> bool" where
  "shared_link nd l \<longleftrightarrow> (\<exists>i j. i < j \<and> j < length (sessions nd) \<and> s_active (sessions nd ! i) \<and>
     s_active (sessions nd ! j) \<and> s_LINK (sessions nd ! i) = Some l \<and> s_LINK (sessions nd ! j) = Some l)"

text \<open>A row that leads a frame of link \<open>l\<close> to its destination, over another session.\<close>

definition transit_row :: "env \<Rightarrow> nat \<Rightarrow> string \<Rightarrow> node \<Rightarrow> dest_entry \<Rightarrow> bool" where
  "transit_row ev l data nd d \<longleftrightarrow> d \<in> set (dests nd) \<and>
     cf_row_matches (trim_sp (e_conv ev (l3_destination data))) (arrival_session nd l) d"

definition in_transit :: "env \<Rightarrow> nat \<Rightarrow> string \<Rightarrow> node \<Rightarrow> bool" where
  "in_transit ev l data nd \<longleftrightarrow> transit_enabled nd \<and> 20 \<le> length data \<and>
     take 6 (l3_destination data) \<noteq> take 6 (e_mycall ev) \<and> (\<exists>d. transit_row ev l data nd d)"

definition cf_passed_on :: "env \<Rightarrow> nat \<Rightarrow> string \<Rightarrow> node \<Rightarrow> node \<Rightarrow> bool" where
  "cf_passed_on ev l data nd nd' \<longleftrightarrow> (\<exists>d v lo. transit_row ev l data nd d \<and> d_via_session_idx d = int v \<and>
     v < FLEXNET_MAX_SESSIONS \<and> s_active (sessions nd ! v) \<and> s_LINK (sessions nd ! v) = Some lo \<and>
     (lo = l \<longrightarrow> shared_link nd l) \<and>
     nd' = flex_send_frame ev lo FLEXNET_PID_CF (data[14 := char_of (time_to_live data - 1)]) nd)"

lemma cf_route_row:
  "cf_route ev l data nd =
    (if \<not> transit_enabled nd \<or> length data < 20 \<or> take 6 (l3_destination data) = take 6 (e_mycall ev) then -1
     else case first_idx (cf_row_matches (trim_sp (e_conv ev (l3_destination data))) (arrival_session nd l)) (dests nd) of
       None \<Rightarrow> -1 | Some i \<Rightarrow> d_via_session_idx (dests nd ! i))"
  by (simp only: cf_route_def Let_def l3_destination_def arrival_session_def)

lemma not_in_transit: "\<not> in_transit ev l data nd \<Longrightarrow> cf_route ev l data nd = -1"
  by (auto simp: cf_route_row in_transit_def transit_row_def first_idx_None_iff split: option.split
      dest!: first_idx_SomeD)

lemma in_transit_row:
  assumes "in_transit ev l data nd"
  obtains d where "transit_row ev l data nd d" "cf_route ev l data nd = d_via_session_idx d"
    "0 \<le> d_via_session_idx d" "d_via_session_idx d \<noteq> arrival_session nd l"
proof -
  let ?f = "first_idx (cf_row_matches (trim_sp (e_conv ev (l3_destination data))) (arrival_session nd l)) (dests nd)"
  have "?f \<noteq> None" using assms by (auto simp: in_transit_def transit_row_def first_idx_None_iff)
  then obtain i where i: "?f = Some i" by blast
  have m: "i < length (dests nd)"
    "cf_row_matches (trim_sp (e_conv ev (l3_destination data))) (arrival_session nd l) (dests nd ! i)"
    using first_idx_SomeD [OF i] by simp_all
  have "cf_route ev l data nd = d_via_session_idx (dests nd ! i)"
    unfolding cf_route_row using assms i by (simp add: in_transit_def)
  with m show thesis by (intro that [of "dests nd ! i"]) (auto simp: transit_row_def cf_row_matches_def)
qed

lemma other_session_link:
  assumes "v < length (sessions nd)" "s_active (sessions nd ! v)" "s_LINK (sessions nd ! v) = Some l"
    and "int v \<noteq> arrival_session nd l"
  shows "shared_link nd l"
proof -
  let ?P = "\<lambda>s. s_active s \<and> s_LINK s = Some l"
  have "first_idx ?P (sessions nd) \<noteq> None" using assms(1-3) nth_mem by (auto simp: first_idx_None_iff)
  then obtain i where i: "first_idx ?P (sessions nd) = Some i" by blast
  have "i \<noteq> v" using assms(4) i by (auto simp: arrival_session_def)
  moreover have "\<not> v < i" using first_idx_before [OF i] assms(2,3) by blast
  ultimately have "i < v" by simp
  then show ?thesis using first_idx_SomeD [OF i] assms(1-3) unfolding shared_link_def by blast
qed


section \<open>Two neighbours\<close>

text \<open>A node with a session to each of two neighbours; the first to connect, on link 1, has sent its INIT.\<close>

definition two_env :: env where
  "two_env = demo_env\<lparr>e_conv := (\<lambda>ax. if hd ax = 1 then ''DB0AAA'' else if hd ax = 2 then ''DB0BBB'' else ''IR2UFV''),
     e_axip := [(1, [\<lparr>arp_call = [1,0,0,0,0,0,0], arp_flex = True, arp_opts = 0\<rparr>,
                     \<lparr>arp_call = [2,0,0,0,0,0,0], arp_flex = True, arp_opts = 0\<rparr>])]\<rparr>"

definition one_init :: life where
  "one_init = (case l2_i_frame two_env 1 1 0xCE (CHR 0xCE # the (flex_build_init 10 5))
     (snd (l2_sabm_accepted two_env 1 1 life_start)) of Some r \<Rightarrow> snd r)"

definition two_up :: life where
  "two_up = snd (l2_sabm_accepted two_env 0 1 one_init)"

lemma reachable_two_up: "reachable two_up"
proof -
  let ?s = "snd (l2_sabm_accepted two_env 1 1 life_start)"
  have "l2_i_frame two_env 1 1 0xCE (CHR 0xCE # the (flex_build_init 10 5)) ?s \<noteq> None" by code_simp
  then obtain fate t where t: "l2_i_frame two_env 1 1 0xCE (CHR 0xCE # the (flex_build_init 10 5)) ?s = Some (fate, t)"
    by fastforce
  have "reachable ?s" unfolding life_start_def by (rule reachable.step [OF reachable.start connected])
  then have "reachable t" by (rule reachable.step [OF _ i_frame [OF t]])
  then have "reachable one_init" using t by (simp add: one_init_def)
  then show ?thesis unfolding two_up_def by (rule reachable.step [OF _ connected])
qed

text \<open>A frame to the neighbour on link 1 that arrives on link 0.\<close>

definition l3_frame :: string where
  "l3_frame = CHR 0xCF # replicate 7 (CHR 0x03) @ CHR 0x02 # replicate 6 (CHR 0x00) @ CHR 0x07 # ''CIRCUIT''"

definition l3_frame_sent :: "nat \<Rightarrow> node \<Rightarrow> node" where
  "l3_frame_sent lo nd = flex_send_frame two_env lo FLEXNET_PID_CF ((tl l3_frame)[14 := CHR 0x06]) nd"

lemma l3_frame_forwarded:
  assumes "cf_route two_env 0 (tl l3_frame) nd = int v" "s_active (sessions nd ! v)" "s_LINK (sessions nd ! v) = Some lo"
  shows "FlexNet_ProcessCF two_env 0 l3_frame nd path_state0 = Some (True, l3_frame_sent lo nd, path_state0)"
proof -
  have "flex_find_l3rtt_tag (tl l3_frame) = None" by code_simp
  moreover have "(of_char (tl l3_frame ! 14) :: nat) = 7" "length l3_frame = 23"
    "(char_of (6 :: nat) :: char) = CHR 0x06" by code_simp+
  ultimately show ?thesis using assms by (simp add: FlexNet_ProcessCF_def Let_def l3_frame_sent_def)
qed

lemma two_up_route:
  "cf_route two_env 0 (tl l3_frame) (lf_node two_up) = int 0" "s_active (sessions (lf_node two_up) ! 0)"
  "s_LINK (sessions (lf_node two_up) ! 0) = Some 1"
  by code_simp+


text \<open>
  Sessions come to share a link when BPQ uses a link slot again: \<open>FlexNet_TryAdoptSession\<close> gives the
  slot to the session of the neighbour that connects, while the session of the neighbour that had it before
  still refers to it. The split horizon compares sessions, so a frame of the second neighbour, taken to come
  over the first session, goes back on its link when its row leads over the second.
\<close>

definition two_shared :: life where
  "two_shared = snd (l2_sabm_accepted two_env 0 1 (on_node (upd_link 0 (\<lambda>_. demo_link 2))
     (snd (l2_sabm_accepted two_env 1 1 (snd (l2_sabm_accepted two_env 0 1 life_start))))))"

lemma two_shared_sessions:
  "s_active (sessions (lf_node two_shared) ! 0)" "s_active (sessions (lf_node two_shared) ! 1)"
  "s_LINK (sessions (lf_node two_shared) ! 0) = Some 0" "s_LINK (sessions (lf_node two_shared) ! 1) = Some 0"
  "1 < length (sessions (lf_node two_shared))"
  by code_simp+

lemma reachable_shared_link: "reachable two_shared \<and> shared_link (lf_node two_shared) 0"
proof
  show "reachable two_shared" unfolding two_shared_def life_start_def
    by (intro reachable.step [OF _ connected] reachable.step [OF _ bpq_link] reachable.start)
  show "shared_link (lf_node two_shared) 0"
    unfolding shared_link_def using two_shared_sessions by (intro exI [of _ 0] exI [of _ 1]) simp
qed

lemma frame_returned:
  fixes nd
  defines "nd \<equiv> (lf_node two_shared)\<lparr>dests := [dest_entry0\<lparr>d_callsign := ''DB0BBB'', d_ssid_hi := 15, d_rtt := 5,
    d_via_session_idx := 1\<rparr>]\<rparr>"
  shows "FlexNet_ProcessCF two_env 0 l3_frame nd path_state0 = Some (True, l3_frame_sent 0 nd, path_state0)"
proof (rule l3_frame_forwarded)
  show "cf_route two_env 0 (tl l3_frame) nd = int 1" unfolding nd_def by code_simp
qed (use two_shared_sessions in \<open>simp_all add: nd_def\<close>)

end
