(* ===== verification/Flex_Path_Props.thy ===== *)
theory Flex_Path_Props
  imports Flex_Path Flex_Dest_Props
begin

text \<open>
  Path queries: what a request passed on looks like to the node it reaches, what becomes of the answer,
  the path cache through a restart, the answer to one's own request.
\<close>

section \<open>Calls in a frame\<close>

lemma path_calls_parts: "\<forall>h \<in> set (path_calls n s). call_ok h"
proof (induction n s rule: path_calls.induct)
  case (1 s)
  then show ?case by simp
next
  case (2 n s)
  define s' where "s' = dropWhile (\<lambda>c. c = SP) s"
  define c where "c = take 9 (takeWhile (\<lambda>c. c \<noteq> SP \<and> c \<noteq> CR \<and> c \<noteq> CHR 0x00) s')"
  have c: "\<forall>x \<in> set c. x \<noteq> SP \<and> x \<noteq> CR \<and> x \<noteq> CHR 0x00" "length c \<le> 9"
    by (auto simp: c_def dest!: in_set_takeD set_takeWhileD)
  have "path_calls (Suc n) s = (if c = [] then [] else c # path_calls n (drop (length c) s'))"
    by (simp add: c_def s'_def Let_def)
  moreover have "\<forall>h \<in> set (path_calls n (drop (length c) s')). call_ok h" if "c \<noteq> []"
    using 2 [OF s'_def c_def that] .
  ultimately show ?case using c by (simp add: call_ok_def)
qed

lemma parsed_calls_ok:
  assumes "flex_parse_path_frame data = Some f" "pf_hops f \<noteq> []"
  shows "call_ok (pf_origin f)" "\<forall>h \<in> set (pf_hops f). call_ok h" "7 \<le> length data" "length (pf_hops f) \<le> 16"
proof -
  let ?calls = "path_calls 17 (drop 7 data)"
  have l: "length (path_calls n s) \<le> n" for n s by (induction n s rule: path_calls.induct) (auto simp: Let_def)
  have p: "7 \<le> length data" "pf_origin f = (case ?calls of [] \<Rightarrow> '''' | c # _ \<Rightarrow> c)"
    "pf_hops f = (case ?calls of [] \<Rightarrow> [] | _ # cs \<Rightarrow> cs)"
    using assms(1) by (auto simp: flex_parse_path_frame_def Let_def FLEXNET_MAX_PATH_HOPS_def simp del: path_calls.simps split: if_splits)
  obtain c cs where c: "?calls = c # cs" using assms(2) p(3) by (cases ?calls) auto
  then have s: "set (c # cs) = set ?calls" by simp
  show "call_ok (pf_origin f)" "\<forall>h \<in> set (pf_hops f). call_ok h"
    using path_calls_parts [of 17 "drop 7 data"] p(2,3) c by (auto simp del: path_calls.simps)
  show "7 \<le> length data" by (rule p(1))
  show "length (pf_hops f) \<le> 16" using l [of 17 "drop 7 data"] p(3) c by (simp del: path_calls.simps)
qed

text \<open>A frame that was passed on ends with a CR.\<close>

lemma path_calls_cr: "path_calls n (CR # t) = []"
  by (cases n) simp_all

lemma path_calls_step_cr:
  assumes "call_ok h" "rest = [] \<or> hd rest = SP \<or> hd rest = CR"
  shows "path_calls (Suc n) (h @ rest) = h # path_calls n rest"
proof -
  have "dropWhile (\<lambda>c. c = SP) (h @ rest) = h @ rest"
    using assms(1) by (cases h) (auto simp: call_ok_def)
  moreover have "takeWhile (\<lambda>c. c \<noteq> SP \<and> c \<noteq> CR \<and> c \<noteq> CHR 0x00) (h @ rest) = h"
    using assms by (cases rest) (auto simp: call_ok_def takeWhile_append takeWhile_eq_all_conv)
  ultimately show ?thesis using assms(1) by (simp add: call_ok_def)
qed

lemma path_calls_join_cr:
  "\<forall>h \<in> set hs. call_ok h \<Longrightarrow> length hs \<le> n \<Longrightarrow> path_calls n (join_sp hs @ [CR]) = hs"
proof (induction hs arbitrary: n rule: join_sp.induct)
  case 1
  then show ?case by (simp add: path_calls_cr del: path_calls.simps)
next
  case (2 h)
  then obtain m where n: "n = Suc m" by (cases n) auto
  with path_calls_step_cr [of h "[CR]" m] 2 show ?case by (simp add: path_calls_cr del: path_calls.simps)
next
  case (3 h h' hs)
  then obtain m where n: "n = Suc m" by (cases n) auto
  have "path_calls m (join_sp (h' # hs) @ [CR]) = h' # hs" using 3 n by simp
  with path_calls_step_cr [of h "SP # join_sp (h' # hs) @ [CR]" m] 3 n show ?case
    by (simp add: path_calls_skip del: path_calls.simps)
qed

lemma join_sp_Cons: "join_sp (h # hs) = h @ concat (map (\<lambda>x. SP # x) hs)"
  by (induction hs arbitrary: h) simp_all

lemma join_calls_join:
  "join_calls out first ps = Some r \<Longrightarrow> r = out @ (if first then join_sp ps else concat (map (\<lambda>x. SP # x) ps))"
proof (induction ps arbitrary: out first)
  case Nil
  then show ?case by simp
next
  case (Cons p ps)
  from Cons.prems have "join_calls (out @ (if first then [] else [SP]) @ p) False ps = Some r"
    by (auto split: if_splits)
  from Cons.IH [OF this] show ?case by (simp add: join_sp_Cons)
qed

lemma join_calls_length: "join_calls out first ps = Some r \<Longrightarrow> length out < 256 \<Longrightarrow> length r < 256"
proof (induction ps arbitrary: out first)
  case Nil
  then show ?case by simp
next
  case (Cons p ps)
  then have "join_calls (out @ (if first then [] else [SP]) @ p) False ps = Some r"
    "length (out @ (if first then [] else [SP]) @ p) < 256" by (auto split: if_splits)
  then show ?case by (rule Cons.IH)
qed

section \<open>Requests passed on\<close>

text \<open>The count a relayed hop byte is read as.\<close>

definition relayed_count :: "char \<Rightarrow> int" where
  "relayed_count hb = max 0 ((int (of_char hb :: nat) + 1) mod 256 - 0x20)"

text \<open>C30: a request that is passed on goes to a live neighbour other than the asker that is not in the chain
  yet, and only while the chain has fewer than fifteen hops after its origin; that neighbour reads the same
  request with itself inserted before the target. So the chain, which the peers' callsigns make longer at
  every relay, ends every request, in a loop or not. The hop byte does not: it is the peer's byte plus one,
  unchecked, so a count is raised by one, but a byte 0xFF wraps and is read as no hops. The neighbours'
  callsigns, where known, are texts a frame can carry: up to nine characters, none of them a separator.\<close>

theorem forwarded_request_grows:
  assumes "flex_parse_path_frame data = Some f" "\<not> pf_is_reply f"
    and "\<forall>s < FLEXNET_MAX_SESSIONS. flex_sess_peer_call ev nd s = '''' \<or> call_ok (flex_sess_peer_call ev nd s)"
    and "flex_forward_path_req ev asker (last (pf_hops f)) di (pf_origin f) (pf_hops f) data nd ps = (True, nd', ps')"
  shows "\<exists>via l out nb. via \<noteq> asker \<and> s_active (sessions nd ! via) \<and> s_LINK (sessions nd ! via) = Some l \<and>
    nb = flex_sess_peer_call ev nd via \<and> \<not> list_ex (case_eq nb) (pf_origin f # pf_hops f) \<and>
    nd' = flex_send_frame ev l FLEXNET_PID_CE out nd \<and> length out \<le> 256 \<and> length (pf_hops f) < 15 \<and>
    flex_parse_path_frame out = Some (f\<lparr>pf_hop_count := relayed_count (data ! 1),
      pf_hops := butlast (pf_hops f) @ [nb, last (pf_hops f)]\<rparr>) \<and>
    (of_char (data ! 1) \<in> {0x20 ..< 0xFF :: nat} \<longrightarrow> relayed_count (data ! 1) = pf_hop_count f + 1)"
proof -
  let ?hs = "pf_hops f"
  obtain via out0 where v: "forward_via ev nd (dests nd ! nat di) = Some via" "via \<noteq> asker"
    and hs: "?hs \<noteq> []" "length ?hs < 15"
    and nb: "flex_sess_peer_call ev nd via \<noteq> ''''" "\<not> case_eq (pf_origin f) (flex_sess_peer_call ev nd via)"
      "\<not> list_ex (\<lambda>h. case_eq h (flex_sess_peer_call ev nd via)) ?hs"
    and out0: "join_calls (take 7 (data[1 := char_of ((of_char (data ! 1) :: nat) + 1)])) True
      ([pf_origin f] @ butlast ?hs @ [flex_sess_peer_call ev nd via, last ?hs]) = Some out0"
    and nd': "nd' = flex_send_frame ev (the (s_LINK (sessions nd ! via))) FLEXNET_PID_CE (out0 @ [CR]) nd"
    using assms(4)
    by (auto simp: flex_forward_path_req_def Let_def FLEXNET_MAX_PATH_HOPS_def simp del: join_calls.simps
        split: if_splits option.splits)
  define nbr where "nbr = flex_sess_peer_call ev nd via"
  let ?hd = "take 7 (data[1 := char_of ((of_char (data ! 1) :: nat) + 1)])"
  let ?parts = "pf_origin f # butlast ?hs @ [nbr, last ?hs]"
  have via: "via < FLEXNET_MAX_SESSIONS" "s_active (sessions nd ! via)" "s_LINK (sessions nd ! via) \<noteq> None"
    using v(1) by (auto simp: forward_via_def Let_def split: option.splits if_splits)
  then obtain l where l: "s_LINK (sessions nd ! via) = Some l" by blast
  note p = parsed_calls_ok [OF assms(1) hs(1)]
  have o: "out0 = ?hd @ join_sp ?parts"
    using join_calls_join [OF out0] by (simp add: nbr_def)
  have "call_ok nbr" using assms(3) via(1) nb(1) by (auto simp: nbr_def)
  then have "\<forall>h \<in> set ?parts. call_ok h" using p(1,2) hs(1) by (auto dest: in_set_butlastD)
  then have calls: "path_calls 17 (join_sp ?parts @ [CR]) = ?parts"
    by (rule path_calls_join_cr) (use hs(2) in simp)
  obtain k hb r where d: "data = k # hb # r" "5 \<le> length r"
    using p(3) by (cases data; cases "tl data") auto
  have r: "r = take 5 r @ drop 5 r" by simp
  have k: "k = CHR ''6''"
    using assms(1,2) by (auto simp: flex_parse_path_frame_def d Let_def simp del: path_calls.simps split: if_splits)
  have f: "f = \<lparr>pf_is_reply = False, pf_qso = int (parse_qso (clear_trace_bit (hd (take 5 r)) # tl (take 5 r))),
      pf_trace = has_trace_bit (hd (take 5 r)), pf_hop_count = max 0 (int (of_char hb) - 0x20),
      pf_origin = pf_origin f, pf_hops = ?hs\<rparr>"
    using assms(1) parse_path_bytes [of k "take 5 r" hb "drop 5 r"] d k by (auto simp: Let_def simp del: path_calls.simps)
  then have count: "pf_hop_count f = max 0 (int (of_char hb) - 0x20)" by (metis path_frame.select_convs(4))
  define hb1 where "hb1 = (char_of ((of_char hb :: nat) + 1) :: char)"
  have "(of_char hb1 :: nat) = (of_char hb + 1) mod 256" by (simp add: hb1_def)
  then have "int (of_char hb1) = (int (of_char hb :: nat) + 1) mod 256" by (simp add: zmod_int add.commute)
  then have c1: "max 0 (int (of_char hb1) - 0x20) = relayed_count (data ! 1)" by (simp add: relayed_count_def d)
  have raised: "of_char (data ! 1) \<in> {0x20 ..< 0xFF :: nat} \<longrightarrow> relayed_count (data ! 1) = pf_hop_count f + 1"
    unfolding count by (simp add: relayed_count_def d)
  have out: "out0 @ [CR] = CHR ''6'' # hb1 # take 5 r @ (join_sp ?parts @ [CR])"
    by (simp add: o d k hb1_def)
  have "f\<lparr>pf_hop_count := relayed_count (data ! 1), pf_hops := butlast ?hs @ [nbr, last ?hs]\<rparr> =
    \<lparr>pf_is_reply = False, pf_qso = int (parse_qso (clear_trace_bit (hd (take 5 r)) # tl (take 5 r))),
      pf_trace = has_trace_bit (hd (take 5 r)), pf_hop_count = relayed_count (data ! 1),
      pf_origin = pf_origin f, pf_hops = butlast ?hs @ [nbr, last ?hs]\<rparr>"
    by (subst (1) f) simp
  then have "flex_parse_path_frame (out0 @ [CR]) = Some (f\<lparr>pf_hop_count := relayed_count (data ! 1),
      pf_hops := butlast ?hs @ [nbr, last ?hs]\<rparr>)"
    unfolding out using parse_path_bytes [of "CHR ''6''" "take 5 r" hb1 "join_sp ?parts @ [CR]"] d(2)
    by (simp add: calls c1 Let_def del: path_calls.simps)
  moreover have "length (out0 @ [CR]) \<le> 256"
    using join_calls_length [OF out0] by (simp add: min_less_iff_disj)
  ultimately show ?thesis using v(2) via l hs nb nd' raised unfolding nbr_def
    by - (rule exI [of _ via], rule exI [of _ l], rule exI [of _ "out0 @ [CR]"], rule exI [of _ nbr],
      auto simp: case_eq_def list_ex_iff nbr_def)
qed

text \<open>A node between two neighbours that reaches DB0FAA through the second.\<close>

definition relay_node :: node where
  "relay_node = demo_node\<lparr>path_forward_enabled := True,
     dests := [dest_entry0\<lparr>d_callsign := ''DB0FAA'', d_ssid_hi := 15, d_rtt := 12, d_via_callsign := ''IW2OHX-12'',
       d_port := 1, d_via_session_idx := 1\<rparr>]\<rparr>"

definition relay_request :: string where
  "relay_request = CHR ''6'' # CHR 0x21 # qso_field 7 False @ ''DL1ABC IR2UFV DB0FAA''"

definition relay_frame :: path_frame where
  "relay_frame = \<lparr>pf_is_reply = False, pf_qso = 7, pf_trace = False, pf_hop_count = 1, pf_origin = ''DL1ABC'',
     pf_hops = [''IR2UFV'', ''DB0FAA'']\<rparr>"

lemma relay_parse: "flex_parse_path_frame relay_request = Some relay_frame"
  by code_simp

lemma relay_peers: "\<forall>s < FLEXNET_MAX_SESSIONS. flex_sess_peer_call demo_env relay_node s = '''' \<or>
  call_ok (flex_sess_peer_call demo_env relay_node s)"
proof -
  have "list_all (\<lambda>s. flex_sess_peer_call demo_env relay_node s = '''' \<or>
    call_ok (flex_sess_peer_call demo_env relay_node s)) [0..<FLEXNET_MAX_SESSIONS]"
    by code_simp
  then show ?thesis by (simp add: list_all_iff)
qed

lemma relay_forwards:
  "fst (flex_forward_path_req demo_env 0 ''DB0FAA'' 0 ''DL1ABC'' [''IR2UFV'', ''DB0FAA''] relay_request relay_node path_state0)"
  by code_simp

theorem forwarded_request_grows_witness:
  "\<exists>nd' ps' via l out nb. via \<noteq> 0 \<and> s_active (sessions relay_node ! via) \<and> s_LINK (sessions relay_node ! via) = Some l \<and>
    nb = flex_sess_peer_call demo_env relay_node via \<and> \<not> list_ex (case_eq nb) [''DL1ABC'', ''IR2UFV'', ''DB0FAA''] \<and>
    nd' = flex_send_frame demo_env l FLEXNET_PID_CE out relay_node \<and> length out \<le> 256 \<and>
    flex_parse_path_frame out = Some \<lparr>pf_is_reply = False, pf_qso = 7, pf_trace = False, pf_hop_count = 2,
      pf_origin = ''DL1ABC'', pf_hops = [''IR2UFV'', nb, ''DB0FAA'']\<rparr> \<and>
    flex_forward_path_req demo_env 0 ''DB0FAA'' 0 ''DL1ABC'' [''IR2UFV'', ''DB0FAA''] relay_request relay_node path_state0 =
      (True, nd', ps')"
proof -
  obtain b nd' ps' where r0: "flex_forward_path_req demo_env 0 ''DB0FAA'' 0 ''DL1ABC'' [''IR2UFV'', ''DB0FAA'']
      relay_request relay_node path_state0 = (b, nd', ps')" by (rule prod_cases3)
  with relay_forwards have b by (simp only: fst_conv)
  with r0 have r: "flex_forward_path_req demo_env 0 ''DB0FAA'' 0 ''DL1ABC'' [''IR2UFV'', ''DB0FAA'']
      relay_request relay_node path_state0 = (True, nd', ps')" by simp
  have "\<exists>via l out nb. via \<noteq> 0 \<and> s_active (sessions relay_node ! via) \<and> s_LINK (sessions relay_node ! via) = Some l \<and>
    nb = flex_sess_peer_call demo_env relay_node via \<and>
    \<not> list_ex (case_eq nb) (pf_origin relay_frame # pf_hops relay_frame) \<and>
    nd' = flex_send_frame demo_env l FLEXNET_PID_CE out relay_node \<and> length out \<le> 256 \<and>
    length (pf_hops relay_frame) < 15 \<and>
    flex_parse_path_frame out = Some (relay_frame\<lparr>pf_hop_count := relayed_count (relay_request ! 1),
      pf_hops := butlast (pf_hops relay_frame) @ [nb, last (pf_hops relay_frame)]\<rparr>) \<and>
    (of_char (relay_request ! 1) \<in> {0x20 ..< 0xFF :: nat} \<longrightarrow>
      relayed_count (relay_request ! 1) = pf_hop_count relay_frame + 1)"
    by (rule forwarded_request_grows [OF relay_parse _ relay_peers])
      (use r in \<open>simp_all add: relay_frame_def\<close>)
  then obtain via l out nb where "via \<noteq> 0" "s_active (sessions relay_node ! via)" "s_LINK (sessions relay_node ! via) = Some l"
    "nb = flex_sess_peer_call demo_env relay_node via" "\<not> list_ex (case_eq nb) (pf_origin relay_frame # pf_hops relay_frame)"
    "nd' = flex_send_frame demo_env l FLEXNET_PID_CE out relay_node" "length out \<le> 256"
    "flex_parse_path_frame out = Some (relay_frame\<lparr>pf_hop_count := relayed_count (relay_request ! 1),
      pf_hops := butlast (pf_hops relay_frame) @ [nb, last (pf_hops relay_frame)]\<rparr>)" by blast
  moreover have "relayed_count (relay_request ! 1) = 2" by (simp add: relayed_count_def relay_request_def)
  ultimately show ?thesis using r
    by - (rule exI [of _ nd'], rule exI [of _ ps'], rule exI [of _ via], rule exI [of _ l], rule exI [of _ out],
      rule exI [of _ nb], simp add: relay_frame_def)
qed

section \<open>Answers\<close>


lemma parsed_qso:
  assumes "flex_parse_path_frame data = Some f"
  shows "0 \<le> pf_qso f" "pf_qso f < 100000"
proof -
  have small: "parse_qso xs < 10 ^ 5" if "length xs \<le> 5" for xs
  proof -
    let ?ds = "takeWhile is_digit (dropWhile (\<lambda>c. c = SP) (map (\<lambda>c. if is_digit c then c else SP) xs))"
    have "length ?ds \<le> 5"
      using that length_takeWhile_le [of is_digit] length_dropWhile_le [of "\<lambda>c. c = SP"]
      by (metis (no_types, lifting) le_trans length_map)
    then have "(10::nat) ^ length ?ds \<le> 10 ^ 5" by (rule power_increasing) simp
    moreover have "digits_val ?ds < 10 ^ length ?ds" by (rule digits_val_bound) (auto dest: set_takeWhileD)
    ultimately show ?thesis unfolding parse_qso_def by (rule order_less_le_trans [rotated])
  qed
  then have "parse_qso (clear_trace_bit (hd g) # tl g) < 10 ^ 5" if "length g \<le> 5" "g \<noteq> []" for g
    using that by simp
  note s = this [of "take 5 (drop 2 data)"]
  have "7 \<le> length data \<and> pf_qso f = int (parse_qso (clear_trace_bit (hd (take 5 (drop 2 data))) # tl (take 5 (drop 2 data))))"
    using assms by (simp add: flex_parse_path_frame_def Let_def del: path_calls.simps hd_take hd_drop_conv_nth split: if_splits)
      (auto simp del: hd_take)
  moreover from this have "length (take 5 (drop 2 data)) \<le> 5" "take 5 (drop 2 data) \<noteq> []" by auto
  ultimately show "0 \<le> pf_qso f" "pf_qso f < 100000" using s by (simp_all del: hd_take)
qed

lemma path_rep_hops_fits:
  "int (length buf + sum_list (map (\<lambda>h. length h + 1) hs)) < buflen \<Longrightarrow> path_rep_hops buflen buf i hs \<noteq> None"
  by (induction hs arbitrary: buf i) auto

lemma sum_calls: "\<forall>h \<in> set hs. call_ok h \<Longrightarrow> sum_list (map (\<lambda>h. length h + 1) hs) \<le> 10 * length hs"
  by (induction hs) (auto simp: call_ok_def)

text \<open>The answer a node gives, as the node it is sent to reads it.\<close>

lemma path_answer_sent:
  assumes "flex_parse_path_frame data = Some f" "\<not> pf_is_reply f" "pf_hops f \<noteq> []"
    and "path_answer_for ev nd (last (pf_hops f)) = AnswerHops beyond" "length beyond \<le> path_digi_cap ev nd l"
    and "call_ok (own_call ev)" "\<forall>h \<in> set beyond. call_ok h"
  shows "\<exists>fr. flex_handle_path_req ev replaying l si data nd ps = (flex_send_frame ev l FLEXNET_PID_CE fr nd, ps) \<and>
    flex_parse_path_frame fr = Some \<lparr>pf_is_reply = True, pf_qso = pf_qso f, pf_trace = pf_trace f,
      pf_hop_count = 2 + int (length beyond), pf_origin = pf_origin f, pf_hops = own_call ev # beyond\<rparr>"
proof -
  let ?hs = "[pf_origin f, own_call ev] @ beyond"
  have ok: "\<forall>h \<in> set ?hs. call_ok h" using assms(6,7) parsed_calls_ok(1) [OF assms(1,3)] by simp
  have cap: "length beyond \<le> 8"
    using assms(5) by (simp add: path_digi_cap_def FLEXNET_L2_MAX_DIGIS_def Let_def split: if_splits)
  have "int (length (CHR ''7'' # char_of (0x20 + length ?hs) # qso_field (pf_qso f) (pf_trace f)) +
      sum_list (map (\<lambda>h. length h + 1) ?hs)) < 256"
    using sum_calls [OF ok] cap by simp
  from path_rep_hops_fits [OF this, of 0] have "flex_build_path_rep 256 (pf_qso f) (pf_trace f) ?hs \<noteq> None"
    unfolding flex_build_path_rep_def using cap
    by (auto simp: FLEXNET_MAX_PATH_HOPS_def simp del: path_rep_hops.simps)
  then obtain fr where fr: "flex_build_path_rep 256 (pf_qso f) (pf_trace f) ?hs = Some fr" by blast
  have ne: "\<forall>h \<in> set ?hs. h \<noteq> []" using ok by (auto simp: call_ok_def)
  note b = build_path_rep_bytes [OF fr ne]
  have calls: "path_calls 17 (join_sp ?hs) = ?hs" by (rule path_calls_join) (use ok b in auto)
  have "flex_parse_path_frame fr = Some \<lparr>pf_is_reply = True, pf_qso = pf_qso f, pf_trace = pf_trace f,
      pf_hop_count = 2 + int (length beyond), pf_origin = pf_origin f, pf_hops = own_call ev # beyond\<rparr>"
    unfolding b(1) using calls b(3)
    by (simp add: parse_path_bytes qso_field_read [OF parsed_qso [OF assms(1)]] of_char_of Let_def del: path_calls.simps join_sp.simps)
  moreover have "flex_handle_path_req ev replaying l si data nd ps = (flex_send_frame ev l FLEXNET_PID_CE fr nd, ps)"
    using assms(1-5) fr b(1) by (simp add: flex_handle_path_req_def answer_path_req_def Let_def)
  ultimately show ?thesis by blast
qed

text \<open>C31: an answer does not find its way back to the asker. The node that answers a request names the asker and
  itself and what lies beyond, but none of the nodes that passed the request on, so such a node,
  which is to hand the answer back, does not find itself in the chain and drops it: it sends nothing
  and keeps nothing.\<close>

theorem forwarded_answer_lost:
  assumes "flex_parse_path_frame data = Some f" "\<not> pf_is_reply f" "pf_hops f \<noteq> []"
    and "path_answer_for ev nd (last (pf_hops f)) = AnswerHops beyond" "length beyond \<le> path_digi_cap ev nd l"
    and "call_ok (own_call ev)" "\<forall>h \<in> set beyond. call_ok h"
    and "\<not> list_ex (\<lambda>p. pp_active p \<and> pp_qso p = pf_qso f) (probes psA)"
    and "\<not> list_ex (\<lambda>h. case_eq h (own_call evA)) (own_call ev # beyond)"
  shows "\<exists>fr. flex_handle_path_req ev replaying l si data nd ps = (flex_send_frame ev l FLEXNET_PID_CE fr nd, ps) \<and>
    flex_parse_path_frame fr = Some \<lparr>pf_is_reply = True, pf_qso = pf_qso f, pf_trace = pf_trace f,
      pf_hop_count = 2 + int (length beyond), pf_origin = pf_origin f, pf_hops = own_call ev # beyond\<rparr> \<and>
    flex_handle_path_rep evA k fr ndA psA = (ndA, psA)"
proof -
  obtain fr where fr: "flex_handle_path_req ev replaying l si data nd ps = (flex_send_frame ev l FLEXNET_PID_CE fr nd, ps)"
    "flex_parse_path_frame fr = Some \<lparr>pf_is_reply = True, pf_qso = pf_qso f, pf_trace = pf_trace f,
      pf_hop_count = 2 + int (length beyond), pf_origin = pf_origin f, pf_hops = own_call ev # beyond\<rparr>"
    using path_answer_sent [OF assms(1-7)] by blast
  have n: "first_idx (\<lambda>p. pp_active p \<and> pp_qso p = pf_qso f) (probes psA) = None"
    using assms(8) by (auto simp: first_idx_None_iff list_ex_iff)
  have "chain_pos (own_call evA) (own_call ev # beyond) = None"
    using assms(9) by (auto simp: chain_pos_def first_idx_None_iff list_ex_iff)
  then have "flex_handle_path_rep evA k fr ndA psA = (ndA, psA)"
    by (simp add: flex_handle_path_rep_def fr(2) n flex_relay_path_rep_def)
  with fr show ?thesis by blast
qed

text \<open>IW2OHX-12, with DB0FAA one hop beyond it, gets the request \<open>relay_node\<close> passed on.\<close>

definition far_env :: env where
  "far_env = demo_env\<lparr>e_mycall := [2,0,0,0,0,0,0]\<rparr>"

definition far_node :: node where
  "far_node = demo_node\<lparr>dests := [dest_entry0\<lparr>d_callsign := ''DB0FAA'', d_ssid_hi := 15, d_rtt := 12,
      d_via_callsign := ''IW2OHX-14'', d_port := 1, d_path_len := 1, d_path_hops := [''DB0FAA''], d_path_updated := 900\<rparr>]\<rparr>"

definition passed_on :: string where
  "passed_on = CHR ''6'' # CHR 0x22 # qso_field 7 False @ ''DL1ABC IR2UFV IW2OHX-12 DB0FAA'' @ [CR]"

lemma passed_on_sent: "txq (fst (snd (flex_forward_path_req demo_env 0 ''DB0FAA'' 0 ''DL1ABC'' [''IR2UFV'', ''DB0FAA'']
    relay_request relay_node path_state0))) = [(1, FLEXNET_PID_CE, passed_on)]"
  by code_simp

definition passed_frame :: path_frame where
  "passed_frame = \<lparr>pf_is_reply = False, pf_qso = 7, pf_trace = False, pf_hop_count = 2, pf_origin = ''DL1ABC'',
     pf_hops = [''IR2UFV'', ''IW2OHX-12'', ''DB0FAA'']\<rparr>"

lemma passed_parse: "flex_parse_path_frame passed_on = Some passed_frame"
  by code_simp

lemma far_answers: "path_answer_for far_env far_node ''DB0FAA'' = AnswerHops [''DB0FAA'']"
  "path_digi_cap far_env far_node 0 = 8" "own_call far_env = ''IW2OHX-12''" "own_call demo_env = ''IR2UFV''"
  by code_simp+

lemma relay_not_on_chain: "\<not> list_ex (\<lambda>h. case_eq h (own_call demo_env)) (own_call far_env # [''DB0FAA''])"
  by code_simp

theorem forwarded_answer_lost_witness:
  "\<exists>fr. flex_handle_path_req far_env False 0 0 passed_on far_node path_state0 =
      (flex_send_frame far_env 0 FLEXNET_PID_CE fr far_node, path_state0) \<and>
    flex_handle_path_rep demo_env 1 fr relay_node path_state0 = (relay_node, path_state0)"
proof -
  have "\<exists>fr. flex_handle_path_req far_env False 0 0 passed_on far_node path_state0 =
      (flex_send_frame far_env 0 FLEXNET_PID_CE fr far_node, path_state0) \<and>
    flex_parse_path_frame fr = Some \<lparr>pf_is_reply = True, pf_qso = pf_qso passed_frame, pf_trace = pf_trace passed_frame,
      pf_hop_count = 2 + int (length [''DB0FAA'']), pf_origin = pf_origin passed_frame,
      pf_hops = own_call far_env # [''DB0FAA'']\<rparr> \<and>
    flex_handle_path_rep demo_env 1 fr relay_node path_state0 = (relay_node, path_state0)"
    by (rule forwarded_answer_lost [OF passed_parse _ _ _ _ _ _ _ relay_not_on_chain])
      (simp_all add: passed_frame_def far_answers call_ok_def path_state0_def path_probe0_def list_ex_iff)
  then show ?thesis by blast
qed

section \<open>The path cache through a restart\<close>

definition word_ok :: "string \<Rightarrow> bool" where
  "word_ok s \<longleftrightarrow> s \<noteq> '''' \<and> length s \<le> 9 \<and> (\<forall>c \<in> set s. \<not> is_space c \<and> c \<noteq> CHR 0x00)"

lemma scan_s_word:
  assumes "word_ok w" "is_space c"
  shows "scan_s 15 (w @ c # r) = Some (w, c # r)"
proof -
  obtain a as where w: "w = a # as" using assms(1) by (cases w) (auto simp: word_ok_def)
  then have "dropWhile is_space (w @ c # r) = w @ c # r" using assms(1) by (simp add: word_ok_def)
  moreover have "takeWhile (\<lambda>c. \<not> is_space c) (w @ c # r) = w"
    using assms by (auto simp: word_ok_def takeWhile_append takeWhile_eq_all_conv)
  ultimately show ?thesis using assms(1) by (simp add: scan_s_def Let_def word_ok_def)
qed

lemma scan_d_dec_of_int:
  assumes "r = [] \<or> \<not> is_digit (hd r)"
  shows "scan_d (SP # dec_of_int v @ r) = Some (v, r)"
proof -
  have t: "takeWhile is_digit (dec_of_nat n @ r) = dec_of_nat n" for n
    using assms dec_of_nat_digits [of _ n] by (cases r) (auto simp: takeWhile_append takeWhile_eq_all_conv)
  have h: "\<not> is_space (hd (dec_of_nat n @ r))" "hd (dec_of_nat n @ r) \<noteq> CHR ''-''" "hd (dec_of_nat n @ r) \<noteq> CHR ''+''" for n
  proof -
    obtain a as where d: "dec_of_nat n = a # as" using dec_of_nat_nonempty by (meson neq_Nil_conv)
    then have "is_digit a" using dec_of_nat_digits [of a n] by simp
    then show "\<not> is_space (hd (dec_of_nat n @ r))" "hd (dec_of_nat n @ r) \<noteq> CHR ''-''" "hd (dec_of_nat n @ r) \<noteq> CHR ''+''"
      by (auto simp: d is_digit_def is_space_def)
  qed
  have d: "dropWhile is_space (dec_of_nat n @ r) = dec_of_nat n @ r" for n
    using h(1) [of n] dec_of_nat_nonempty [of n] by (cases "dec_of_nat n") auto
  have sp: "is_space SP" "\<not> is_space (CHR ''-'')" by (simp_all add: is_space_def)
  show ?thesis
  proof (cases "v < 0")
    case True
    then show ?thesis
      using sp dec_of_nat_nonempty [of "nat (- v)"]
      by (simp add: scan_d_def dec_of_int_def t Let_def digits_val_dec_of_nat)
  next
    case False
    have e: "dropWhile is_space (SP # dec_of_int v @ r) = dec_of_nat (nat v) @ r"
      using False sp by (simp add: dec_of_int_def d)
    show ?thesis
      unfolding scan_d_def e Let_def
      using False h [of "nat v"] dec_of_nat_nonempty [of "nat v"] by (simp add: t digits_val_dec_of_nat)
  qed
qed

lemma cache_hops_words:
  assumes "\<forall>h \<in> set hs. word_ok h"
  shows "cache_hops (length hs) (concat (map (\<lambda>h. SP # h) hs) @ [LF]) = hs"
  using assms
proof (induction hs)
  case Nil
  then show ?case by simp
next
  case (Cons h hs)
  let ?r = "concat (map (\<lambda>h. SP # h) hs) @ [LF]"
  obtain a as where h: "h = a # as" using Cons.prems by (cases h) (auto simp: word_ok_def)
  have h2: "a \<noteq> SP" "a \<noteq> TAB" "a \<noteq> LF" "a \<noteq> CHR 0x00" "length h \<le> 9"
    using Cons.prems h by (auto simp: word_ok_def is_space_def)
  have "takeWhile (\<lambda>c. c \<noteq> SP \<and> c \<noteq> TAB \<and> c \<noteq> LF \<and> c \<noteq> CHR 0x00) (h @ ?r) = h"
    using Cons.prems by (cases hs) (auto simp: word_ok_def is_space_def takeWhile_append takeWhile_eq_all_conv)
  moreover have "dropWhile (\<lambda>c. c = SP \<or> c = TAB) (SP # h @ ?r) = h @ ?r" using h h2 by simp
  ultimately show ?case using Cons h h2 by (simp add: Let_def)
qed

text \<open>A row whose path is worth writing down: complete, ending at the destination, not through this node.\<close>

definition path_row_ok :: "env \<Rightarrow> dest_entry \<Rightarrow> bool" where
  "path_row_ok ev d \<longleftrightarrow> word_ok (d_callsign d) \<and> hd (d_callsign d) \<noteq> CHR ''#'' \<and>
     d_path_len d = int (length (dest_path d)) \<and> length (dest_path d) \<le> FLEXNET_MAX_PATH_HOPS \<and>
     (\<forall>h \<in> set (dest_path d). word_ok h) \<and>
     \<not> flex_chain_has_call (dest_path d) (flex_normalize_callsign (e_conv ev) (e_mycall ev) 20) \<and>
     flex_chain_ends_at (dest_path d) (d_callsign d) (d_ssid_lo d) (d_ssid_hi d)"

lemma cache_fields_line:
  assumes "path_row_ok ev d"
  shows "cache_fields (cache_line d) = Some (d_callsign d, d_ssid_lo d, d_ssid_hi d, d_path_updated d, d_path_len d,
      concat (map (\<lambda>h. SP # h) (dest_path d)) @ [LF])"
    and "scan_s 15 (cache_line d) \<noteq> None" "fst (the (scan_s 15 (cache_line d))) = d_callsign d"
proof -
  let ?r4 = "concat (map (\<lambda>h. SP # h) (dest_path d)) @ [LF]"
  have hs: "take FLEXNET_MAX_PATH_HOPS (dest_path d) = dest_path d" "filter (\<lambda>h. h \<noteq> '''') (dest_path d) = dest_path d"
    using assms by (auto simp: path_row_ok_def word_ok_def intro!: filter_True)
  have w: "word_ok (d_callsign d)" using assms by (simp add: path_row_ok_def)
  have r4: "\<not> is_digit (hd ?r4)" by (cases "dest_path d") (simp_all add: is_digit_def)
  have sp: "is_space SP" "\<not> is_digit SP" by (simp_all add: is_space_def is_digit_def)
  have line: "cache_line d = d_callsign d @ SP # dec_of_int (d_ssid_lo d) @ SP # dec_of_int (d_ssid_hi d) @
      SP # dec_of_int (d_path_updated d) @ SP # dec_of_int (d_path_len d) @ ?r4"
    by (simp add: cache_line_def hs)
  note s = scan_s_word [OF w sp(1)]
  note n = scan_d_dec_of_int [OF disjI2, of "SP # _", simplified list.sel, OF sp(2)]
  show "cache_fields (cache_line d) = Some (d_callsign d, d_ssid_lo d, d_ssid_hi d, d_path_updated d, d_path_len d, ?r4)"
    unfolding cache_fields_def line by (simp add: s n scan_d_dec_of_int [OF disjI2, OF r4])
  show "scan_s 15 (cache_line d) \<noteq> None" "fst (the (scan_s 15 (cache_line d))) = d_callsign d"
    by (simp_all add: line s)
qed

lemma read_line_row:
  assumes "path_row_ok ev d"
  shows "read_cache_line (ev\<lparr>e_now := t\<rparr>) (cache_line d) =
    (if cache_worth_saving t d
     then CacheEntry (d_callsign d) (d_ssid_lo d) (d_ssid_hi d) (d_path_updated d) (dest_path d) else CacheStale)"
proof -
  obtain c cs where c: "d_callsign d = c # cs" "c \<noteq> CHR ''#''" "c \<noteq> LF" "c \<noteq> CHR 0x00"
    using assms by (cases "d_callsign d") (auto simp: path_row_ok_def word_ok_def is_space_def)
  then have hd: "cache_line d \<noteq> []" "hd (cache_line d) = c" by (simp_all add: cache_line_def)
  obtain r where s: "scan_s 15 (cache_line d) = Some (d_callsign d, r)"
    using cache_fields_line(2,3) [OF assms] by auto
  have "dest_path d \<noteq> []" "1 \<le> length (dest_path d)"
    using assms by (auto simp: path_row_ok_def flex_chain_ends_at_def Suc_le_eq)
  then show ?thesis
    using assms hd c s cache_fields_line(1) [OF assms] cache_hops_words [of "dest_path d"]
    by (simp add: read_cache_line_def path_row_ok_def word_ok_def FLEXNET_MAX_CALLSIGN_def cache_worth_saving_def)
qed

definition restored :: "dest_entry \<Rightarrow> dest_entry" where
  "restored d = dest_entry0\<lparr>d_callsign := d_callsign d, d_ssid_lo := d_ssid_lo d, d_ssid_hi := d_ssid_hi d,
     d_rtt := FLEXNET_RTT_INFINITY, d_via_session_idx := -1, d_path_len := d_path_len d,
     d_path_updated := d_path_updated d, d_path_hops := dest_path d\<rparr>"

lemma load_entry_new:
  assumes "path_row_ok ev d" "dest_key d \<notin> dest_key ` set (dests nd)" "length (dests nd) < FLEXNET_MAX_DESTS"
  shows "load_entry (d_callsign d) (d_ssid_lo d) (d_ssid_hi d) (d_path_updated d) (dest_path d) nd =
    nd\<lparr>dests := dests nd @ [restored d]\<rparr>"
proof -
  have "dest_idx (dest_key d) (dests nd) = None"
    using assms(2) unfolding dest_idx_def first_idx_None_iff by (metis image_eqI)
  then have "flex_find_dest nd (d_callsign d) (d_ssid_lo d) (d_ssid_hi d) = None"
    by (simp add: find_dest_idx dest_key_def dkey_def)
  moreover have "map (take 9) (dest_path d) = dest_path d"
    using assms(1) by (intro map_idI) (auto simp: path_row_ok_def word_ok_def)
  ultimately show ?thesis using assms(1,3)
    by (simp add: load_entry_def Let_def restored_def store_hops_def dest_entry0_def path_row_ok_def)
qed

lemma load_rows:
  assumes "\<forall>d \<in> set ds. path_row_ok ev d" "distinct (map dest_key ds)"
    and "dest_key ` set ds \<inter> dest_key ` set (dests nd) = {}" "length (dests nd) + length ds \<le> FLEXNET_MAX_DESTS"
  shows "flex_path_cache_load (ev\<lparr>e_now := t\<rparr>) (map cache_line ds) nd =
    Some (nd\<lparr>dests := dests nd @ map restored (filter (cache_worth_saving t) ds)\<rparr>)"
  using assms
proof (induction ds arbitrary: nd)
  case Nil
  then show ?case by simp
next
  case (Cons d ds)
  note r = read_line_row [of ev d t]
  show ?case
  proof (cases "cache_worth_saving t d")
    case True
    have "dest_key (restored d) = dest_key d" by (simp add: restored_def dest_key_def)
    then have "flex_path_cache_load (ev\<lparr>e_now := t\<rparr>) (map cache_line ds) (nd\<lparr>dests := dests nd @ [restored d]\<rparr>) =
      Some (nd\<lparr>dests := dests nd @ restored d # map restored (filter (cache_worth_saving t) ds)\<rparr>)"
      using Cons.prems by (subst Cons.IH) auto
    then show ?thesis using Cons.prems True r by (simp add: load_entry_new [of ev])
  next
    case False
    then show ?thesis using Cons r by simp
  qed
qed

text \<open>C32: a restart loses no usable path. Reading at time \<open>t\<close> what was saved, an empty table gets exactly the
  rows whose path has not expired by then, in order, each with its callsign, SSID range, chain and the
  time the path was found, unreachable until a neighbour teaches it again.\<close>

theorem cache_restart_restores:
  assumes "keys_ok dest_key FLEXNET_MAX_DESTS (dests nd)" "\<forall>d \<in> set (dests nd). cache_worth_saving (e_now ev) d \<longrightarrow> path_row_ok ev d"
    and "flex_path_cache_save ev nd ps = (n, ps')" "path_cache_file ps' = Some ls" "e_cache_write ev"
    and "e_now ev \<le> t" "dests nd0 = []"
  shows "flex_path_cache_load (ev\<lparr>e_now := t\<rparr>) ls nd0 =
    Some (nd0\<lparr>dests := map restored (filter (cache_worth_saving t) (dests nd))\<rparr>)"
proof -
  let ?ds = "filter (cache_worth_saving (e_now ev)) (dests nd)"
  have ls: "ls = [''# linbpq-flexnet path cache v1'' @ [LF],
      ''# format: call ssid_lo ssid_hi path_updated path_len hop1 hop2 ...'' @ [LF]] @ map cache_line ?ds"
    using assms(3-5) by (auto simp: flex_path_cache_save_def Let_def)
  have k: "distinct (map dest_key (dests nd))" "length (dests nd) \<le> FLEXNET_MAX_DESTS"
    using assms(1) by (simp_all add: keys_ok_def)
  have "flex_path_cache_load (ev\<lparr>e_now := t\<rparr>) (map cache_line ?ds) nd0 =
      Some (nd0\<lparr>dests := dests nd0 @ map restored (filter (cache_worth_saving t) ?ds)\<rparr>)"
    by (rule load_rows)
      (use assms(2,7) k le_trans [OF length_filter_le k(2)] in \<open>auto simp: distinct_map_filter\<close>)
  moreover have "filter (cache_worth_saving t) ?ds = filter (cache_worth_saving t) (dests nd)"
    using assms(6) by (auto simp: cache_worth_saving_def intro!: filter_cong)
  ultimately show ?thesis by (simp add: ls read_cache_line_def assms(7))
qed

lemma far_rows: "keys_ok dest_key FLEXNET_MAX_DESTS (dests far_node)" "\<forall>d \<in> set (dests far_node). path_row_ok demo_env d"
  by code_simp+

theorem cache_restart_restores_witness:
  "flex_path_cache_load (demo_env\<lparr>e_now := 2000\<rparr>)
      (the (path_cache_file (snd (flex_path_cache_save demo_env far_node path_state0)))) (node0 default_config []) =
    Some ((node0 default_config [])\<lparr>dests := map restored (filter (cache_worth_saving 2000) (dests far_node))\<rparr>) \<and>
   filter (cache_worth_saving 2000) (dests far_node) \<noteq> []"
proof
  show "flex_path_cache_load (demo_env\<lparr>e_now := 2000\<rparr>)
      (the (path_cache_file (snd (flex_path_cache_save demo_env far_node path_state0)))) (node0 default_config []) =
    Some ((node0 default_config [])\<lparr>dests := map restored (filter (cache_worth_saving 2000) (dests far_node))\<rparr>)"
    by (rule cache_restart_restores [OF far_rows(1) _ prod.collapse [symmetric]])
      (use far_rows(2) in \<open>simp_all add: flex_path_cache_save_def Let_def demo_env_def node0_def flex_config.defs\<close>)
qed code_simp

section \<open>The answer to an own request\<close>

text \<open>What the rows know about paths.\<close>

definition row_paths :: "node \<Rightarrow> (int \<times> string list \<times> int) list" where
  "row_paths nd = map (\<lambda>d. (d_path_len d, d_path_hops d, d_path_updated d)) (dests nd)"

lemma row_paths_nth:
  "i < length (row_paths nd) \<Longrightarrow> d_path_len (dests nd ! i) = fst (row_paths nd ! i) \<and>
    d_path_hops (dests nd ! i) = fst (snd (row_paths nd ! i)) \<and> d_path_updated (dests nd ! i) = snd (snd (row_paths nd ! i))"
  by (simp add: row_paths_def)

lemma paths_send_frame [simp]: "row_paths (flex_send_frame ev l pid data nd) = row_paths nd"
  by (simp add: row_paths_def flex_send_frame_def Let_def)

lemma probe_session_rows:
  "snd (flex_probe_session ev di target nd) = nd \<or>
   (\<exists>h. snd (flex_probe_session ev di target nd) =
     nd\<lparr>dests := (dests nd)[nat di := (dests nd ! nat di)\<lparr>d_via_session_idx := int h\<rparr>]\<rparr>)"
  by (auto simp: flex_probe_session_def Let_def split: option.split)

lemma paths_probe_session: "row_paths (snd (flex_probe_session ev di target nd)) = row_paths nd"
  by (auto simp: flex_probe_session_def Let_def row_paths_def map_update intro!: list_update_id split: option.split)
    (simp add: list_update_same_conv)

lemma paths_send_req: "row_paths (fst (snd (flex_send_path_req_ex ev di call ssid nd ps))) = row_paths nd"
proof -
  obtain r nd1 where p: "flex_probe_session ev di (target_full call ssid) nd = (r, nd1)" by fastforce
  then have "row_paths nd1 = row_paths nd" using paths_probe_session by (metis snd_conv)
  then show ?thesis by (simp add: flex_send_path_req_ex_def p Let_def split: option.split prod.split)
qed

lemma paths_ondemand: "row_paths (fst (snd (flex_ondemand_probe ev di target nd ps))) = row_paths nd"
proof -
  let ?d = "dests nd ! nat di"
  obtain r nd1 ps1 where p: "flex_send_path_req_ex ev di (d_callsign ?d) (d_ssid_lo ?d) nd ps = (r, nd1, ps1)"
    by (rule prod_cases3)
  then have "row_paths nd1 = row_paths nd" using paths_send_req [of ev di "d_callsign ?d" "d_ssid_lo ?d" nd ps] by simp
  then show ?thesis by (simp add: flex_ondemand_probe_def p Let_def)
qed

lemma paths_forward: "row_paths (fst (snd (flex_forward_path_req ev a target di o0 hops data nd ps))) = row_paths nd"
  by (simp add: flex_forward_path_req_def Let_def split: option.split)

lemma paths_handle_req: "row_paths (fst (flex_handle_path_req ev replaying l si data nd ps)) = row_paths nd"
proof -
  have a: "row_paths (fst (answer_path_req ev l si f target beyond data nd ps)) = row_paths nd" for f target beyond
    by (simp add: answer_path_req_def Let_def paths_forward split: option.split)
  have s: "row_paths (fst (case flex_forward_path_req ev si target di o0 hops data nd ps of
                   (True, nd1, ps1) \<Rightarrow> (nd1, ps1)
                 | (False, nd1, ps1) \<Rightarrow>
                     (case flex_ondemand_probe ev di target nd1 ps1 of
                        (probed, nd2, ps2) \<Rightarrow>
                          (nd2, if probed then flex_defer_path_req replaying (e_now ev) (int si) target data ps2
                                else ps2)))) = row_paths nd" for target di o0 hops
  proof -
    obtain b nd1 ps1 where f: "flex_forward_path_req ev si target di o0 hops data nd ps = (b, nd1, ps1)" by (rule prod_cases3)
    obtain c nd2 ps2 where o: "flex_ondemand_probe ev di target nd1 ps1 = (c, nd2, ps2)" by (rule prod_cases3)
    have "row_paths nd1 = row_paths nd" "row_paths nd2 = row_paths nd1"
      using f o paths_forward [of ev si target di o0 hops data nd ps] paths_ondemand [of ev di target nd1 ps1] by simp_all
    then show ?thesis by (simp add: f o split: bool.split)
  qed
  show ?thesis by (simp add: flex_handle_path_req_def Let_def a s split: option.split path_answer.split)
qed

lemma paths_replay: "row_paths (fst (replay_deferred ev base s)) = row_paths (fst s)"
proof -
  have o: "row_paths (fst (replay_one ev base i s)) = row_paths (fst s)" for i s
    by (cases s) (simp add: replay_one_def Let_def paths_handle_req split: option.split)
  have "row_paths (fst (fold (replay_one ev base) is s)) = row_paths (fst s)" for "is"
    by (induction "is" arbitrary: s) (simp_all add: o)
  then show ?thesis by (simp add: replay_deferred_def)
qed

lemma next_qso_fresh: "next_qso n pps c = (q, c') \<Longrightarrow> q \<noteq> 0 \<Longrightarrow> \<not> qso_taken pps q \<and> 0 < q \<and> q < 65536"
proof (induction n arbitrary: c)
  case 0
  then show ?case by simp
next
  case (Suc n)
  have "uint w < 65536" "0 < uint w" if "w \<noteq> 0" for w :: "16 word"
    using uint_lt2p [of w] that by (simp, metis uint_ge_0 uint_0_iff order_le_less)
  then show ?case using Suc by (auto simp: Let_def split: if_splits)
qed

text \<open>C33: the answer to a path request of this node ends up in the row the request was about, whatever other
  requests are pending: its QSO number is the number of this request alone. An answer that ends
  at the destination and does not lead through this node is stored as the row's path, dated now.\<close>

theorem probe_answer_fills_row:
  assumes "flex_send_path_req_ex ev di call ssid nd ps = (ProbeSent slot nh, nd1, ps1)"
    and "0 \<le> di" "di < int (length (dests nd))"
    and "flex_parse_path_frame data = Some f" "pf_is_reply f" "pf_qso f = pp_qso (probes ps1 ! slot)"
    and "\<not> flex_chain_has_call (pf_hops f) (flex_normalize_callsign (e_conv ev') (e_mycall ev') 20)"
    and "flex_chain_ends_at (pf_hops f) (d_callsign (dests nd ! nat di)) (d_ssid_lo (dests nd ! nat di))
      (d_ssid_hi (dests nd ! nat di))"
  shows "dest_path (dests (fst (flex_handle_path_rep ev' l data nd1 ps1)) ! nat di) = pf_hops f \<and>
    d_path_updated (dests (fst (flex_handle_path_rep ev' l data nd1 ps1)) ! nat di) = e_now ev'"
proof -
  obtain si nd0 where ps: "flex_probe_session ev di (target_full call ssid) nd = (Some si, nd0)"
    using assms(1) by (cases "flex_probe_session ev di (target_full call ssid) nd"; cases "fst (flex_probe_session ev di (target_full call ssid) nd)")
      (auto simp: flex_send_path_req_ex_def split: option.splits)
  obtain qso c where q: "next_qso 65536 (probes ps) (qso_counter ps) = (qso, c)" by fastforce
  define pr where "pr = path_probe0\<lparr>pp_active := True, pp_qso := qso, pp_target_call := take 9 call,
    pp_target_ssid := ssid, pp_dest_index := di, pp_sent_time := e_now ev\<rparr>"
  have r: "first_idx (\<lambda>p. \<not> pp_active p) (probes ps) = Some slot" "qso \<noteq> 0"
    "probes ps1 = (probes ps)[slot := pr]" "dests nd1 = dests nd0"
    using assms(1) unfolding pr_def
    by (auto simp: flex_send_path_req_ex_def ps q Let_def flex_send_frame_def split: option.splits if_splits)
  have slot: "slot < length (probes ps)" using first_idx_SomeD [OF r(1)] by simp
  have f: "pf_qso f = qso" using assms(6) slot by (simp add: r(3) pr_def)
  have "\<not> qso_taken (probes ps) qso" using next_qso_fresh [OF q r(2)] by simp
  then have none: "\<not> (pp_active p \<and> pp_qso p = qso)" if "p \<in> set (probes ps)" for p
    using that by (auto simp: qso_taken_def list_ex_iff)
  have found: "first_idx (\<lambda>p. pp_active p \<and> pp_qso p = qso) (probes ps1) = Some slot"
  proof (rule first_idx_eqI)
    show "\<not> (pp_active (probes ps1 ! j) \<and> pp_qso (probes ps1 ! j) = qso)" if "j < slot" for j
      using none [of "probes ps ! j"] that slot by (simp add: r(3))
  qed (use slot in \<open>simp_all add: r(3) pr_def\<close>)
  let ?d = "dests nd1 ! nat di" and ?hs = "pf_hops f"
  have row: "d_callsign ?d = d_callsign (dests nd ! nat di)" "d_ssid_lo ?d = d_ssid_lo (dests nd ! nat di)"
    "d_ssid_hi ?d = d_ssid_hi (dests nd ! nat di)" "length (dests nd1) = length (dests nd)"
    using probe_session_rows [of ev di "target_full call ssid" nd] assms(2,3) by (auto simp: ps r(4))
  have v: "answer_verdict ev' nd1 (probes ps1 ! slot) ?hs = SPROBE_ANSWERED"
    using assms(7,8) slot by (simp add: answer_verdict_def r(3) pr_def row)
  have "?hs \<noteq> []" using assms(8) by (simp add: flex_chain_ends_at_def)
  from parsed_calls_ok(2) [OF assms(4) this] have t: "map (take 9) ?hs = ?hs"
    by (intro map_idI) (simp add: call_ok_def)
  have n: "nat di < length (dests nd)" using assms(2,3) by linarith
  define nd2 where "nd2 = fst (cache_answer ev' (probes ps1 ! slot) ?hs nd1 ps1)"
  have "row_paths nd2 ! nat di = (int (length ?hs), ?hs @ drop (length ?hs) (d_path_hops ?d), e_now ev')"
    using assms(2,3) n row(4) slot
    by (simp add: nd2_def cache_answer_def r(3) pr_def Let_def row_paths_def store_hops_def t)
  moreover have "row_paths (fst (flex_handle_path_rep ev' l data nd1 ps1)) = row_paths nd2"
    using assms(4,5)
    by (simp add: flex_handle_path_rep_def f found Let_def v nd2_def paths_replay split: prod.split)
  moreover have "length (row_paths nd2) = length (dests nd)"
    by (simp add: nd2_def cache_answer_def row_paths_def Let_def row(4))
  ultimately show ?thesis
    using n row_paths_nth [of "nat di" "fst (flex_handle_path_rep ev' l data nd1 ps1)"] by (simp add: dest_path_def)
qed

text \<open>The operator asks for DB0FAA, routed through the second neighbour.\<close>

definition asked :: "probe_result \<times> node \<times> path_state" where
  "asked = flex_send_path_req_ex demo_env 0 ''DB0FAA'' 0 relay_node path_state0"

definition asked_frame :: path_frame where
  "asked_frame = \<lparr>pf_is_reply = True, pf_qso = 1, pf_trace = False, pf_hop_count = 3, pf_origin = ''IR2UFV'',
     pf_hops = [''IW2OHX-12'', ''DB0FAA'']\<rparr>"

lemma first_qso: "next_qso 65536 (probes path_state0) (qso_counter path_state0) = (1, 1)"
  using next_qso.simps(2) [of 65535 "probes path_state0" 0]
  by (simp add: path_state0_def qso_taken_def list_ex_iff path_probe0_def)

lemma asked_parts:
  "first_idx (\<lambda>p. \<not> pp_active p) (probes path_state0) = Some 0"
  "flex_probe_session demo_env 0 (target_full ''DB0FAA'' 0) relay_node = (Some 1, relay_node)"
  "s_LINK (sessions relay_node ! 1) = Some 1" "trim_sp (e_conv demo_env (link_call relay_node 1)) = ''IW2OHX-12''"
  "flex_build_path_req 128 1 False (own_call demo_env) ''IW2OHX-12'' (target_full ''DB0FAA'' 0) \<noteq> None"
  "length (probes path_state0) = 8"
  by code_simp+

lemma asked_sent: "fst asked = ProbeSent 0 ''IW2OHX-12''" "pp_qso (probes (snd (snd asked)) ! 0) = 1"
  using asked_parts(5,6) first_qso
  by (auto simp: asked_def flex_send_path_req_ex_def asked_parts(1,2) asked_parts(3,4) [unfolded One_nat_def] Let_def)

lemma asked_answer: "flex_parse_path_frame (CHR ''7'' # CHR 0x23 # qso_field 1 False @ ''IR2UFV IW2OHX-12 DB0FAA'') = Some asked_frame"
  by code_simp

lemma asked_chain:
  "\<not> flex_chain_has_call (pf_hops asked_frame) (flex_normalize_callsign (e_conv demo_env) (e_mycall demo_env) 20)"
  "flex_chain_ends_at (pf_hops asked_frame) (d_callsign (dests relay_node ! nat 0)) (d_ssid_lo (dests relay_node ! nat 0))
      (d_ssid_hi (dests relay_node ! nat 0))"
  "0 < int (length (dests relay_node))"
  by code_simp+

theorem probe_answer_fills_row_witness:
  "dest_path (dests (fst (flex_handle_path_rep demo_env 1 (CHR ''7'' # CHR 0x23 # qso_field 1 False @ ''IR2UFV IW2OHX-12 DB0FAA'')
     (fst (snd asked)) (snd (snd asked)))) ! nat 0) = pf_hops asked_frame \<and>
   d_path_updated (dests (fst (flex_handle_path_rep demo_env 1 (CHR ''7'' # CHR 0x23 # qso_field 1 False @ ''IR2UFV IW2OHX-12 DB0FAA'')
     (fst (snd asked)) (snd (snd asked)))) ! nat 0) = e_now demo_env"
proof (rule probe_answer_fills_row [OF _ order_refl asked_chain(3) asked_answer _ _ asked_chain(1,2)])
  show "flex_send_path_req_ex demo_env 0 ''DB0FAA'' 0 relay_node path_state0 =
      (ProbeSent 0 ''IW2OHX-12'', fst (snd asked), snd (snd asked))"
    using asked_sent(1) unfolding asked_def by (metis prod.collapse)
  show "pf_is_reply asked_frame" by (simp add: asked_frame_def)
  show "pf_qso asked_frame = pp_qso (probes (snd (snd asked)) ! 0)" unfolding asked_sent(2) by (simp add: asked_frame_def)
qed

end
