(* ===== verification/Flex_Digi_Props.thy ===== *)
theory Flex_Digi_Props
  imports Flex_Digi Flex_L2_Props
begin

unbundle bit_operations_syntax

text \<open>
  Correctness of the digipeater part of layer 2, over frames as lists of addresses (Flex_L2_Props): what
  is delivered and what leaves the node, and the digi chains that are too long to be delivered.
\<close>

section \<open>Marking a digi\<close>

definition set_h :: "byte list \<Rightarrow> byte list" where
  "set_h a = a[6 := (a ! 6) OR 0x80]"

definition repeated :: "byte list \<Rightarrow> bool" where
  "repeated a \<longleftrightarrow> (a ! 6) AND 0x80 \<noteq> 0"

lemma byte_h_bits:
  fixes x :: byte
  shows "(x OR 0x80) AND 0x80 \<noteq> 0" "(x OR 0x80) AND 0x01 = x AND 0x01" "(x OR 0x01) OR 0x80 = (x OR 0x80) OR 0x01"
proof -
  show "(x OR 0x80) AND 0x80 \<noteq> 0" "(x OR 0x80) AND 0x01 = x AND 0x01" by (simp_all add: bit.conj_disj_distrib2)
  show "(x OR 0x01) OR 0x80 = (x OR 0x80) OR 0x01" by (simp add: or.assoc or.commute)
qed

lemma plain_set_h [simp]: "plain_entry a \<Longrightarrow> plain_entry (set_h a)"
  by (simp add: plain_entry_def set_h_def byte_h_bits)

lemma repeated_set_h [simp]: "length a = 7 \<Longrightarrow> repeated (set_h a)"
  by (simp add: repeated_def set_h_def byte_h_bits)

lemma set_end_set_h: "length a = 7 \<Longrightarrow> set_end (set_h a) = (set_end a)[6 := (set_end a ! 6) OR 0x80]"
  by (simp add: set_end_def set_h_def byte_h_bits)

lemma concat_update7:
  "\<forall>a \<in> set xs. length a = 7 \<Longrightarrow> j < length xs \<Longrightarrow> k < 7 \<Longrightarrow>
    (concat xs)[7 * j + k := v] = concat (xs[j := (xs ! j)[k := v]])"
proof (induction xs arbitrary: j)
  case Nil
  then show ?case by simp
next
  case (Cons x xs)
  then show ?case by (cases j) (simp_all add: list_update_append)
qed

lemma mark_end_set_h:
  assumes "list_all plain_entry as" "j < length as"
  shows "mark_end (as[j := set_h (as ! j)]) = (mark_end as)[j := (mark_end as ! j)[6 := (mark_end as ! j ! 6) OR 0x80]]"
proof (rule nth_equalityI)
  have ne: "as \<noteq> []" using assms(2) by auto
  then show "length (mark_end (as[j := set_h (as ! j)])) =
      length ((mark_end as)[j := (mark_end as ! j)[6 := (mark_end as ! j ! 6) OR 0x80]])" by simp
  fix k assume "k < length (mark_end (as[j := set_h (as ! j)]))"
  then have k: "k < length as" using ne by simp
  have "length (as ! j) = 7" using assms by (simp add: list_all_length plain_entry_def)
  then show "mark_end (as[j := set_h (as ! j)]) ! k =
      (mark_end as)[j := (mark_end as ! j)[6 := (mark_end as ! j ! 6) OR 0x80]] ! k"
    using k assms(2) ne set_end_set_h [of "as ! j"]
    by (cases "k = j"; cases "j = length as - 1") (simp_all add: mark_end_nth, simp_all add: set_h_def)
qed

lemma mark_frame:
  assumes "frame_is m as t" "j < length as"
  shows "frame_is (mark_hop (7 * j) m) (as[j := set_h (as ! j)]) t"
proof -
  have f: "2 \<le> length as" "length as \<le> 10" "list_all plain_entry as" "m_len m = int (7 * length as + length t)"
    "m_len m \<le> int (length (m_buf m))" "FLEXNET_L2_MAX_FRAME \<le> int (length (m_buf m))"
    "take (7 * length as + length t) (m_buf m) = concat (mark_end as) @ t"
    using assms(1) by (simp_all add: frame_is_def)
  have ne: "as \<noteq> []" using assms(2) by auto
  have len7: "\<forall>a \<in> set (mark_end as). length a = 7" by (rule mark_end_len7 [OF ne f(3)])
  let ?v = "(m_buf m ! (7 * j + 6)) OR 0x80"
  have v: "?v = (mark_end as ! j ! 6) OR 0x80" using frame_byte6 [OF assms] by simp
  have len: "length (concat (mark_end as)) = 7 * length as" using length_concat7 [OF len7] ne by simp
  have "take (7 * length as + length t) ((m_buf m)[7 * j + 6 := ?v]) = (concat (mark_end as) @ t)[7 * j + 6 := ?v]"
    by (simp add: take_update_swap f(7))
  also have "\<dots> = (concat (mark_end as))[7 * j + 6 := ?v] @ t"
    using assms(2) len by (simp add: list_update_append)
  also have "(concat (mark_end as))[7 * j + 6 := ?v] = concat (mark_end (as[j := set_h (as ! j)]))"
    using concat_update7 [OF len7, of j 6 ?v] assms(2) ne f(3) by (simp add: mark_end_set_h v)
  finally have "take (7 * length as + length t) ((m_buf m)[7 * j + 6 := ?v]) =
      concat (mark_end (as[j := set_h (as ! j)])) @ t" .
  moreover have "list_all plain_entry (as[j := set_h (as ! j)])"
    using f(3) assms(2) by (auto simp: list_all_length nth_list_update)
  ultimately show ?thesis using f by (simp add: frame_is_def mark_hop_def)
qed

lemma frame_repeated:
  assumes "frame_is m as t" "k < length as"
  shows "(m_buf m ! (7 * k + 6)) AND 0x80 \<noteq> 0 \<longleftrightarrow> repeated (as ! k)"
  unfolding frame_byte6 [OF assms] mark_end_nth [OF assms(2)] repeated_def
  using set_end_h_bit [OF frame_plain [OF assms]] by (cases "k = length as - 1") simp_all

section \<open>Digi chains that are done\<close>

lemma walk_done:
  assumes "frame_is m as t" "\<forall>i. 2 \<le> i \<and> i < length as \<longrightarrow> repeated (as ! i)" "1 \<le> k" "k < length as"
  shows "l2_digis al ev port n (7 * k) m nd st =
    (if length as - k \<le> n then RxLocal (7 * length as) m else RxReleased, nd, st)"
  using assms(3,4)
proof (induction n arbitrary: k)
  case 0
  then show ?case by simp
next
  case (Suc n)
  have e: "end_bit m (7 * k) \<longleftrightarrow> k = length as - 1" by (rule frame_end_bit [OF assms(1) Suc.prems(2)])
  show ?case
  proof (cases "k = length as - 1")
    case True
    then show ?thesis using e Suc.prems by (simp add: algebra_simps)
  next
    case False
    then have k: "Suc k < length as" "1 \<le> Suc k" using Suc.prems by linarith+
    have "(m_buf m ! (7 * k + 7 + 6)) AND 0x80 \<noteq> 0"
      using frame_repeated [OF assms(1) k(1)] assms(2) k Suc.prems by (simp add: algebra_simps)
    moreover have "l2_digis al ev port n (7 * k + 7) m nd st =
        (if length as - Suc k \<le> n then RxLocal (7 * length as) m else RxReleased, nd, st)"
      using Suc.IH [OF k(2,1)] by (simp add: algebra_simps)
    ultimately show ?thesis using e False Suc.prems by auto
  qed
qed

text \<open>C29: a frame all of whose digis have repeated it is handled by this node, its control field right behind
  the addresses, and neither the frame nor the forwarding state is touched; but only up to seven
  digis: the count of eight is used up by an eighth, and a frame with the eight digis AX.25 allows
  is dropped.\<close>

theorem done_chain_delivered:
  assumes "frame_is m as t" "\<forall>i. 2 \<le> i \<and> i < length as \<longrightarrow> repeated (as ! i)"
    and "CheckExcludeList ex (entry_at m 7)"
  shows "l2_receive al ex ev port m nd st =
    (if length as \<le> 9 then RxLocal (7 * length as) m else RxReleased, nd, st)"
proof -
  have "1 < length as" using assms(1) by (simp add: frame_is_def)
  then show ?thesis using walk_done [OF assms(1,2), of 1 al ev port 8 nd st] assms(3)
    by (auto simp: l2_receive_def)
qed

section \<open>What leaves the node\<close>

text \<open>
  Specification, on the frame as the list of its addresses (destination, source, digis): is digi \<open>i\<close> this
  node, is the frame of an active link, may digi \<open>i\<close> of another call be served on a port.
\<close>

definition own_digi :: "aliases \<Rightarrow> env \<Rightarrow> digi_port \<Rightarrow> byte list list \<Rightarrow> nat \<Rightarrow> bool" where
  "own_digi al ev port as i \<longleftrightarrow> digi_is_ours al ev port (mark_end as ! i)"

definition linked :: "env \<Rightarrow> digi_port \<Rightarrow> node \<Rightarrow> byte list list \<Rightarrow> bool" where
  "linked ev port nd as \<longleftrightarrow> fst (FindLink ev nd (as ! 1) (as ! 0) (p_num port))"

definition cross_digi :: "env \<Rightarrow> digi_port \<Rightarrow> byte list list \<Rightarrow> nat \<Rightarrow> bool" where
  "cross_digi ev port as i \<longleftrightarrow> (\<exists>x \<in> set (d_xdigis port). e_cmp ev (mark_end as ! i) (fst x))"

text \<open>
  The addresses \<open>bs\<close> of the frame when the walk has passed digi \<open>k\<close>: every digi up to it has repeated the
  frame as received, or is this node's in a frame of an active link and is marked now; nothing else has
  changed.
\<close>

definition passed :: "aliases \<Rightarrow> env \<Rightarrow> digi_port \<Rightarrow> node \<Rightarrow> byte list list \<Rightarrow> nat \<Rightarrow> byte list list \<Rightarrow> bool" where
  "passed al ev port nd as k bs \<longleftrightarrow> length bs = length as \<and> (\<forall>i < length as.
     if 2 \<le> i \<and> i \<le> k
     then repeated (as ! i) \<and> bs ! i = as ! i \<or>
          \<not> repeated (as ! i) \<and> own_digi al ev port as i \<and> linked ev port nd as \<and> bs ! i = set_h (as ! i)
     else bs ! i = as ! i)"

text \<open>Delivered: all digis are passed; the last may also be this node, before a local call.\<close>

definition delivered_as :: "aliases \<Rightarrow> env \<Rightarrow> digi_port \<Rightarrow> node \<Rightarrow> byte list list \<Rightarrow> byte list \<Rightarrow> nat \<Rightarrow> l2_msg \<Rightarrow> bool" where
  "delivered_as al ev port nd as t a m' \<longleftrightarrow> a = 7 * length as \<and> (\<exists>bs e. e = length as - 1 \<and>
     (passed al ev port nd as e bs \<and> frame_is m' bs t \<or>
      2 \<le> e \<and> \<not> repeated (as ! e) \<and> own_digi al ev port as e \<and> FlexNet_IsLocalCall ev nd (as ! 0) \<and>
      passed al ev port nd as (e - 1) bs \<and> frame_is m' (bs[e := set_h (as ! e)]) t))"

text \<open>
  Sent: digi \<open>j\<close> is the first that is not passed, and is now marked. It is another call that a port table
  of this node names, or it is this node; then, beside that, the next hop may stand behind it as the last
  digi, or a hop that the circuit table recorded may be gone from before it.
\<close>

definition sent_as :: "aliases \<Rightarrow> env \<Rightarrow> digi_port \<Rightarrow> node \<Rightarrow> l2_state \<Rightarrow> byte list list \<Rightarrow> byte list \<Rightarrow> l2_msg \<Rightarrow> bool" where
  "sent_as al ev port nd st as t m' \<longleftrightarrow> (\<exists>j bs cs. 2 \<le> j \<and> j < length as \<and> \<not> repeated (as ! j) \<and>
     passed al ev port nd as (j - 1) bs \<and> cs = bs[j := set_h (as ! j)] \<and>
     (\<not> own_digi al ev port as j \<and> cross_digi ev port as j \<and> frame_is m' cs t \<or>
      own_digi al ev port as j \<and> \<not> linked ev port nd as \<and>
        (frame_is m' cs t \<or>
         j = length as - 1 \<and> length as \<le> 9 \<and>
           (\<exists>h. length h = 7 \<and> (\<forall>a \<in> set bs. \<not> flex_l2_same_call a h) \<and> frame_is m' (cs @ [hop_entry h]) t) \<or>
         3 \<le> j \<and> recorded_hop st bs (j - 1) \<and> frame_is m' (without (j - 1) cs) t)))"

definition rx_ok :: "aliases \<Rightarrow> env \<Rightarrow> digi_port \<Rightarrow> node \<Rightarrow> l2_state \<Rightarrow> byte list list \<Rightarrow> byte list \<Rightarrow> l2_rx \<Rightarrow> bool" where
  "rx_ok al ev port nd st as t r = (case r of RxReleased \<Rightarrow> True
     | RxLocal a m' \<Rightarrow> delivered_as al ev port nd as t a m'
     | RxQueued q h m' \<Rightarrow> sent_as al ev port nd st as t m' | RxMulti m' \<Rightarrow> sent_as al ev port nd st as t m')"

lemma passed_nth:
  "passed al ev port nd as k bs \<Longrightarrow> i < length as \<Longrightarrow> k < i \<or> i < 2 \<Longrightarrow> bs ! i = as ! i"
  by (auto simp: passed_def split: if_splits)

lemma passed_length: "passed al ev port nd as k bs \<Longrightarrow> length bs = length as"
  by (simp add: passed_def)

lemma passed_wire:
  "passed al ev port nd as k bs \<Longrightarrow> i < length as \<Longrightarrow> k < i \<Longrightarrow> mark_end bs ! i = mark_end as ! i"
  by (simp add: mark_end_nth passed_length passed_nth)

lemma passed_start: "passed al ev port nd as 1 as"
  by (auto simp: passed_def)

lemma passed_step:
  assumes "passed al ev port nd as k bs" "1 \<le> k" "Suc k < length as"
  shows "repeated (as ! Suc k) \<Longrightarrow> passed al ev port nd as (Suc k) bs"
    and "\<not> repeated (as ! Suc k) \<Longrightarrow> own_digi al ev port as (Suc k) \<Longrightarrow> linked ev port nd as \<Longrightarrow>
      passed al ev port nd as (Suc k) (bs[Suc k := set_h (as ! Suc k)])"
proof -
  have len: "length bs = length as" by (rule passed_length [OF assms(1)])
  have p: "if 2 \<le> i \<and> i \<le> k
     then repeated (as ! i) \<and> bs ! i = as ! i \<or>
          \<not> repeated (as ! i) \<and> own_digi al ev port as i \<and> linked ev port nd as \<and> bs ! i = set_h (as ! i)
     else bs ! i = as ! i" if "i < length as" for i using assms(1) that unfolding passed_def by blast
  have k: "bs ! Suc k = as ! Suc k" by (rule passed_nth [OF assms(1,3)]) simp
  show "passed al ev port nd as (Suc k) bs" if r: "repeated (as ! Suc k)"
    unfolding passed_def
  proof (intro conjI allI impI)
    fix i assume i: "i < length as"
    show "if 2 \<le> i \<and> i \<le> Suc k
      then repeated (as ! i) \<and> bs ! i = as ! i \<or>
          \<not> repeated (as ! i) \<and> own_digi al ev port as i \<and> linked ev port nd as \<and> bs ! i = set_h (as ! i)
      else bs ! i = as ! i"
      by (cases "i = Suc k") (use p [OF i] k r in \<open>simp_all add: le_Suc_eq\<close>)
  qed (rule len)
  show "passed al ev port nd as (Suc k) (bs[Suc k := set_h (as ! Suc k)])"
    if r: "\<not> repeated (as ! Suc k)" "own_digi al ev port as (Suc k)" "linked ev port nd as"
    unfolding passed_def
  proof (intro conjI allI impI)
    fix i assume i: "i < length as"
    show "if 2 \<le> i \<and> i \<le> Suc k
      then repeated (as ! i) \<and> bs[Suc k := set_h (as ! Suc k)] ! i = as ! i \<or>
          \<not> repeated (as ! i) \<and> own_digi al ev port as i \<and> linked ev port nd as \<and>
          bs[Suc k := set_h (as ! Suc k)] ! i = set_h (as ! i)
      else bs[Suc k := set_h (as ! Suc k)] ! i = as ! i"
      by (cases "i = Suc k") (use p [OF i] k r len assms(2,3) in \<open>auto simp: le_Suc_eq\<close>)
  qed (simp add: len)
qed

text \<open>Digipeating marks one entry and decides on the port only.\<close>

lemma digipeat_marks:
  assumes "frame_is m bs t" "j < length bs"
    and "\<And>m'. frame_is m' (bs[j := set_h (bs ! j)]) t \<Longrightarrow> sent_as al ev port nd st as t m'"
  shows "rx_ok al ev port nd st as t (Digipeat ev port m (7 * j) p u)"
  using assms(3) [OF mark_frame [OF assms(1,2)]]
  by (auto simp: rx_ok_def Digipeat_def Let_def cross_band_def put_on_port_def split: option.split)

lemma transit_ok:
  assumes "frame_is m bs t" "2 \<le> j" "j < length as" "passed al ev port nd as (j - 1) bs" "\<not> repeated (as ! j)"
    and "own_digi al ev port as j" "\<not> linked ev port nd as" "circuits_ok (circuits st)" "calls_ok nd"
  shows "rx_ok al ev port nd st as t (fst (digi_transit ev port m (7 * j) nd st)) \<and>
    circuits_ok (circuits (snd (snd (digi_transit ev port m (7 * j) nd st))))"
proof -
  define out where "out = FlexNet_L2Transit ev (l2_port.truncate port) m (7 * j) nd st"
  have len: "length bs = length as" by (rule passed_length [OF assms(4)])
  then have jb: "j < length bs" using assms(3) by simp
  have bj: "bs ! j = as ! j" by (rule passed_nth [OF assms(4,3)]) (use assms(2) in simp)
  have tr: "circuits_ok (circuits (o_st out))" "transit_result st m bs t j out"
    using transit_frame [OF assms(1,2) jb assms(8,9) out_def] by simp_all
  note sent = exI [of _ j, OF exI [of _ bs, OF exI [of _ "bs[j := set_h (as ! j)]"]]]
  show ?thesis
  proof (cases "o_verdict out")
    case L2Drop
    then show ?thesis using tr(1) by (simp add: digi_transit_def out_def [symmetric] rx_ok_def)
  next
    case (L2Send our p)
    have "rx_ok al ev port nd st as t (Digipeat ev port (o_msg out) our p u)" for u
    proof -
      consider "our = 7 * j" "o_msg out = m" | "our = 7 * j" "extended_frame m bs t j (o_msg out)"
        | "3 \<le> j" "our = 7 * (j - 1)" "recorded_hop st bs (j - 1)" "frame_is (o_msg out) (without (j - 1) bs) t"
        using tr(2) L2Send by (auto simp: transit_result_def)
      then show ?thesis
      proof cases
        case 1
        show ?thesis unfolding 1
          by (rule digipeat_marks [OF assms(1) jb], unfold sent_as_def, rule sent) (use assms bj in simp)
      next
        case 2
        obtain h where h: "length h = 7" "\<forall>a \<in> set bs. \<not> flex_l2_same_call a h" "frame_is (o_msg out) (bs @ [hop_entry h]) t"
          "j = length bs - 1" "length bs \<le> 9"
          using 2(2) by (auto simp: extended_frame_def)
        have e: "(bs @ [hop_entry h]) ! j = as ! j"
          "(bs @ [hop_entry h])[j := set_h (as ! j)] = bs[j := set_h (as ! j)] @ [hop_entry h]"
          using jb bj by (simp_all add: nth_append list_update_append)
        have last: "j = length as - 1" "length as \<le> 9" using h(4,5) len by simp_all
        show ?thesis unfolding 2(1)
          by (rule digipeat_marks [OF h(3)], use jb in simp, unfold e sent_as_def, rule sent)
            (use assms last h(1,2) in blast)
      next
        case 3
        have w: "(without (j - 1) bs)[j - 1 := set_h (without (j - 1) bs ! (j - 1))] = without (j - 1) (bs[j := set_h (as ! j)])"
          using 3(1) jb bj by (simp add: without_def nth_append list_update_append drop_update_swap)
        show ?thesis unfolding 3(2)
          by (rule digipeat_marks [OF 3(4)], use 3(1) jb in \<open>simp add: without_def\<close>, unfold w sent_as_def, rule sent)
            (use assms 3 in simp)
      qed
    qed
    then show ?thesis using tr(1) L2Send by (simp add: digi_transit_def out_def [symmetric])
  qed
qed

lemma digis_ok:
  assumes "circuits_ok (circuits st)" "calls_ok nd"
    and "frame_is m bs t" "passed al ev port nd as k bs" "1 \<le> k" "k < length as"
  shows "rx_ok al ev port nd st as t (fst (l2_digis al ev port n (7 * k) m nd st)) \<and>
    circuits_ok (circuits (snd (snd (l2_digis al ev port n (7 * k) m nd st))))"
  using assms(3-)
proof (induction n arbitrary: k m bs)
  case 0
  then show ?case using assms(1) by (simp add: rx_ok_def)
next
  case (Suc n)
  have len: "length bs = length as" by (rule passed_length [OF Suc.prems(2)])
  have e: "end_bit m (7 * k) \<longleftrightarrow> k = length as - 1" using frame_end_bit [OF Suc.prems(1)] Suc.prems(4) len by simp
  show ?case
  proof (cases "k = length as - 1")
    case True
    have "delivered_as al ev port nd as t (7 * k + 7) m"
      unfolding delivered_as_def using True Suc.prems by (auto intro!: exI [of _ bs])
    then show ?thesis using e True assms(1) by (simp add: rx_ok_def)
  next
    case False
    let ?j = "Suc k"
    let ?d = "7 * ?j" and ?bs = "bs[?j := set_h (as ! ?j)]"
    have k: "1 \<le> ?j" "?j < length as" "2 \<le> ?j" "?j - 1 = k" using Suc.prems False by linarith+
    have kb: "?j < length bs" using k len by simp
    have bj: "bs ! ?j = as ! ?j" by (rule passed_nth [OF Suc.prems(2) k(2)]) simp
    have marked: "frame_is (mark_hop ?d m) ?bs t" using mark_frame [OF Suc.prems(1) kb] bj by simp
    note ps = passed_step [OF Suc.prems(2,3) k(2)]
    have first: "bs ! 0 = as ! 0" "bs ! 1 = as ! 1"
      by (rule passed_nth [OF Suc.prems(2)]; use k in linarith)+
    have ends: "entry_at m 0 = as ! 0" "entry_at m 7 = as ! 1"
      using frame_entry_inner [OF Suc.prems(1), of 0] frame_entry_inner [OF Suc.prems(1), of 1] kb k(3) first
      by simp_all
    have wire: "entry_at m ?d = mark_end as ! ?j"
      using frame_entry [OF Suc.prems(1) kb] passed_wire [OF Suc.prems(2) k(2)] by simp
    have step: "l2_digis al ev port (Suc n) (7 * k) m nd st =
        (if repeated (as ! ?j) then l2_digis al ev port n ?d m nd st
         else if \<not> own_digi al ev port as ?j then (digi_cross ev port m ?d, nd, st)
         else if linked ev port nd as then l2_digis al ev port n ?d (mark_hop ?d m) nd st
         else if ?j = length as - 1 \<and> FlexNet_IsLocalCall ev nd (as ! 0)
         then (RxLocal (?d + 7) (mark_hop ?d m), nd, st)
         else digi_transit ev port m ?d nd st)"
    proof -
      have d: "7 * k + 7 = ?d" by simp
      have "end_bit m ?d \<longleftrightarrow> ?j = length as - 1" using frame_end_bit [OF Suc.prems(1) kb] len by simp
      then show ?thesis using e False frame_repeated [OF Suc.prems(1) kb] bj
        unfolding l2_digis.simps(2) Let_def d own_digi_def linked_def wire [symmetric] ends [symmetric] by simp
    qed
    have cross: "rx_ok al ev port nd st as t (digi_cross ev port m ?d)"
      if "\<not> repeated (as ! ?j)" "\<not> own_digi al ev port as ?j"
    proof (cases "first_idx (\<lambda>x. e_cmp ev (entry_at m ?d) (fst x)) (d_xdigis port)")
      case None
      then show ?thesis by (simp add: digi_cross_def rx_ok_def)
    next
      case (Some i)
      obtain call p u where x: "d_xdigis port ! i = (call, p, u)" by (rule prod_cases3)
      have "cross_digi ev port as ?j"
        using first_idx_SomeD [OF Some] by (auto simp: cross_digi_def wire [symmetric] intro!: bexI [of _ "d_xdigis port ! i"])
      then have "rx_ok al ev port nd st as t (Digipeat ev port m ?d p u)"
        using Suc.prems(2) that k
        by (intro digipeat_marks [OF Suc.prems(1) kb])
          (auto simp: sent_as_def bj intro!: exI [of _ ?j] exI [of _ bs])
      then show ?thesis using Some by (simp add: digi_cross_def x)
    qed
    have local: "rx_ok al ev port nd st as t (RxLocal (?d + 7) (mark_hop ?d m))"
      if "?j = length as - 1" "\<not> repeated (as ! ?j)" "own_digi al ev port as ?j" "FlexNet_IsLocalCall ev nd (as ! 0)"
      using that marked Suc.prems(2) k(3,4)
      by (auto simp: rx_ok_def delivered_as_def intro!: exI [of _ bs])
    have transit: "rx_ok al ev port nd st as t (fst (digi_transit ev port m ?d nd st)) \<and>
        circuits_ok (circuits (snd (snd (digi_transit ev port m ?d nd st))))"
      if "\<not> repeated (as ! ?j)" "own_digi al ev port as ?j" "\<not> linked ev port nd as"
      by (rule transit_ok [OF Suc.prems(1) k(3,2) _ that assms(1,2)]) (use Suc.prems(2) k(4) in simp)
    show ?thesis
      unfolding step
      using Suc.IH [OF Suc.prems(1) ps(1) k(1,2)] Suc.IH [OF marked ps(2) k(1,2)] cross local assms(1) transit
      by auto
  qed
qed

text \<open>C28: a received frame is delivered here only when every digi has repeated it, where this node marks no
  digi but itself, and only in a frame of an active link or as the last digi before a local call; nothing
  else in the frame changes. A frame leaves the node only at its first digi that has not repeated it, which
  is then marked: this node itself, or a call that a table of the port assigns to another port. Source,
  destination, the digis behind and what follows the addresses are as received, except that the hook may
  append one next hop not yet in the chain, or remove the recorded hop right before this node.\<close>

theorem reception_marks_chain:
  assumes "frame_is m as t" "circuits_ok (circuits st)" "calls_ok nd"
  shows "case fst (l2_receive al ex ev port m nd st) of
      RxReleased \<Rightarrow> True
    | RxLocal a m' \<Rightarrow> delivered_as al ev port nd as t a m'
    | RxQueued q h m' \<Rightarrow> sent_as al ev port nd st as t m'
    | RxMulti m' \<Rightarrow> sent_as al ev port nd st as t m'"
proof -
  have "1 < length as" using assms(1) by (simp add: frame_is_def)
  then have "rx_ok al ev port nd st as t (fst (l2_digis al ev port 8 (7 * 1) m nd st))"
    by (intro conjunct1 [OF digis_ok [OF assms(2,3,1) passed_start]]) simp_all
  then show ?thesis by (simp add: l2_receive_def rx_ok_def)
qed

section \<open>The hypotheses can hold\<close>

definition digi_demo_port :: digi_port where
  "digi_demo_port = l2_port.extend l2_demo_port \<lparr>d_alias = demo_call 0x90, d_alias2 = demo_call 0x92, d_digiport = 0,
     d_digimask = 0, d_xdigis = []\<rparr>"

definition demo_aliases :: aliases where
  "demo_aliases = \<lparr>a_same = (\<lambda>a b. take 6 a = take 6 b), a_mine = demo_call 0x94\<rparr>"

text \<open>The frame the forwarding extends leaves the node; with its digi repeated it is delivered.\<close>

lemma digi_demo_sent:
  "case fst (l2_receive demo_aliases [] l2_demo_env digi_demo_port l2_demo_msg l2_demo_node l2_state0) of
     RxQueued q h m' \<Rightarrow> q = 1 \<and> h = 1 \<and> m_len m' = 29 | _ \<Rightarrow> False"
  by code_simp

theorem reception_marks_chain_witness:
  "case fst (l2_receive demo_aliases [] l2_demo_env digi_demo_port l2_demo_msg l2_demo_node l2_state0) of
      RxQueued q h m' \<Rightarrow> sent_as demo_aliases l2_demo_env digi_demo_port l2_demo_node l2_state0
        [demo_call 0x80, demo_call 0x82, demo_call 0x84] [0x3F] m' \<and> m_len m' = 29
    | _ \<Rightarrow> False"
  using reception_marks_chain [OF demo_chain_is [folded l2_demo_msg_def] circuits_ok_start l2_demo_calls,
      where al = demo_aliases and ex = "[]" and ev = l2_demo_env and port = digi_demo_port] digi_demo_sent
  by (auto split: l2_rx.splits)

definition done_digi :: "byte list" where
  "done_digi = set_h (demo_call 0x84)"

lemma done_chain_is:
  "n \<le> 8 \<Longrightarrow> frame_is (demo_frame ([demo_call 0x80, demo_call 0x82] @ replicate n done_digi) [0x3F])
     ([demo_call 0x80, demo_call 0x82] @ replicate n done_digi) [0x3F]"
  by (rule demo_frame_is) (auto simp: done_digi_def set_h_def demo_call_def plain_entry_def list_all_iff)

lemma done_chain_repeated:
  "\<forall>i. 2 \<le> i \<and> i < length ([demo_call 0x80, demo_call 0x82] @ replicate n done_digi) \<longrightarrow>
     repeated (([demo_call 0x80, demo_call 0x82] @ replicate n done_digi) ! i)"
  by (auto simp: nth_append nth_Cons' done_digi_def repeated_def set_h_def demo_call_def)

text \<open>Seven digis are delivered, eight are not.\<close>

theorem done_chain_delivered_witness:
  "fst (l2_receive demo_aliases [] l2_demo_env digi_demo_port
      (demo_frame ([demo_call 0x80, demo_call 0x82] @ replicate 7 done_digi) [0x3F]) l2_demo_node l2_state0) =
    RxLocal 63 (demo_frame ([demo_call 0x80, demo_call 0x82] @ replicate 7 done_digi) [0x3F]) \<and>
   fst (l2_receive demo_aliases [] l2_demo_env digi_demo_port
      (demo_frame ([demo_call 0x80, demo_call 0x82] @ replicate 8 done_digi) [0x3F]) l2_demo_node l2_state0) = RxReleased"
proof -
  have c: "CheckExcludeList [] call" for call by (simp add: CheckExcludeList_def)
  show ?thesis
    using done_chain_delivered [OF done_chain_is done_chain_repeated c, of 7 demo_aliases l2_demo_env digi_demo_port l2_demo_node l2_state0]
      done_chain_delivered [OF done_chain_is done_chain_repeated c, of 8 demo_aliases l2_demo_env digi_demo_port l2_demo_node l2_state0]
    by simp
qed

end
