(* ===== verification/Flex_Links.thy ===== *)
theory Flex_Links
  imports Flex_Cmd Flex_L2
begin

text \<open>
  The command FL (FlexNetCode.c, \<open>FlexNet_CmdLinks\<close>): the table of the node's links in the layout of
  (X)Net, and below it, with "FL +", the FlexNet detail. The counters of an AX.25 link and the NET/ROM
  tables are LinBPQ's and are passed as records; a \<open>double\<close> is a rational, and \<open>printf\<close>
  rounds it to the nearest decimal, ties to even.
\<close>

section \<open>Cells\<close>

definition FLEX_FL_MAX_ROWS :: nat where "FLEX_FL_MAX_ROWS = 128"

definition round_even :: "rat \<Rightarrow> int" where
  "round_even q =
     (let f = floor q; r = q - of_int f in
      if r < 1 / 2 then f else if r > 1 / 2 then f + 1 else if even f then f else f + 1)"

text \<open>\<open>%.1f\<close> and \<open>%.2f\<close> of a value that is not negative.\<close>

definition fixed1 :: "rat \<Rightarrow> string" where
  "fixed1 q = (let t = round_even (10 * q) in dec_of_int (t div 10) @ ''.'' @ dec_of_int (t mod 10))"

definition fixed2 :: "rat \<Rightarrow> string" where
  "fixed2 q = (let t = round_even (100 * q)
               in dec_of_int (t div 100) @ ''.'' @ dec_of_int (t mod 100 div 10) @ dec_of_int (t mod 10))"

definition two_digits :: "int \<Rightarrow> string" where
  "two_digits n = (if 0 \<le> n \<and> n < 10 then CHR ''0'' # dec_of_int n else dec_of_int n)"

definition flex_format_uptime :: "int \<Rightarrow> string" where
  "flex_format_uptime elapsed =
     (let e = max 0 elapsed; days = e div 86400; hrs = e mod 86400 div 3600; mins = e mod 3600 div 60; secs = e mod 60
      in take 15 (if days > 0 then dec_of_int days @ ''d '' @ two_digits hrs @ '':'' @ two_digits mins
         else two_digits hrs @ '':'' @ two_digits mins @ '':'' @ two_digits secs))"

definition flex_fl_qt_cell :: "nat \<Rightarrow> int \<Rightarrow> string" where
  "flex_fl_qt_cell samples link_time = take 7 (if samples = 0 then ''-'' else dec_of_int link_time)"

text \<open>The unit: K for the first division by 1024, at most T.\<close>

fun scale_bytes :: "nat \<Rightarrow> rat \<Rightarrow> nat \<Rightarrow> rat \<times> nat" where
  "scale_bytes 0 d u = (d, u)"
| "scale_bytes (Suc n) d u = (if d \<ge> 1999 / 2 then scale_bytes n (d / 1024) (u + 1) else (d, u))"

definition flex_fl_bytes :: "int \<Rightarrow> string" where
  "flex_fl_bytes v =
     take 7 (let v = max 0 v in
      if v < 1000 then lpad 3 (dec_of_int v) @ [SP]
      else case scale_bytes 3 (of_int v / 1024) 0 of
        (d, u) \<Rightarrow> (if d < 199 / 20 then lpad 3 (fixed1 d) else lpad 3 (dec_of_int (round_even d))) @ [''KMGT'' ! u])"

definition flex_fl_connect :: "int \<Rightarrow> string" where
  "flex_fl_connect secs =
     (let s = max 0 secs in
      take 15 (if s < 3600 then dec_of_int (s div 60) @ ''m '' @ two_digits (s mod 60) @ ''s''
        else if s < 86400 then dec_of_int (s div 3600) @ ''h '' @ two_digits (s mod 3600 div 60) @ ''m''
        else dec_of_int (s div 86400) @ ''d '' @ two_digits (s mod 86400 div 3600) @ ''h''))"

definition flex_fl_pct :: "int \<Rightarrow> int \<Rightarrow> int" where
  "flex_fl_pct good bad = (let g = max 0 good; b = max 0 bad in if g + b = 0 then 100 else g * 100 div (g + b))"

definition flex_fl_rr_tenths :: "int \<Rightarrow> int \<Rightarrow> int" where
  "flex_fl_rr_tenths polls iframes =
     (let p = max 0 polls; n = p + max 0 iframes in if n = 0 then 0 else (p * 1000 + n div 2) div n)"

definition flex_fl_ticks_10ms :: "int \<Rightarrow> int" where
  "flex_fl_ticks_10ms v = (if v \<le> 0 then -1 else (v + 5) div 10)"

definition flex_fl_qt_avg :: "int \<Rightarrow> int \<Rightarrow> bool \<Rightarrow> int" where
  "flex_fl_qt_avg own peer floor_one =
     (if own < 0 \<and> peer < 0 then -1
      else let v = (if own < 0 then peer else if peer < 0 then own else (own + peer + 1) div 2)
           in if floor_one \<and> v < 1 then 1 else v)"

definition flex_fl_num :: "int \<Rightarrow> string" where
  "flex_fl_num v = take 7 (if v < 0 then ''-'' else dec_of_int v)"

section \<open>Rows\<close>

record fl_row =
  fl_group :: int
  fl_port :: int
  fl_call :: string
  fl_dst :: int
  fl_type :: char
  fl_qt :: int
  fl_rtt_own :: int
  fl_rtt_peer :: int
  fl_up :: bool
  fl_queued :: int
  fl_connect_s :: int
  fl_tx_bytes :: int
  fl_rx_bytes :: int
  fl_txq :: int
  fl_rxq :: int
  fl_rr_tenths :: int
  fl_bps :: int

text \<open>\<open>memset(r, 0, sizeof(*r))\<close>.\<close>

definition fl_row0 :: fl_row where
  "fl_row0 = \<lparr>fl_group = 0, fl_port = 0, fl_call = '''', fl_dst = 0, fl_type = CHR 0x00, fl_qt = 0, fl_rtt_own = 0,
     fl_rtt_peer = 0, fl_up = False, fl_queued = 0, fl_connect_s = 0, fl_tx_bytes = 0, fl_rx_bytes = 0, fl_txq = 0,
     fl_rxq = 0, fl_rr_tenths = 0, fl_bps = 0\<rparr>"

definition flex_fl_format_row :: "fl_row \<Rightarrow> string" where
  "flex_fl_format_row r =
     (let head = lpad 2 (dec_of_int (fl_port r)) @ '':'' @ rpad 9 (take 9 (fl_call r)) @ [SP] @
            lpad 4 (if fl_dst r \<ge> 0 then take 7 (dec_of_int (fl_dst r)) else '''') @ [SP, fl_type r, SP] @
            lpad 3 (flex_fl_num (fl_qt r)) @ [SP] @ lpad 3 (flex_fl_num (fl_rtt_own r)) @ ''/'' @
            rpad 3 (flex_fl_num (fl_rtt_peer r))
      in take 127 (if \<not> fl_up r then head @ ''   -  - - -     -    -     -/-     -.-      -''
         else head @ [SP] @ lpad 3 (flex_fl_num (fl_queued r)) @ [SP] @ lpad 7 (flex_fl_connect (fl_connect_s r)) @
           ''  '' @ lpad 4 (flex_fl_bytes (fl_tx_bytes r)) @ [SP] @ lpad 4 (flex_fl_bytes (fl_rx_bytes r)) @ [SP] @
           lpad 4 (take 7 (dec_of_int (fl_txq r))) @ ''/'' @ rpad 3 (dec_of_int (fl_rxq r)) @ [SP] @
           lpad 5 (dec_of_int (fl_rr_tenths r div 10) @ ''.'' @ dec_of_int (fl_rr_tenths r mod 10)) @ [SP] @
           lpad 6 (dec_of_int (fl_bps r))))"

definition flex_fl_row_cmp :: "fl_row \<Rightarrow> fl_row \<Rightarrow> int" where
  "flex_fl_row_cmp x y =
     (if fl_group x \<noteq> fl_group y then fl_group x - fl_group y
      else if fl_port x \<noteq> fl_port y then fl_port x - fl_port y
      else let a = map of_char (fl_call x) :: nat list; b = map of_char (fl_call y)
           in if a < b then -1 else if a = b then 0 else 1)"

text \<open>The counters of an AX.25 link.\<close>

record l2_counters =
  c_queued :: int
  c_connected :: int
  c_tx_bytes :: int
  c_rx_bytes :: int
  c_tx_frames :: int
  c_resent :: int
  c_rx_frames :: int
  c_rx_repeated :: int
  c_polls :: int

definition flex_fl_fill_l2 :: "env \<Rightarrow> (nat \<Rightarrow> l2_counters) \<Rightarrow> node \<Rightarrow> nat option \<Rightarrow> fl_row \<Rightarrow> fl_row" where
  "flex_fl_fill_l2 ev cs nd L r =
     (case L of None \<Rightarrow> r\<lparr>fl_up := False\<rparr>
      | Some l \<Rightarrow>
          if \<not> link_up nd l then r\<lparr>fl_up := False\<rparr>
          else
            let c = cs l; t = (if c_connected c \<noteq> 0 then e_now ev - c_connected c else 0)
            in r\<lparr>fl_up := True, fl_queued := c_queued c, fl_connect_s := t, fl_tx_bytes := c_tx_bytes c,
                 fl_rx_bytes := c_rx_bytes c, fl_txq := flex_fl_pct (c_tx_frames c) (c_resent c),
                 fl_rxq := flex_fl_pct (c_rx_frames c) (c_rx_repeated c),
                 fl_rr_tenths := flex_fl_rr_tenths (c_polls c) (c_tx_frames c + c_resent c),
                 fl_bps := (if t > 0 then (c_tx_bytes c + c_rx_bytes c) * 8 div t else 0)\<rparr>)"

definition flex_fl_sess_routes :: "node \<Rightarrow> nat \<Rightarrow> nat" where
  "flex_fl_sess_routes nd si =
     length (filter (\<lambda>d. d_via_session_idx d = int si \<and> d_rtt d < FLEXNET_RTT_INFINITY) (dests nd))"

definition flex_fl_link_hidden :: "node \<Rightarrow> nat option \<Rightarrow> bool" where
  "flex_fl_link_hidden nd L =
     (L \<noteq> None \<and> list_ex (\<lambda>i. s_active (sessions nd ! i) \<and> s_LINK (sessions nd ! i) = L \<and>
        has_opt (flex_sess_link_opts nd (int i)) FLEX_LOPT_HIDDEN) [0..<FLEXNET_MAX_SESSIONS])"

text \<open>NET/ROM's neighbours, and per destination the first INP3 and the first NET/ROM neighbour.\<close>

record nr_route =
  r_call :: "byte list"
  r_link :: "nat option"
  r_port :: int
  r_inp3 :: bool
  r_srtt :: int
  r_peer_srtt :: int
  r_qual :: int
  r_locked :: bool

record netrom =
  nr_neighbours :: "nr_route list"
  nr_dests :: "(byte list \<times> nat option \<times> nat option) list"

definition flex_fl_nbr_dests :: "netrom \<Rightarrow> nat \<Rightarrow> nat" where
  "flex_fl_nbr_dests nr i =
     length (filter (\<lambda>(call, inp3, nrr). call ! 0 \<noteq> 0 \<and> (if inp3 \<noteq> None then inp3 else nrr) = Some i) (nr_dests nr))"

definition nbr_row :: "env \<Rightarrow> (nat \<Rightarrow> l2_counters) \<Rightarrow> netrom \<Rightarrow> node \<Rightarrow> nat \<Rightarrow> fl_row" where
  "nbr_row ev cs nr nd i =
     (let R = nr_neighbours nr ! i;
          r = (flex_fl_fill_l2 ev cs nd (r_link R) fl_row0)\<lparr>fl_dst := int (flex_fl_nbr_dests nr i),
                 fl_call := take 9 (trim_sp (e_conv ev (r_call R))), fl_port := r_port R\<rparr>;
          own = flex_fl_ticks_10ms (r_srtt R); peer = flex_fl_ticks_10ms (r_peer_srtt R)
      in if r_inp3 R
         then r\<lparr>fl_type := CHR ''I'', fl_rtt_own := own, fl_rtt_peer := peer, fl_qt := flex_fl_qt_avg own peer False\<rparr>
         else r\<lparr>fl_type := CHR ''Q'', fl_qt := r_qual R, fl_rtt_own := -1, fl_rtt_peer := -1\<rparr>)"

definition nbr_listed :: "env \<Rightarrow> (nat \<Rightarrow> l2_counters) \<Rightarrow> netrom \<Rightarrow> node \<Rightarrow> bool \<Rightarrow> nat \<Rightarrow> bool" where
  "nbr_listed ev cs nr nd sysop i =
     (let R = nr_neighbours nr ! i in
      r_call R ! 0 \<noteq> 0 \<and> \<not> (\<not> sysop \<and> flex_fl_link_hidden nd (r_link R)) \<and>
      (fl_up (nbr_row ev cs nr nd i) \<or> flex_fl_nbr_dests nr i \<noteq> 0 \<or> r_locked R))"

definition flex_fl_collect_nbrs :: "env \<Rightarrow> (nat \<Rightarrow> l2_counters) \<Rightarrow> netrom \<Rightarrow> bool \<Rightarrow> node \<Rightarrow> fl_row list" where
  "flex_fl_collect_nbrs ev cs nr sysop nd =
     take FLEX_FL_MAX_ROWS (map (nbr_row ev cs nr nd)
       (filter (nbr_listed ev cs nr nd sysop) [0..<length (nr_neighbours nr)]))"

text \<open>The sessions with a live link, that a user without rights may see unless they are hidden.\<close>

definition sess_listed :: "node \<Rightarrow> bool \<Rightarrow> nat \<Rightarrow> bool" where
  "sess_listed nd sysop i =
     (s_active (sessions nd ! i) \<and>
      (case s_LINK (sessions nd ! i) of None \<Rightarrow> False | Some l \<Rightarrow> link_call nd l ! 0 \<noteq> 0 \<and> link_up nd l) \<and>
      \<not> (\<not> sysop \<and> has_opt (flex_sess_link_opts nd (int i)) FLEX_LOPT_HIDDEN))"

definition sess_row :: "env \<Rightarrow> (nat \<Rightarrow> l2_counters) \<Rightarrow> node \<Rightarrow> nat \<Rightarrow> fl_row" where
  "sess_row ev cs nd i =
     (let s = sessions nd ! i;
          own = (if lt_sample_count s \<noteq> 0 then our_link_time s else -1);
          peer = (if peer_lt_count s \<noteq> 0 then min 99999 (peer_link_time s) else -1)
      in flex_fl_fill_l2 ev cs nd (s_LINK s)
           (fl_row0\<lparr>fl_call := take 9 (flex_sess_peer_call ev nd i), fl_group := 1, fl_port := s_port s, fl_type := CHR ''F'',
              fl_dst := int (flex_fl_sess_routes nd i), fl_rtt_own := own, fl_rtt_peer := peer,
              fl_qt := flex_fl_qt_avg own peer True\<rparr>))"

definition port_link_up :: "env \<Rightarrow> node \<Rightarrow> port_link \<Rightarrow> bool" where
  "port_link_up ev nd pl =
     (pl_usable pl \<and> (case FindLink ev nd (pl_axcall pl) (e_mycall ev) (pl_port pl) of
        (True, Some l) \<Rightarrow> link_up nd l \<and> FlexNetLink (links nd ! l) | _ \<Rightarrow> False))"

definition down_row :: "port_link \<Rightarrow> fl_row" where
  "down_row pl = fl_row0\<lparr>fl_call := take 9 (pl_call pl), fl_group := 1, fl_port := pl_port pl, fl_type := CHR ''F'',
     fl_dst := -1, fl_qt := -1, fl_rtt_own := -1, fl_rtt_peer := -1\<rparr>"

definition flex_fl_collect_flexnet :: "env \<Rightarrow> (nat \<Rightarrow> l2_counters) \<Rightarrow> bool \<Rightarrow> node \<Rightarrow> fl_row list \<Rightarrow> fl_row list" where
  "flex_fl_collect_flexnet ev cs sysop nd rows =
     take FLEX_FL_MAX_ROWS (rows @
       map (sess_row ev cs nd) (filter (sess_listed nd sysop) [0..<FLEXNET_MAX_SESSIONS]) @
       map down_row (filter (\<lambda>pl. \<not> (\<not> sysop \<and> has_opt (pl_opts pl) FLEX_LOPT_HIDDEN) \<and> \<not> port_link_up ev nd pl)
         (port_links nd)))"

type_synonym row_sorter = "(fl_row \<Rightarrow> fl_row \<Rightarrow> int) \<Rightarrow> fl_row list \<Rightarrow> fl_row list"

definition flex_fl_link_table ::
  "row_sorter \<Rightarrow> env \<Rightarrow> (nat \<Rightarrow> l2_counters) \<Rightarrow> netrom \<Rightarrow> bool \<Rightarrow> node \<Rightarrow> string" where
  "flex_fl_link_table qs ev cs nr sysop nd =
     (let rows = flex_fl_collect_flexnet ev cs sysop nd (flex_fl_collect_nbrs ev cs nr sysop nd);
          sorted = (if length rows > 1 then qs flex_fl_row_cmp rows else rows)
      in [CR] @ ''Link to       dst  Q/T    rtt    tx connect   tx   rx   txq/rxq  rr+%  bit/s'' @ [CR, CR] @
         concat (map (\<lambda>r. flex_fl_format_row r @ [CR]) sorted) @
         (if rows = [] then ''(no links)'' @ [CR] else '''') @
         (if length rows = FLEX_FL_MAX_ROWS then ''(first '' @ dec_of_nat FLEX_FL_MAX_ROWS @ '' links only)'' @ [CR] else '''') @
         [CR])"

section \<open>The detail\<close>

definition flex_fl_wants_detail :: "string option \<Rightarrow> bool" where
  "flex_fl_wants_detail tail =
     (case tail of None \<Rightarrow> False
      | Some s \<Rightarrow> (case dropWhile (\<lambda>c. c = SP \<or> c = TAB) s of [] \<Rightarrow> False | c # _ \<Rightarrow> c = CHR ''+''))"

definition fl_detail_row :: "env \<Rightarrow> node \<Rightarrow> nat \<Rightarrow> string" where
  "fl_detail_row ev nd i =
     (let s = sessions nd ! i;
          status = (if flex_is_established s then (if sent_routes s then ''CONNECTED'' else ''INIT'') else ''PENDING'');
          ms = peer_link_time s * 100;
          lt = take 7 (if ms \<ge> 1000 then dec_of_int (ms div 1000) @ ''s'' else ''0.'' @ dec_of_int (ms div 100) @ ''s'')
      in rpad 12 (flex_sess_peer_call ev nd i) @ [SP] @ rpad 4 (dec_of_int (s_port s)) @ ''  '' @ rpad 9 status @ ''  '' @
         rpad 6 lt @ [SP] @ rpad 5 (flex_fl_qt_cell (unat (lt_sample_count s)) (our_link_time s)) @ [SP] @
         rpad 5 (dec_of_nat (keepalive_count s)) @ ''  '' @
         rpad 10 (flex_format_uptime (e_now ev - session_start s)) @ ''  '' @ dec_of_nat (flex_fl_sess_routes nd i) @ [CR])"

definition fl_links :: "env \<Rightarrow> bool \<Rightarrow> node \<Rightarrow> string" where
  "fl_links ev sysop nd =
     (let shown = filter (sess_listed nd sysop) [0..<FLEXNET_MAX_SESSIONS] in
      ''FlexNet Links:'' @ [CR] @ ''Link         Port  Status     LT     Own   KA     Uptime      Routes'' @ [CR] @
      ''------------ ----  ---------  ------ ----- -----  ----------  ------'' @ [CR] @
      concat (map (fl_detail_row ev nd) shown) @
      (if shown = [] then ''(no active FlexNet links)'' @ [CR] else ''''))"

text \<open>Session events, newest first. \<open>when\<close> prints a time, as \<open>localtime\<close> and \<open>strftime\<close> do.\<close>

definition fl_events :: "(int \<Rightarrow> string) \<Rightarrow> node \<Rightarrow> string" where
  "fl_events when nd =
     (case sess_events nd of (evs, nxt) \<Rightarrow>
        [CR] @ ''Sessions: started='' @ dec_of_nat (sess_started nd) @ '' closed='' @ dec_of_nat (sess_closed nd) @
        '' reaped='' @ dec_of_nat (sess_reaped nd) @ '' slot-moves='' @ dec_of_nat (sess_migrated nd) @ [CR] @
        concat (map (\<lambda>e. ''  '' @ when (ev_t e) @ ''  '' @ rpad 10 (ev_peer e) @ [SP] @ ev_what e @ [CR])
          (filter (\<lambda>e. ev_t e \<noteq> 0)
            (map (\<lambda>k. evs ! ((nxt + FLEX_SESS_EVENTS - 1 - k) mod FLEX_SESS_EVENTS)) [0..<FLEX_SESS_EVENTS]))))"

definition hex_digit :: "nat \<Rightarrow> char" where
  "hex_digit n = ''0123456789ABCDEF'' ! n"

definition flex_parse_footer :: "(int \<Rightarrow> string) \<Rightarrow> parse_stats \<Rightarrow> string" where
  "flex_parse_footer when st =
     (let b = ps_last_byte0 st;
          b0 = (if b \<ge> 0 then ''0x'' @ [hex_digit (nat b div 16), hex_digit (nat b mod 16)] else ''-'');
          last = (if ps_last_t st = 0 then ''''
                  else take 127 (''  last: '' @ when (ps_last_t st) @ [SP] @ ps_last_peer st @ [SP] @ ps_last_what st @ [SP] @
                    (if ps_last_kind st = PARSE_UNKNOWN then ''unknown'' else ''malformed'') @
                    '' byte0='' @ b0 @ '' len='' @ dec_of_int (ps_last_len st)))
      in take 191 (''Parser: unknown='' @ dec_of_nat (ps_unknown st) @ '' malformed='' @ dec_of_nat (ps_malformed st) @ last @ [CR]))"

definition opts_text :: "int \<Rightarrow> string" where
  "opts_text o' = (case flex_link_opts_format o' 8 of None \<Rightarrow> '''' | Some t \<Rightarrow> t)"

definition fl_option_row :: "env \<Rightarrow> node \<Rightarrow> nat \<Rightarrow> string" where
  "fl_option_row ev nd i =
     (let opts = flex_sess_link_opts nd (int i); word = (\<lambda>o' t. if has_opt opts o' then t else '''') in
      ''  '' @ rpad 12 (flex_sess_peer_call ev nd i) @ [SP] @ rpad 4 (opts_text opts) @ [SP] @
      word FLEX_LOPT_NO_NBR '' no-neighbour'' @ word FLEX_LOPT_NO_BEHIND '' no-transit'' @
      word FLEX_LOPT_OWN_ONLY '' own-only'' @ word FLEX_LOPT_PENALTY '' +2000'' @ word FLEX_LOPT_HIDDEN '' hidden'' @ [CR])"

text \<open>Active sessions of a link, listed even when the link is down.\<close>

definition sess_visible :: "node \<Rightarrow> bool \<Rightarrow> nat \<Rightarrow> bool" where
  "sess_visible nd sysop i =
     (s_active (sessions nd ! i) \<and>
      (case s_LINK (sessions nd ! i) of None \<Rightarrow> False | Some l \<Rightarrow> link_call nd l ! 0 \<noteq> 0) \<and>
      \<not> (\<not> sysop \<and> has_opt (flex_sess_link_opts nd (int i)) FLEX_LOPT_HIDDEN))"

definition titled :: "string \<Rightarrow> string list \<Rightarrow> string" where
  "titled title rows = (if rows = [] then '''' else [CR] @ title @ [CR] @ concat rows)"

definition fl_options :: "env \<Rightarrow> bool \<Rightarrow> node \<Rightarrow> string" where
  "fl_options ev sysop nd =
     titled ''FlexNet Link options''
       (map (fl_option_row ev nd)
         (filter (\<lambda>i. sess_visible nd sysop i \<and> flex_sess_link_opts nd (int i) \<noteq> 0) [0..<FLEXNET_MAX_SESSIONS]))"

definition port_link_state :: "env \<Rightarrow> node \<Rightarrow> port_link \<Rightarrow> string" where
  "port_link_state ev nd pl =
     (if \<not> pl_usable pl then ''unusable''
      else case FindLink ev nd (pl_axcall pl) (e_mycall ev) (pl_port pl) of
        (True, Some l) \<Rightarrow>
          if link_up nd l then (if FlexNetLink (links nd ! l) then ''up'' else ''L2 up'')
          else if L2STATE (links nd ! l) = 2 \<or> L2STATE (links nd ! l) = 1 then ''connecting'' else ''closing''
      | _ \<Rightarrow> if pl_backoff pl \<noteq> 0 then ''no answer'' else ''down'')"

definition fl_port_links :: "env \<Rightarrow> bool \<Rightarrow> node \<Rightarrow> string" where
  "fl_port_links ev sysop nd =
     titled ''FlexNet KISS links''
       (map (\<lambda>pl. ''  '' @ rpad 12 (pl_call pl) @ '' port '' @ rpad 3 (dec_of_int (pl_port pl)) @ [SP] @
               rpad 4 (opts_text (pl_opts pl)) @ [SP] @ rpad 10 (port_link_state ev nd pl) @ '' opens='' @
               dec_of_nat (pl_opens pl) @ [CR])
         (filter (\<lambda>pl. \<not> (\<not> sysop \<and> has_opt (pl_opts pl) FLEX_LOPT_HIDDEN)) (port_links nd)))"

definition fl_locals :: "node \<Rightarrow> string" where
  "fl_locals nd =
     (if locals nd = [] \<and> \<not> local_apps nd then ''''
      else [CR] @ ''FlexNet Local calls'' @ (if local_apps nd then '' (FLEXNETLOCALAPPS YES)'' else '''') @
        ''  echo-skips='' @ dec_of_nat (local_echo_skips nd) @ [CR] @
        concat (map (\<lambda>e. ''  '' @ rpad 10 (flex_local_format e) @ [SP] @ flex_local_state_name (lc_state e) @
            (if lc_from_apps e then ''  [from APPLICATION]'' else '''') @
            (if lc_ext_port e \<noteq> 0 then take 23 (''  [external, port '' @ dec_of_int (lc_ext_port e) @ '']'') else '''') @ [CR])
          (locals nd)) @
        (if locals nd = [] then ''  (no APPLICATION call outside NODECALL's base)'' @ [CR] else ''''))"

definition fl_transit_row :: "env \<Rightarrow> node \<Rightarrow> nat \<Rightarrow> string" where
  "fl_transit_row ev nd i =
     (let rs = routes (learned nd ! i); as = advs (advertised nd ! i) in
      rpad 12 (flex_sess_peer_call ev nd i) @ [SP] @
      rpad 6 (if flex_peer_is_pcf (Some (sessions nd ! i)) then ''PCF'' else ''xnet'') @ ''  '' @
      lpad 7 (dec_of_nat (length rs)) @ ''  '' @ lpad 6 (dec_of_nat (length (filter l_direct rs))) @ ''  '' @
      lpad 6 (dec_of_nat (length as)) @ ''  '' @ lpad 6 (dec_of_nat (length (filter pending as))) @ ''  '' @
      lpad 6 (fixed2 (tokens (advertised nd ! i))) @ [CR])"

definition fl_transit :: "env \<Rightarrow> bool \<Rightarrow> l2_state \<Rightarrow> path_state \<Rightarrow> node \<Rightarrow> string" where
  "fl_transit ev sysop st ps nd =
     (if \<not> transit_enabled nd then ''''
      else [CR] @ ''FlexNet Transit (FLEXNETTRANSIT YES)  rtt0-skips='' @ dec_of_nat (rtt0_skips nd) @ [CR] @
        (if l2_transit_enabled nd
         then ''L2 forwarding ON: extended='' @ dec_of_nat (fwd_extended st) @ '' contracted='' @ dec_of_nat (fwd_contracted st) @
              '' declined='' @ dec_of_nat (fwd_declined st) @ [CR] @ ''  circuits='' @
              dec_of_nat (flex_l2_active_circuits (e_now ev) (circuits st)) @ '' repinned='' @ dec_of_nat (fwd_repinned st) @
              '' looped='' @ dec_of_nat (fwd_looped st) @ '' evicted='' @ dec_of_nat (fwd_evicted st) @ [CR] @
              ''  cross-port '' @ (if flex_crossport_active nd then ''ON'' else ''off'') @ '': frames='' @
              dec_of_nat (fwd_crossport st) @ [CR]
         else '''') @
        (if path_forward_enabled nd
         then ''Path forwarding ON: forwarded='' @ dec_of_nat (path_fwd_sent ps) @ '' declined='' @ dec_of_nat (path_fwd_declined ps) @
              '' replies-relayed='' @ dec_of_nat (path_rep_relayed ps) @ [CR]
         else '''') @
        ''Peer         Family  Learned  Direct  Advert  Queued  Tokens'' @ [CR] @
        ''------------ ------  -------  ------  ------  ------  ------'' @ [CR] @
        concat (map (fl_transit_row ev nd) (filter (sess_visible nd sysop) [0..<FLEXNET_MAX_SESSIONS])))"

text \<open>The command initialises the layer before it reports the local calls.\<close>

definition FlexNet_CmdLinks ::
  "row_sorter \<Rightarrow> (int \<Rightarrow> string) \<Rightarrow> env \<Rightarrow> (nat \<Rightarrow> l2_counters) \<Rightarrow> netrom \<Rightarrow> bool \<Rightarrow> string option \<Rightarrow> l2_state \<Rightarrow> life \<Rightarrow>
     string \<times> life" where
  "FlexNet_CmdLinks qs when ev cs nr sysop tail st s =
     (let nd = lf_node s; table = flex_fl_link_table qs ev cs nr sysop nd in
      if \<not> flex_fl_wants_detail tail then (table, s)
      else
        let s1 = FlexNet_Init ev s; nd1 = lf_node s1 in
        (table @ fl_links ev sysop nd @ fl_events when nd @ flex_parse_footer when (p_stats (lf_ps s)) @
         fl_options ev sysop nd @ (if port_links nd = [] then '''' else fl_port_links ev sysop nd) @
         fl_locals nd1 @ fl_transit ev sysop st (lf_ps s1) nd1, s1))"

end
