(* ===== verification/Flex_Cmd_Props.thy ===== *)
theory Flex_Cmd_Props
  imports Flex_Links Flex_Life_Props "HOL-Library.Multiset"
begin

text \<open>
  Properties of the operator's commands: D lists exactly the destinations that pass its filters, in the
  order asked for, whatever sorting algorithm \<open>qsort\<close> is; the byte counts of FL fit their column; the
  "Routes" column of FL adds up to the destinations in the table.
\<close>

section \<open>Sorting\<close>

text \<open>What the C standard asks of a comparator, and promises of \<open>qsort\<close> when it is met.\<close>

definition consistent :: "('a \<Rightarrow> 'a \<Rightarrow> int) \<Rightarrow> bool" where
  "consistent cmp \<longleftrightarrow> (\<forall>a b. (cmp a b < 0) = (0 < cmp b a)) \<and>
     (\<forall>a b c. cmp a b \<le> 0 \<longrightarrow> cmp b c \<le> 0 \<longrightarrow> cmp a c \<le> 0)"

definition sorts :: "sorter \<Rightarrow> bool" where
  "sorts qs \<longleftrightarrow> (\<forall>cmp xs. consistent cmp \<longrightarrow>
     mset (qs cmp xs) = mset xs \<and> sorted_wrt (\<lambda>a b. cmp a b \<le> 0) (qs cmp xs))"

text \<open>The order each option names.\<close>

definition dest_before :: "dest_sort \<Rightarrow> dest_entry list \<Rightarrow> nat \<Rightarrow> nat \<Rightarrow> bool" where
  "dest_before mode ds i j =
     (let a = ds ! i; b = ds ! j; la = lower_bytes (d_callsign a); lb = lower_bytes (d_callsign b) in
      case mode of SortCost \<Rightarrow> (d_rtt a, la) \<le> (d_rtt b, lb) | SortCall \<Rightarrow> (la, d_ssid_lo a) \<le> (lb, d_ssid_lo b)
      | SortAge \<Rightarrow> (- path_time a, la) \<le> (- path_time b, lb) | Unsorted \<Rightarrow> i \<le> j)"

lemma consistent_key:
  fixes key :: "'a \<Rightarrow> 'k::linorder"
  assumes "\<And>a b. cmp a b < 0 \<longleftrightarrow> key a < key b" "\<And>a b. cmp a b \<le> 0 \<longleftrightarrow> key a \<le> key b"
  shows "consistent cmp"
proof -
  have "0 < cmp b a \<longleftrightarrow> key a < key b" for a b
    using assms(2) [of b a] by (simp add: linorder_not_le [symmetric])
  then show ?thesis unfolding consistent_def using assms by auto
qed

lemma casecmp_le [text_simps]: "casecmp a b \<le> 0 \<longleftrightarrow> lower_bytes a \<le> lower_bytes b"
  by (auto simp: casecmp_def)

lemma casecmp_less [text_simps]: "casecmp a b < 0 \<longleftrightarrow> lower_bytes a < lower_bytes b"
  by (auto simp: casecmp_def)

lemma casecmp_zero [text_simps]: "casecmp a b = 0 \<longleftrightarrow> lower_bytes a = lower_bytes b"
  by (auto simp: casecmp_def)

lemma flex_dest_cmp_qs_le: "flex_dest_cmp_qs mode ds i j \<le> 0 \<longleftrightarrow> dest_before mode ds i j"
  by (cases mode)
    (auto simp: flex_dest_cmp_qs_def dest_before_def Let_def text_simps less_eq_prod_def)

lemma flex_dest_cmp_qs_less: "flex_dest_cmp_qs mode ds i j < 0 \<longleftrightarrow> \<not> dest_before mode ds j i"
  by (cases mode)
    (auto simp: flex_dest_cmp_qs_def dest_before_def Let_def text_simps less_eq_prod_def)

lemma flex_dest_cmp_qs_consistent: "consistent (flex_dest_cmp_qs mode ds)"
proof -
  note c = flex_dest_cmp_qs_le flex_dest_cmp_qs_less dest_before_def Let_def linorder_not_le
  show ?thesis
  proof (cases mode)
    case Unsorted
    then show ?thesis by (intro consistent_key [where key = id]) (simp_all add: c)
  next
    case SortCost
    then show ?thesis
      by (intro consistent_key [where key = "\<lambda>i. (d_rtt (ds ! i), lower_bytes (d_callsign (ds ! i)))"]) (simp_all only: c dest_sort.case)
  next
    case SortCall
    then show ?thesis
      by (intro consistent_key [where key = "\<lambda>i. (lower_bytes (d_callsign (ds ! i)), d_ssid_lo (ds ! i))"]) (simp_all only: c dest_sort.case)
  next
    case SortAge
    then show ?thesis
      by (intro consistent_key [where key = "\<lambda>i. (- path_time (ds ! i), lower_bytes (d_callsign (ds ! i)))"]) (simp_all only: c dest_sort.case)
  qed
qed

lemma sorts_indices:
  assumes "sorts qs" "consistent cmp"
  shows "distinct (qs cmp [0..<n])" "set (qs cmp [0..<n]) = {..<n}" "sorted_wrt (\<lambda>a b. cmp a b \<le> 0) (qs cmp [0..<n])"
proof -
  have m: "mset (qs cmp [0..<n]) = mset [0..<n]" and s: "sorted_wrt (\<lambda>a b. cmp a b \<le> 0) (qs cmp [0..<n])"
    using assms by (auto simp: sorts_def)
  show "distinct (qs cmp [0..<n])" using mset_eq_imp_distinct_iff [OF m] by simp
  show "set (qs cmp [0..<n]) = {..<n}" using mset_eq_setD [OF m] by (simp add: atLeast0LessThan)
  show "sorted_wrt (\<lambda>a b. cmp a b \<le> 0) (qs cmp [0..<n])" by (rule s)
qed

text \<open>C38: D lists every row that passes the filters once and no other, and in the order that was asked for,
  ties broken by callsign without regard to case: this holds for every \<open>qsort\<close> that keeps the C
  standard's promise, since the comparator is consistent in all its modes.\<close>

theorem dest_listing_exact:
  assumes "sorts qs"
  shows "distinct (dest_rows qs ev q ds) \<and>
    set (dest_rows qs ev q ds) = {i. i < length ds \<and> dest_shown ev q (ds ! i)} \<and>
    sorted_wrt (dest_before (q_sort q) ds) (dest_rows qs ev q ds)"
proof (cases "q_sort q = Unsorted")
  case True
  then show ?thesis
    by (auto simp: dest_rows_def dest_before_def [abs_def] Let_def intro!: sorted_wrt_filter)
next
  case False
  note f = sorts_indices [OF assms flex_dest_cmp_qs_consistent, of "q_sort q" ds "length ds"]
  show ?thesis
    using f False by (auto simp: dest_rows_def flex_dest_cmp_qs_le intro!: sorted_wrt_filter)
qed


section \<open>The cells of FL\<close>

lemma round_even_bounds:
  assumes "0 \<le> q" "q < of_int n + 1 / 2"
  shows "0 \<le> round_even q" "round_even q \<le> n"
proof -
  have f: "of_int (floor q) \<le> q" "q < of_int (floor q) + 1" by linarith+
  have "0 \<le> floor q" using assms(1) by simp
  moreover have "floor q \<le> n" using assms(2) f(1) by linarith
  moreover have "floor q < n" if "q - of_int (floor q) \<ge> 1 / 2"
    using that assms(2) by linarith
  ultimately show "0 \<le> round_even q" "round_even q \<le> n"
    by (auto simp: round_even_def Let_def)
qed

lemma length_lpad_small: "0 \<le> k \<Longrightarrow> k < 1000 \<Longrightarrow> length (lpad 3 (dec_of_int k)) = 3"
proof -
  assume k: "0 \<le> k" "k < 1000"
  have "length (dec_of_nat (nat k)) \<le> 3"
    by (rule length_dec_of_nat_le) (use k in \<open>simp_all add: nat_less_iff\<close>)
  then show ?thesis using k by (simp add: lpad_def dec_of_int_def)
qed

lemma length_dec_digit: "0 \<le> k \<Longrightarrow> k < 10 \<Longrightarrow> length (dec_of_int k) = 1"
  by (simp add: dec_of_int_def dec_of_nat.simps)

lemma length_fixed1: 
  assumes "0 \<le> q" "q < 199 / 20"
  shows "length (fixed1 q) = 3"
proof -
  have "0 \<le> round_even (10 * q)" "round_even (10 * q) \<le> 99"
    using round_even_bounds [of "10 * q" 99] assms by auto
  then show ?thesis by (simp add: fixed1_def Let_def length_dec_digit)
qed

lemma scale_bytes_range:
  assumes "0 \<le> d" "2 * d < 1999 * 1024 ^ n"
  shows "0 \<le> fst (scale_bytes n d u)" "fst (scale_bytes n d u) < 1999 / 2" "snd (scale_bytes n d u) \<le> u + n"
proof -
  have "0 \<le> fst (scale_bytes n d u) \<and> fst (scale_bytes n d u) < 1999 / 2 \<and> snd (scale_bytes n d u) \<le> u + n"
    using assms
  proof (induction n arbitrary: d u)
    case (Suc n)
    have "0 \<le> d / 1024" "2 * (d / 1024) < 1999 * 1024 ^ n" using Suc.prems by (simp_all add: field_simps)
    from Suc.IH [OF this, of "u + 1"] show ?case using Suc.prems by auto
  qed auto
  then show "0 \<le> fst (scale_bytes n d u)" "fst (scale_bytes n d u) < 1999 / 2" "snd (scale_bytes n d u) \<le> u + n"
    by auto
qed

text \<open>C39: a byte count of up to 999 tebibytes is four characters wide, three of the number and the unit: the
  tx and rx columns of the link table stay in line, also where rounding carries into the next digit.\<close>

theorem byte_cell_four_wide:
  assumes "2 * v < 1999 * 1024 ^ 4"
  shows "length (flex_fl_bytes v) = 4"
proof (cases "max 0 v < 1000")
  case True
  then show ?thesis by (auto simp: flex_fl_bytes_def Let_def length_lpad_small)
next
  case False
  define d :: rat where "d = of_int v / 1024"
  have v: "max 0 v = v" "1000 \<le> v" using False by auto
  have "(of_int (2 * v) :: rat) < of_int (1999 * 1024 ^ 4)" using assms by (simp only: of_int_less_iff)
  then have "0 \<le> d" "2 * d < 1999 * 1024 ^ 3" using v by (simp_all add: d_def field_simps)
  note r = scale_bytes_range [OF this, of 0]
  obtain e u where e: "scale_bytes 3 d 0 = (e, u)" by (cases "scale_bytes 3 d 0") auto
  have "0 \<le> round_even e" "round_even e \<le> 999" using round_even_bounds [of e 999] r e by auto
  then have "length (if e < 199 / 20 then lpad 3 (fixed1 e) else lpad 3 (dec_of_int (round_even e))) = 3"
    using r e length_fixed1 [of e] length_lpad_small [of "round_even e"] by (auto simp: lpad_def)
  then show ?thesis using False v(1) e by (simp add: flex_fl_bytes_def Let_def d_def)
qed

section \<open>The Routes column\<close>

lemma sum_count:
  assumes "finite A"
  shows "(\<Sum>i \<in> A. length (filter (\<lambda>x. f x = i \<and> P x) xs)) = length (filter (\<lambda>x. f x \<in> A \<and> P x) xs)"
proof (induction xs)
  case (Cons x xs)
  have "(\<Sum>i \<in> A. length (filter (\<lambda>x. f x = i \<and> P x) (x # xs))) =
    (\<Sum>i \<in> A. (if f x = i \<and> P x then 1 else 0) + length (filter (\<lambda>x. f x = i \<and> P x) xs))"
    by (intro sum.cong) auto
  also have "\<dots> = (if f x \<in> A \<and> P x then 1 else 0) + length (filter (\<lambda>x. f x \<in> A \<and> P x) xs)"
    using assms by (simp add: sum.distrib Cons.IH)
  finally show ?case by simp
qed simp

definition active_sessions :: "node \<Rightarrow> nat set" where
  "active_sessions nd = {i. i < FLEXNET_MAX_SESSIONS \<and> s_active (sessions nd ! i)}"

text \<open>C37: the route counts that FL shows for its sessions account for every destination in use: in a
  reachable state they add up to the rows with a next hop and a finite cost, none counted twice and none for a
  session that has ended.\<close>

theorem routes_column_adds_up:
  assumes "reachable s"
  shows "(\<Sum>i \<in> active_sessions (lf_node s). flex_fl_sess_routes (lf_node s) i) =
    length (filter (\<lambda>d. d_via_session_idx d \<ge> 0 \<and> d_rtt d < FLEXNET_RTT_INFINITY) (dests (lf_node s)))"
proof -
  let ?A = "int ` active_sessions (lf_node s)"
  have fin: "finite (active_sessions (lf_node s))" by (simp add: active_sessions_def)
  have via: "d_via_session_idx d \<in> ?A \<longleftrightarrow> d_via_session_idx d \<ge> 0" if "d \<in> set (dests (lf_node s))" for d
  proof -
    have "via_ok (lf_node s) (d_via_session_idx d)" using reachable_ok [OF assms] that by (simp add: node_ok_def)
    then show ?thesis by (auto simp: via_ok_def act_def active_sessions_def image_iff intro!: exI [of _ "nat (d_via_session_idx d)"])
  qed
  have "(\<Sum>i \<in> active_sessions (lf_node s). flex_fl_sess_routes (lf_node s) i) =
    (\<Sum>i \<in> ?A. length (filter (\<lambda>d. d_via_session_idx d = i \<and> d_rtt d < FLEXNET_RTT_INFINITY) (dests (lf_node s))))"
    by (simp add: sum.reindex flex_fl_sess_routes_def)
  also have "\<dots> = length (filter (\<lambda>d. d_via_session_idx d \<in> ?A \<and> d_rtt d < FLEXNET_RTT_INFINITY) (dests (lf_node s)))"
    using fin by (intro sum_count) simp
  also have "\<dots> = length (filter (\<lambda>d. d_via_session_idx d \<ge> 0 \<and> d_rtt d < FLEXNET_RTT_INFINITY) (dests (lf_node s)))"
    by (simp add: via cong: filter_cong)
  finally show ?thesis .
qed

section \<open>The hypotheses can hold\<close>

text \<open>A \<open>qsort\<close>: insertion sort.\<close>

fun put_in :: "('a \<Rightarrow> 'a \<Rightarrow> int) \<Rightarrow> 'a \<Rightarrow> 'a list \<Rightarrow> 'a list" where
  "put_in cmp x [] = [x]"
| "put_in cmp x (y # ys) = (if cmp x y \<le> 0 then x # y # ys else y # put_in cmp x ys)"

definition insort_by :: "('a \<Rightarrow> 'a \<Rightarrow> int) \<Rightarrow> 'a list \<Rightarrow> 'a list" where
  "insort_by cmp xs = foldr (put_in cmp) xs []"

lemma mset_put_in [simp]: "mset (put_in cmp x ys) = add_mset x (mset ys)"
  by (induction ys) simp_all

lemma set_put_in [simp]: "set (put_in cmp x ys) = insert x (set ys)"
  by (induction ys) auto

lemma sorted_put_in:
  assumes "consistent cmp"
  shows "sorted_wrt (\<lambda>a b. cmp a b \<le> 0) ys \<Longrightarrow> sorted_wrt (\<lambda>a b. cmp a b \<le> 0) (put_in cmp x ys)"
proof (induction ys)
  case (Cons y ys)
  have t: "cmp a b \<le> 0 \<Longrightarrow> cmp b c \<le> 0 \<Longrightarrow> cmp a c \<le> 0" for a b c
    using assms by (auto simp: consistent_def)
  have "cmp y x \<le> 0" if "\<not> cmp x y \<le> 0" using that assms by (auto simp: consistent_def not_le less_imp_le)
  with Cons t show ?case by auto
qed simp

lemma sorts_insort_by: "sorts insort_by"
proof -
  have "mset (insort_by cmp xs) = mset xs \<and> sorted_wrt (\<lambda>a b. cmp a b \<le> 0) (insort_by cmp xs)"
    if "consistent cmp" for cmp :: "nat \<Rightarrow> nat \<Rightarrow> int" and xs
    by (induction xs) (simp_all add: insort_by_def sorted_put_in [OF that])
  then show ?thesis by (simp add: sorts_def)
qed

text \<open>"D /COST" on three rows, the middle one withdrawn.\<close>

definition demo_table :: "dest_entry list" where
  "demo_table = [demo_row, demo_row\<lparr>d_callsign := ''ON5VL'', d_rtt := FLEXNET_RTT_INFINITY\<rparr>,
     demo_row\<lparr>d_callsign := ''IW2OHX'', d_rtt := 20\<rparr>]"

lemma dest_query_cost: "dest_args '' /COST'' dest_query0 = dest_query0\<lparr>q_sort := SortCost\<rparr>"
  by code_simp

lemma dest_listing_exact_witness:
  "dest_rows insort_by demo_env (dest_args '' /COST'' dest_query0) demo_table = [2, 0] \<and>
    sorted_wrt (dest_before SortCost demo_table) [2, 0]"
proof -
  have r: "dest_rows insort_by demo_env (dest_query0\<lparr>q_sort := SortCost\<rparr>) demo_table = [2, 0]" by code_simp
  show ?thesis
    using dest_listing_exact [OF sorts_insort_by, of demo_env "dest_query0\<lparr>q_sort := SortCost\<rparr>" demo_table]
    by (simp add: r dest_query_cost)
qed

lemma byte_cell_four_wide_witness: "length (flex_fl_bytes 10188) = 4"
  using byte_cell_four_wide [of 10188] by simp

lemma routes_column_adds_up_witness:
  "(\<Sum>i \<in> active_sessions (lf_node life_init). flex_fl_sess_routes (lf_node life_init) i) = 1"
proof -
  have "length (filter (\<lambda>d. d_via_session_idx d \<ge> 0 \<and> d_rtt d < FLEXNET_RTT_INFINITY) (dests (lf_node life_init))) = 1"
    by code_simp
  then show ?thesis using routes_column_adds_up [OF reachable_init] by simp
qed

end
