(* ===== verification/Spec2Isabelle.thy ===== *)
theory Spec2Isabelle
  imports Flex_L3 Flex_L2_Circuit Flex_Transit Flex_Path_Props Flex_Digi_Props Flex_Cmd_Props
begin

text \<open>
  A model of the FlexNet layer of LinBPQ (src/FlexNetCode.c, src/flexnet_l3.c, the lookups FlexNet
  adds to src/bpqaxip.c), with the theorems that make it correct.

  \<^bold>\<open>The program.\<close> A node keeps AX.25 links to FlexNet neighbours. Over such a link the two exchange
  CE frames: keepalives, link times, compact route records, path requests and answers. From the records
  the node learns per neighbour which destinations it reaches at what cost, elects a next hop for each
  destination, and advertises what it learned to the other neighbours, metered by a token bucket. Frames of
  strangers that name the node as a digipeater are carried hop by hop by rewriting their digi chain.

  \<^bold>\<open>Theories.\<close>
  \<^item> Flex_Prelude, Flex_Interfaces: strings, bytes and words, scans of tables by index, and the
    locales of a table with keys and of identifier allocation that the components are interpreted in.
  \<^item> Flex_L3 (flexnet_l3.c): layer 3 frames, the connection table, circuit numbers.
  \<^item> Flex_LinkOpts: link options, costs, the keepalive echo gap, the reaper's decision, the event ring.
  \<^item> Flex_CE: the CE frame classifier, the compact record parser and builders, path frames, L3RTT text.
  \<^item> Flex_Config: the directives of bpq32.cfg, the local call table, the node's own SSID range.
  \<^item> Flex_Node: the records of the whole state and the environment (what LinBPQ answers), the small
    predicates on sessions and the frame senders.
  \<^item> Flex_Advert and Flex_Advert_Props: what a neighbour would be told, the decision rule with its
    gates, the count-to-infinity guard, the token bucket, the walks.
  \<^item> Flex_Dest and Flex_Dest_Props: the destination table, learned routes, next hop election,
    adoption, the link time filter.
  \<^item> Flex_L2, Flex_L2_Props, Flex_L2_Circuit: FlexNet_L2Transit, its circuit table and its digi
    chain rewriting; circuits over time.
  \<^item> Flex_Path: path requests and answers, forwarding, relaying, parked requests, the cache file.
  \<^item> Flex_Path_Props: a request passed on as the next node reads it, what becomes of its answer, the path cache
    through a restart, the answer to an own request.
  \<^item> Flex_CF and Flex_CF_Props: CF frames: L3RTT probes and their replies, layer 3 frames in transit; which
    frames the layer finishes with.
  \<^item> Flex_Session: start-up, how a session is found, started, adopted and closed, the CE frame handler
    \<open>FlexNet_ProcessCE\<close> with every frame type.
  \<^item> Flex_Timer: \<open>FlexNet_Timer\<close>: the options and the cache file, the reaper, neighbours without a
    session, the keepalive and advertisement ticks, probes.
  \<^item> Flex_Hooks: the calls LinBPQ makes into the layer (src/L2Code.c, src/Cmd.c): a new SABM, an
    accepted connect, an I frame by its PID, the connect command.
  \<^item> Flex_Digi and Flex_Digi_Props: LinBPQ's digipeater (src/L2Code.c), which hands a stranger's frame to
    FlexNet_L2Transit: what it delivers, what leaves the node and how it is marked.
  \<^item> Flex_Keep, Flex_Life: every operation keeps the tables well formed; the layer as a transition system
    whose steps are those calls, the frames to digipeat and the operator's commands that write to the state, and
    what holds in every state it can reach: the tables, what was advertised included, fit their arrays, routes
    lead over live sessions, frames find their session.
  \<^item> Flex_Life_Props: one pass of the reaper over all sessions, what becomes of the buffer of a CE frame.
  \<^item> Flex_Transit: layer 3 frames in transit over those states: when one is passed on, how and to whom, and
    how two sessions come to share a link, over which a frame then goes back.
  \<^item> Flex_Cmd and Flex_Links: the operator's commands FLEXPROBE (\<open>FlexNet_CmdProbe\<close>), D (\<open>FlexNet_CmdDest\<close>),
    FL and FL + (\<open>FlexNet_CmdLinks\<close>) as functions from the command line and the state to the text of the reply.
  \<^item> Flex_Cmd_Props: D lists exactly the matching destinations in the order asked for, by whatever algorithm
    \<open>qsort\<close> sorts; the cells and the counts of FL.

  \<^bold>\<open>Conventions.\<close> A C struct is a record with its fields in order; a pointer into a table is the index
  of its entry; a fixed array with a count is a list of the used entries, one with an active flag is a list
  of all slots. \<open>time_t\<close> and \<open>int\<close> are \<open>int\<close> where the code cannot overflow
  them, \<open>uint32_t\<close> and \<open>uint16_t\<close> counters that wrap are words, bytes of a frame are
  \<open>char\<close> or \<open>8 word\<close>. Within one operation the clock does not move. The token count
  of the bucket is a \<open>double\<close> in the code and a rational here. What is written to the log or the
  console is left out. LinBPQ's \<open>ConvFromAX25\<close>, \<open>GetBuff\<close>, port and link tables are
  fields of the environment or of the state, without further assumptions.

  \<^bold>\<open>Not modelled.\<close> What is written to the log. How \<open>qsort\<close> sorts and \<open>localtime\<close> prints are parameters
  of the commands, and so are the byte counters of LinBPQ's links and its NET/ROM tables, which they only read. Of LinBPQ itself (src/L2Code.c, src/Cmd.c,
  src/bpqaxip.c, src/asmstrucs.h) only what the FlexNet layer calls, or what decides about a frame around
  a call into it, is translated; the AX.25 state machine, the sockets and the node's command loop are
  upstream code, and a link table entry may change arbitrarily between two steps of the transition system.

  \<^bold>\<open>Fuel.\<close> Loops with a bound in the code recurse on that bound: 65536 tries for a path QSO, the
  256 circuit numbers, the entries of a table, the 17 calls of a path frame. Loops driven by data
  recurse on the data, the token loop on the tokens, each with a termination proof. The hop loop of an L3RTT
  reply, which may run for ever, is a \<open>while_option\<close>.
\<close>

end
